(* ===== verification/Prelude.thy ===== *)
theory Prelude
  imports Complex_Main "HOL-Library.Word" "HOL-Library.Sublist"
begin

text \<open>
  What every component of the wosh page shares: JavaScript strings and the few operations of the
  language's string library the page uses, nullish values, and the collections of rules the
  component theories extend.

  A JavaScript string is a list of UTF-16 code units (natural numbers), so lengths and indices
  count what the program counts. A value that may be null or undefined is an option.
\<close>

named_theorems page_simps \<open>rewrite rules of the page's operations\<close>
named_theorems page_inv \<open>invariant preservation, one rule per operation\<close>

type_synonym jstr = "nat list"
type_synonym bytes = "8 word list"

definition js :: "string \<Rightarrow> jstr" where
  "js s = map of_char s"

lemma js_simps [simp]:
  "js [] = []"
  "js (c # s) = of_char c # js s"
  "js (s @ t) = js s @ js t"
  by (simp_all add: js_def)

lemma length_js [simp]: "length (js s) = length s"
  by (simp add: js_def)

text \<open>\<open>x ?? ""\<close>: null and undefined become the empty string.\<close>

definition or_empty :: "jstr option \<Rightarrow> jstr" where
  "or_empty s = (case s of None \<Rightarrow> [] | Some x \<Rightarrow> x)"

lemma or_empty_simps [simp]: "or_empty None = []" "or_empty (Some x) = x"
  by (simp_all add: or_empty_def)

subsection \<open>White space and trimming\<close>

text \<open>WhiteSpace and LineTerminator of ECMA-262: what \<open>trim\<close> and \<open>\s\<close> recognise.\<close>

definition is_ws :: "nat \<Rightarrow> bool" where
  "is_ws c \<longleftrightarrow> c \<in> {9, 10, 11, 12, 13, 32, 160, 5760, 8232, 8233, 8239, 8287, 12288, 65279}
     \<or> 8192 \<le> c \<and> c \<le> 8202"

definition trim_start :: "jstr \<Rightarrow> jstr" where
  "trim_start s = dropWhile is_ws s"

definition trim_end :: "jstr \<Rightarrow> jstr" where
  "trim_end s = rev (dropWhile is_ws (rev s))"

definition trim :: "jstr \<Rightarrow> jstr" where
  "trim s = trim_end (trim_start s)"

lemma trim_end_Nil [simp]: "trim_end [] = []"
  by (simp add: trim_end_def)

lemma trim_Nil [simp]: "trim [] = []"
  by (simp add: trim_def trim_start_def)

lemma trim_start_id: "s = [] \<or> \<not> is_ws (hd s) \<Longrightarrow> trim_start s = s"
  by (cases s) (auto simp: trim_start_def)

lemma trim_end_id: "s = [] \<or> \<not> is_ws (last s) \<Longrightarrow> trim_end s = s"
  by (cases s rule: rev_cases) (auto simp: trim_end_def)

lemma trim_id: "s = [] \<or> \<not> is_ws (hd s) \<and> \<not> is_ws (last s) \<Longrightarrow> trim s = s"
  by (auto simp: trim_def trim_start_id trim_end_id)

lemma trim_no_ws: "\<forall>c \<in> set s. \<not> is_ws c \<Longrightarrow> trim s = s"
  by (cases "s = []") (auto intro!: trim_id)

lemma sublist_trim_start: "sublist (trim_start s) s"
  unfolding trim_start_def by (rule suffix_imp_sublist[OF suffix_dropWhile])

lemma prefix_trim_end: "prefix (trim_end s) s"
proof -
  have "suffix (dropWhile is_ws (rev s)) (rev s)" by (rule suffix_dropWhile)
  then show ?thesis by (simp add: trim_end_def suffix_to_prefix)
qed

lemma sublist_trim: "sublist (trim s) s"
  unfolding trim_def
  by (rule sublist_order.order_trans[OF prefix_imp_sublist[OF prefix_trim_end] sublist_trim_start])

lemma set_trim: "set (trim s) \<subseteq> set s"
  using set_mono_sublist[OF sublist_trim] .

lemma trim_eq_Nil: "trim s = [] \<longleftrightarrow> (\<forall>c \<in> set s. is_ws c)"
proof -
  have "trim_end t = [] \<longleftrightarrow> (\<forall>c \<in> set t. is_ws c)" for t by (simp add: trim_end_def dropWhile_eq_Nil_conv)
  moreover have "(\<forall>c \<in> set (dropWhile is_ws s). is_ws c) \<longleftrightarrow> (\<forall>c \<in> set s. is_ws c)"
    by (induction s) auto
  ultimately show ?thesis by (simp add: trim_def trim_start_def)
qed

text \<open>Deciding white space on numerals, without unfolding it on variables.\<close>

lemma is_ws_numeral [simp]:
  "is_ws (numeral k) \<longleftrightarrow> numeral k \<in> {9, 10, 11, 12, 13, 32, 160, 5760, 8232, 8233, 8239, 8287, 12288, 65279::nat}
     \<or> 8192 \<le> (numeral k :: nat) \<and> (numeral k :: nat) \<le> 8202"
  by (simp only: is_ws_def)

subsection \<open>Splitting and searching\<close>

text \<open>\<open>s.split(c)\<close> for a one-character separator.\<close>

fun split_on :: "nat \<Rightarrow> jstr \<Rightarrow> jstr list" where
  "split_on c [] = [[]]"
| "split_on c (x # xs) =
     (if x = c then [] # split_on c xs
      else (case split_on c xs of [] \<Rightarrow> [[x]] | y # ys \<Rightarrow> (x # y) # ys))"

lemma split_on_ne [simp]: "split_on c s \<noteq> []"
  by (induction s) (auto split: list.splits)

lemma split_on_no_sep: "c \<notin> set s \<Longrightarrow> split_on c s = [s]"
  by (induction s) auto

lemma sep_notin_split_on: "l \<in> set (split_on c s) \<Longrightarrow> c \<notin> set l"
  by (induction s arbitrary: l) (auto split: if_splits list.splits)

lemma split_on_append: "c \<notin> set a \<Longrightarrow> split_on c (a @ c # s) = a # split_on c s"
  by (induction a) (auto split: list.splits)

lemma split_on_sublist: "l \<in> set (split_on c s) \<Longrightarrow> sublist l s"
proof (induction s arbitrary: l)
  case Nil
  then show ?case by simp
next
  case (Cons x s)
  obtain y ys where sp: "split_on c s = y # ys" by (cases "split_on c s") auto
  have pre: "prefix y s"
    using sp
  proof (induction s arbitrary: y ys)
    case (Cons z s)
    then show ?case by (auto split: if_splits list.splits)
  qed simp
  show ?case
  proof (cases "x = c \<or> l \<in> set ys")
    case True
    with Cons sp have "l = [] \<or> l \<in> set (split_on c s)" by (auto split: if_splits)
    with Cons.IH show ?thesis by (auto simp: sublist_Cons_right)
  next
    case False
    with Cons.prems sp have "l = x # y" by (auto split: if_splits)
    with pre show ?thesis by (simp add: prefix_imp_sublist)
  qed
qed

text \<open>\<open>s.split(/\s+/)\<close>\<close>

function split_ws :: "jstr \<Rightarrow> jstr list" where
  "split_ws s =
     (let a = takeWhile (\<lambda>c. \<not> is_ws c) s; r = dropWhile (\<lambda>c. \<not> is_ws c) s
      in if r = [] then [a] else a # split_ws (dropWhile is_ws r))"
  by auto
termination
proof (relation "measure length")
  fix s :: jstr and a r
  assume r: "r = dropWhile (\<lambda>c. \<not> is_ws c) s" "r \<noteq> []"
  then have "is_ws (hd r)" using hd_dropWhile[of "\<lambda>c. \<not> is_ws c" s] by auto
  with r(2) obtain x u where "r = x # u" "is_ws x" by (cases r) auto
  then have "length (dropWhile is_ws r) < length r" by (simp add: le_imp_less_Suc length_dropWhile_le)
  also have "length r \<le> length s" using r(1) by (simp add: length_dropWhile_le)
  finally show "(dropWhile is_ws r, s) \<in> measure length" by simp
qed simp

declare split_ws.simps [simp del]

lemma split_ws_word: "\<forall>c \<in> set a. \<not> is_ws c \<Longrightarrow> split_ws a = [a]"
  by (subst split_ws.simps) (simp add: takeWhile_eq_all_conv dropWhile_eq_Nil_conv)

lemma split_ws_Cons:
  assumes "\<forall>c \<in> set a. \<not> is_ws c" "is_ws w"
  shows "split_ws (a @ w # t) = a # split_ws (dropWhile is_ws t)"
  using assms by (subst split_ws.simps) (simp add: dropWhile_append2 takeWhile_append2)

definition starts_with :: "jstr \<Rightarrow> jstr \<Rightarrow> bool" where
  "starts_with p s \<longleftrightarrow> take (length p) s = p"

fun str_includes :: "jstr \<Rightarrow> jstr \<Rightarrow> bool" where
  "str_includes p [] \<longleftrightarrow> p = []"
| "str_includes p (x # s) \<longleftrightarrow> starts_with p (x # s) \<or> str_includes p s"

lemma starts_with_prefix: "starts_with p s = prefix p s"
  by (auto simp: starts_with_def prefix_def) (metis append_take_drop_id)

lemma includes_sublist: "str_includes p s = sublist p s"
  by (induction s) (auto simp: starts_with_prefix sublist_Cons_right)

subsection \<open>Upper case\<close>

text \<open>
  \<open>toUpperCase\<close> of one code point. Exact on ASCII and on every code point whose upper case
  contains an ASCII character (Unicode's SpecialCasing table); every other code point keeps a
  non-ASCII image, which is all the callers can tell apart.
\<close>

definition special_upper :: "(nat \<times> jstr) list" where
  "special_upper =
     [(0xDF, [83, 83]), (0x131, [73]), (0x149, [0x2BC, 78]), (0x17F, [83]), (0x1F0, [74, 0x30C]),
      (0x1E96, [72, 0x331]), (0x1E97, [84, 0x308]), (0x1E98, [87, 0x30A]), (0x1E99, [89, 0x30A]),
      (0x1E9A, [65, 0x2BE]), (0xFB00, [70, 70]), (0xFB01, [70, 73]), (0xFB02, [70, 76]),
      (0xFB03, [70, 70, 73]), (0xFB04, [70, 70, 76]), (0xFB05, [83, 84]), (0xFB06, [83, 84])]"

definition to_upper :: "nat \<Rightarrow> jstr" where
  "to_upper c =
     (if 97 \<le> c \<and> c \<le> 122 then [c - 32]
      else case map_of special_upper c of Some u \<Rightarrow> u | None \<Rightarrow> [c])"

definition ascii_lower :: "nat \<Rightarrow> nat" where
  "ascii_lower c = (if 65 \<le> c \<and> c \<le> 90 then c + 32 else c)"

subsection \<open>Numbers in templates\<close>

text \<open>\<open>String(n)\<close> of a whole number.\<close>

fun show_nat :: "nat \<Rightarrow> jstr" where
  "show_nat n = (if n < 10 then [48 + n] else show_nat (n div 10) @ [48 + n mod 10])"

declare show_nat.simps [simp del]

definition show_int :: "int \<Rightarrow> jstr" where
  "show_int n = (if n < 0 then 45 # show_nat (nat (- n)) else show_nat (nat n))"

subsection \<open>Lists\<close>

lemma distinct_map_filter_fst: "distinct (map f xs) \<Longrightarrow> distinct (map f (filter P xs))"
  by (induction xs) auto

lemma in_set_takeD': "x \<in> set (take n xs) \<Longrightarrow> x \<in> set xs"
  by (rule in_set_takeD)

lemma find_SomeD: "List.find P xs = Some x \<Longrightarrow> x \<in> set xs \<and> P x"
  by (induction xs) (auto split: if_splits)

lemma find_NoneD: "List.find P xs = None \<Longrightarrow> \<forall>x \<in> set xs. \<not> P x"
  by (induction xs) (auto split: if_splits)

subsection \<open>Machines\<close>

text \<open>A machine whose steps keep an invariant. Every component with state is one: its step function takes the
  next event, and a run is the fold over the events.\<close>

locale machine =
  fixes step :: "'s \<Rightarrow> 'e \<Rightarrow> 's" and ok :: "'s \<Rightarrow> bool"
  assumes ok_step: "ok s \<Longrightarrow> ok (step s e)"
begin

lemma ok_run: "ok s \<Longrightarrow> ok (foldl step s es)"
  by (induction es arbitrary: s) (simp_all add: ok_step)

lemma kept_run:
  assumes "ok s" and "Q s" and "\<And>s e. ok s \<Longrightarrow> Q s \<Longrightarrow> Q (step s e)"
  shows "Q (foldl step s es)"
  using assms(1,2) by (induction es arbitrary: s) (simp_all add: ok_step assms(3))

lemma frozen_run:
  assumes "ok s" and "Q s" and "\<And>s e. ok s \<Longrightarrow> Q s \<Longrightarrow> Q (step s e) \<and> f (step s e) = f s"
  shows "f (foldl step s es) = f s"
  using kept_run[of s "\<lambda>t. Q t \<and> f t = f s" es] assms by auto

end

text \<open>With the state it starts in.\<close>

locale started_machine = machine +
  fixes start :: 's
  assumes ok_start: "ok start"
begin

lemma ok_reached: "ok (foldl step start es)"
  by (rule ok_run[OF ok_start])

end

end
