(* ===== verification/Regex.thy ===== *)
theory Regex
  imports Prelude
begin

text \<open>
  JavaScript regular expressions, as ECMA-262 defines them: a backtracking matcher in
  continuation-passing style. A pattern tries its alternatives in order and hands the rest of
  the string and the captures so far to a continuation; the first continuation that succeeds
  wins, which is what makes quantifiers greedy. Only the constructs of the page's patterns are
  here: character classes, sequence, alternation, greedy star, anchors and one capturing group.
\<close>

datatype re =
    Cls "nat \<Rightarrow> bool" | Eps | Bol | Eol | Seq re re | Alt re re | Star re | Grp re

type_synonym 'r cont = "jstr \<Rightarrow> jstr list \<Rightarrow> 'r option"

text \<open>
  One greedy star: try another iteration first (one that consumes nothing is refused, as the
  language refuses it), then the continuation. The counter is the length of the string, which
  bounds the iterations because each one consumes.
\<close>

primrec star_iter :: "nat \<Rightarrow> ('r cont \<Rightarrow> 'r cont) \<Rightarrow> 'r cont \<Rightarrow> 'r cont" where
  "star_iter 0 m k s c = k s c"
| "star_iter (Suc n) m k s c =
     (case m (\<lambda>t c'. if length t < length s then star_iter n m k t c' else None) s c of
        Some r \<Rightarrow> Some r
      | None \<Rightarrow> k s c)"

text \<open>\<open>rx_match r n k s c\<close>: \<open>n\<close> is the length of the whole subject, so \<open>^\<close> can be decided.\<close>

primrec rx_match :: "re \<Rightarrow> nat \<Rightarrow> 'r cont \<Rightarrow> 'r cont" where
  "rx_match (Cls p) n k s c = (case s of [] \<Rightarrow> None | x # t \<Rightarrow> if p x then k t c else None)"
| "rx_match Eps n k s c = k s c"
| "rx_match Bol n k s c = (if length s = n then k s c else None)"
| "rx_match Eol n k s c = (if s = [] then k s c else None)"
| "rx_match (Seq a b) n k s c = rx_match a n (rx_match b n k) s c"
| "rx_match (Alt a b) n k s c =
     (case rx_match a n k s c of Some r \<Rightarrow> Some r | None \<Rightarrow> rx_match b n k s c)"
| "rx_match (Star a) n k s c = star_iter (length s) (rx_match a n) k s c"
| "rx_match (Grp a) n k s c =
     rx_match a n (\<lambda>t c'. k t (c' @ [take (length s - length t) s])) s c"

text \<open>The leftmost match: the rest of the string after it, and its captures.\<close>

fun rx_search :: "re \<Rightarrow> nat \<Rightarrow> jstr \<Rightarrow> (jstr \<times> jstr list) option" where
  "rx_search r n s =
     (case rx_match r n (\<lambda>t c. Some (t, c)) s [] of
        Some x \<Rightarrow> Some x
      | None \<Rightarrow> (case s of [] \<Rightarrow> None | _ # t \<Rightarrow> rx_search r n t))"

declare rx_search.simps [simp del]

definition rx_exec :: "re \<Rightarrow> jstr \<Rightarrow> jstr list option" where
  "rx_exec r s = map_option snd (rx_search r (length s) s)"

text \<open>The captures of every match, left to right (\<open>matchAll\<close>); one round per character is enough,
  since every pattern used consumes.\<close>

primrec rx_all :: "nat \<Rightarrow> re \<Rightarrow> nat \<Rightarrow> jstr \<Rightarrow> jstr list list" where
  "rx_all 0 r n s = []"
| "rx_all (Suc f) r n s =
     (case rx_search r n s of None \<Rightarrow> [] | Some (t, c) \<Rightarrow> c # rx_all f r n t)"

definition rx_match_all :: "re \<Rightarrow> jstr \<Rightarrow> jstr list list" where
  "rx_match_all r s = rx_all (length s) r (length s) s"

subsection \<open>Derived patterns\<close>

definition Plus :: "re \<Rightarrow> re" where "Plus r = Seq r (Star r)"
definition Opt :: "re \<Rightarrow> re" where "Opt r = Alt r Eps"

primrec lit :: "jstr \<Rightarrow> re" where
  "lit [] = Eps"
| "lit (c # cs) = Seq (Cls (\<lambda>x. x = c)) (lit cs)"

primrec lit_i :: "jstr \<Rightarrow> re" where
  "lit_i [] = Eps"
| "lit_i (c # cs) = Seq (Cls (\<lambda>x. ascii_lower x = ascii_lower c)) (lit_i cs)"

primrec seqs :: "re list \<Rightarrow> re" where
  "seqs [] = Eps"
| "seqs (r # rs) = Seq r (seqs rs)"

definition ws :: re where "ws = Cls is_ws"
definition non_ws :: re where "non_ws = Cls (\<lambda>c. \<not> is_ws c)"
definition digit :: re where "digit = Cls (\<lambda>c. 48 \<le> c \<and> c \<le> 57)"

text \<open>\<open>.\<close> without the \<open>s\<close> flag: anything but a line terminator.\<close>

definition any_char :: re where
  "any_char = Cls (\<lambda>c. c \<notin> {10, 13, 8232, 8233})"

subsection \<open>Facts about the matcher\<close>

lemma rx_Seq [simp]: "rx_match (Seq a b) n k = rx_match a n (rx_match b n k)"
  by (intro ext) simp

lemma rx_Eps [simp]: "rx_match Eps n k = k"
  by (intro ext) simp

lemma rx_lit:
  "rx_match (lit w) n k s c = (if prefix w s then k (drop (length w) s) c else None)"
proof (induction w arbitrary: s)
  case Nil
  then show ?case by simp
next
  case (Cons a w)
  then show ?case by (cases s) auto
qed

lemma rx_seqs_append:
  "rx_match (seqs (rs @ qs)) n k = rx_match (seqs rs) n (rx_match (seqs qs) n k)"
proof (induction rs)
  case (Cons r rs)
  show ?case by (intro ext) (simp add: Cons.IH)
qed (simp add: fun_eq_iff)

text \<open>
  A star of a class over a run of its characters offers every prefix of the run to the
  continuation, longest first; what the continuation does after the whole run decides when it
  succeeds there.
\<close>

lemma star_cls_run:
  assumes "\<forall>x \<in> set w. p x" and "length w \<le> f" and "t = [] \<or> \<not> p (hd t)"
    and "k t c = Some r"
  shows "star_iter f (rx_match (Cls p) n) k (w @ t) c = Some r"
  using assms
proof (induction w arbitrary: f)
  case Nil
  then show ?case by (cases f; cases t) auto
next
  case (Cons a w)
  then obtain f' where "f = Suc f'" by (cases f) auto
  with Cons show ?case by auto
qed

text \<open>
  Relating the state a star starts in (rest of the subject and captures) to the state it hands
  its continuation: any reflexive and transitive relation its body respects.
\<close>

lemma star_iter_SomeD:
  assumes "star_iter f m k s c = Some r"
    and "\<And>k' s' c' r'. m k' s' c' = Some r' \<Longrightarrow> \<exists>t c''. k' t c'' = Some r' \<and> R (s', c') (t, c'')"
    and "reflp R" and "transp R"
  shows "\<exists>t c'. k t c' = Some r \<and> R (s, c) (t, c')"
  using assms(1)
proof (induction f arbitrary: s c)
  case 0
  then show ?case using assms(3) by (auto dest: reflpD)
next
  case (Suc f)
  let ?k = "\<lambda>t c'. if length t < length s then star_iter f m k t c' else None"
  show ?case
  proof (cases "m ?k s c")
    case None
    then show ?thesis using Suc.prems assms(3) by (auto dest: reflpD)
  next
    case (Some r')
    with Suc.prems have "r' = r" by simp
    from assms(2)[OF Some] obtain t c'' where t: "?k t c'' = Some r'" "R (s, c) (t, c'')" by blast
    then have "star_iter f m k t c'' = Some r" using \<open>r' = r\<close> by (auto split: if_splits)
    from Suc.IH[OF this] obtain u c3 where "k u c3 = Some r" "R (t, c'') (u, c3)" by blast
    then show ?thesis using t(2) assms(4) by (blast dest: transpD)
  qed
qed

text \<open>
  Whatever a match returns, the continuation returned it on a suffix of the subject, and every
  capture made on the way is a piece of the subject.
\<close>

definition progress :: "jstr \<times> jstr list \<Rightarrow> jstr \<times> jstr list \<Rightarrow> bool" where
  "progress = (\<lambda>(s, c) (t, c'). suffix t s \<and> (\<forall>w \<in> set c'. w \<in> set c \<or> sublist w s))"

lemma reflp_progress: "reflp progress"
  by (auto simp: progress_def reflp_def)

lemma transp_progress: "transp progress"
  unfolding progress_def transp_def
  by (auto dest: suffix_imp_sublist intro: suffix_order.order_trans sublist_order.order_trans)

lemma rx_match_progress:
  "rx_match r n k s c = Some x \<Longrightarrow> \<exists>t c'. k t c' = Some x \<and> progress (s, c) (t, c')"
proof (induction r arbitrary: k s c x)
  case (Cls p)
  then show ?case by (auto simp: progress_def split: list.splits if_splits intro: suffix_ConsI)
next
  case (Seq a b)
  from Seq.prems have "rx_match a n (rx_match b n k) s c = Some x" by simp
  from Seq.IH(1)[OF this] obtain t c' where t: "rx_match b n k t c' = Some x" "progress (s, c) (t, c')"
    by blast
  from Seq.IH(2)[OF t(1)] obtain u d where "k u d = Some x" "progress (t, c') (u, d)" by blast
  with t(2) show ?case using transpD[OF transp_progress] by blast
next
  case (Alt a b)
  then show ?case by (auto split: option.splits)
next
  case (Star a)
  from Star.prems have "star_iter (length s) (rx_match a n) k s c = Some x" by simp
  from star_iter_SomeD[OF this Star.IH reflp_progress transp_progress] show ?case .
next
  case (Grp a)
  let ?k = "\<lambda>t c'. k t (c' @ [take (length s - length t) s])"
  from Grp.prems have "rx_match a n ?k s c = Some x" by simp
  from Grp.IH[OF this] obtain t c' where "?k t c' = Some x" "progress (s, c) (t, c')" by blast
  then show ?case by (intro exI[of _ t] exI[of _ "c' @ [take (length s - length t) s]"])
      (auto simp: progress_def sublist_take)
qed (auto simp: progress_def split: if_splits)

lemma rx_match_SomeD:
  "rx_match r n k s c = Some x \<Longrightarrow> \<exists>t c'. k t c' = Some x \<and> suffix t s"
  using rx_match_progress by (fastforce simp: progress_def)

lemma rx_search_SomeD:
  "rx_search r n s = Some x \<Longrightarrow>
     \<exists>s'. suffix s' s \<and> rx_match r n (\<lambda>t c. Some (t, c)) s' [] = Some x"
proof (induction r n s rule: rx_search.induct)
  case (1 r n s)
  show ?case
  proof (cases "rx_match r n (\<lambda>t c. Some (t, c)) s []")
    case (Some y)
    with "1.prems" show ?thesis by (auto simp: rx_search.simps[of r n s])
  next
    case None
    with "1.prems" obtain a t where s: "s = a # t" and "rx_search r n t = Some x"
      by (auto simp: rx_search.simps[of r n s] split: list.splits)
    with "1.IH"[OF None s] show ?thesis by (auto intro: suffix_ConsI)
  qed
qed

lemma rx_exec_capture_sublist:
  assumes "rx_exec r s = Some caps" and "w \<in> set caps"
  shows "sublist w s"
proof -
  from assms(1) obtain t where "rx_search r (length s) s = Some (t, caps)"
    by (auto simp: rx_exec_def)
  from rx_search_SomeD[OF this] obtain s' where s': "suffix s' s"
    "rx_match r (length s) (\<lambda>t c. Some (t, c)) s' [] = Some (t, caps)" by blast
  from rx_match_progress[OF s'(2)] assms(2) have "sublist w s'" by (auto simp: progress_def)
  with s'(1) show ?thesis by (meson suffix_imp_sublist sublist_order.order_trans)
qed

text \<open>A literal a sequence must pass through occurs in every string the sequence matches.\<close>

lemma rx_seqs_lit_sublist:
  assumes "rx_match (seqs (rs @ lit w # qs)) n k s c = Some x"
  shows "sublist w s"
proof -
  from assms have "rx_match (seqs rs) n (rx_match (seqs (lit w # qs)) n k) s c = Some x"
    by (simp add: rx_seqs_append)
  from rx_match_SomeD[OF this] obtain t c' where
    "rx_match (seqs (lit w # qs)) n k t c' = Some x" and t: "suffix t s" by blast
  then have "prefix w t" by (auto simp: rx_lit split: if_splits)
  with t show ?thesis by (meson prefix_imp_sublist suffix_imp_sublist sublist_order.order_trans)
qed

text \<open>A search that needs a word followed by white space finds it in the subject.\<close>

lemma rx_search_word_ws:
  assumes "rx_search (seqs (lit w # Plus ws # rs)) n s = Some x"
  shows "\<exists>c. is_ws c \<and> sublist (w @ [c]) s"
proof -
  from rx_search_SomeD[OF assms] obtain s' where s': "suffix s' s"
    and m: "rx_match (seqs (lit w # Plus ws # rs)) n (\<lambda>t c. Some (t, c)) s' [] = Some x" by blast
  from m have "prefix w s'" by (auto simp: rx_lit split: if_splits)
  then obtain t where t: "s' = w @ t" by (auto simp: prefix_def)
  with m obtain c u where "t = c # u" "is_ws c"
    by (auto simp: rx_lit Plus_def ws_def split: list.splits if_splits)
  with t have "prefix (w @ [c]) s'" by simp
  with s' have "sublist (w @ [c]) s"
    by (meson prefix_imp_sublist suffix_imp_sublist sublist_order.order_trans)
  with \<open>is_ws c\<close> show ?thesis by blast
qed

lemma rx_Plus_run:
  assumes "w \<noteq> []" "\<forall>x \<in> set w. p x" "t = [] \<or> \<not> p (hd t)" "k t c = Some r"
  shows "rx_match (Plus (Cls p)) n k (w @ t) c = Some r"
proof -
  from assms(1) obtain a v where w: "w = a # v" by (cases w) auto
  with assms show ?thesis by (simp add: Plus_def star_cls_run)
qed

lemma rx_Plus_last:
  assumes "rx_match (Plus (Cls p)) n k s c = Some x"
  shows "\<exists>u a t c'. s = u @ a # t \<and> p a \<and> k t c' = Some x"
proof -
  from assms obtain a v where s: "s = a # v" "p a" and
    it: "star_iter (length v) (rx_match (Cls p) n) k v c = Some x"
    by (auto simp: Plus_def split: list.splits if_splits)
  let ?R = "\<lambda>(s, c::jstr list) (t, c'::jstr list). s = t \<or> (\<exists>u b. s = u @ b # t \<and> p b)"
  have "\<exists>t c'. k t c' = Some x \<and> ?R (v, c) (t, c')"
  proof (rule star_iter_SomeD[OF it, where R = ?R])
    fix k' s' c' r' assume "rx_match (Cls p) n k' s' c' = Some r'"
    then obtain b w where "s' = b # w" "p b" "k' w c' = Some r'" by (auto split: list.splits if_splits)
    then show "\<exists>t c''. k' t c'' = Some r' \<and> ?R (s', c') (t, c'')" by auto
  next
    show "reflp ?R" by (auto simp: reflp_def)
    show "transp ?R" by (auto simp: transp_def)
  qed
  then obtain t c' where "k t c' = Some x" "v = t \<or> (\<exists>u b. v = u @ b # t \<and> p b)" by auto
  with s show ?thesis by (metis append_Cons append_Nil)
qed

subsection \<open>Evaluating the matcher on a known front of the subject\<close>

lemma star_iter_ConsI:
  "star_iter (Suc n) m k (x # s) c =
     (case m (\<lambda>t c'. if length t < length (x # s) then star_iter n m k t c' else None) (x # s) c of
        Some r \<Rightarrow> Some r | None \<Rightarrow> k (x # s) c)"
  by simp

lemma star_cls_stop: "s = [] \<or> \<not> p (hd s) \<Longrightarrow> star_iter f (rx_match (Cls p) n) k s c = k s c"
  by (cases f; cases s) auto

lemma rx_search_Cons:
  "rx_search r n (x # s) = (case rx_match r n (\<lambda>t c. Some (t, c)) (x # s) [] of
     Some y \<Rightarrow> Some y | None \<Rightarrow> rx_search r n s)"
  by (simp add: rx_search.simps[of r n "x # s"] split: option.splits)

end
