(* ===== verification/Sessions.thy ===== *)
theory Sessions
  imports Regex
begin

text \<open>
  \<^verbatim>\<open>site/sessions.mjs\<close>: the session managers the page drives. The command-line templates, the
  whitelist of session names, the recogniser that turns a command line back into a manager and a
  name, and the parsers of the four tools' listings. An entry of \<open>PRESETS\<close> is a constructor of
  \<open>tool\<close> and its fields are functions of it.
\<close>

subsection \<open>Names\<close>

definition name_char :: "nat \<Rightarrow> bool" where
  "name_char c \<longleftrightarrow> 65 \<le> c \<and> c \<le> 90 \<or> 97 \<le> c \<and> c \<le> 122 \<or> 48 \<le> c \<and> c \<le> 57 \<or> c = 95 \<or> c = 45"

text \<open>\<open>/^[A-Za-z0-9_-]{1,32}$/.test(s ?? "")\<close>\<close>

definition validName :: "jstr option \<Rightarrow> bool" where
  "validName s =
     (let v = or_empty s in 1 \<le> length v \<and> length v \<le> 32 \<and> list_all name_char v)"

subsection \<open>The presets\<close>

datatype tool = Dtach | Abduco | Tmux | Screen

record session_row =
  row_name :: jstr
  row_attached :: "bool option"
  row_at :: "rat option"

definition PRESETS :: "tool list" where
  "PRESETS = [Dtach, Abduco, Tmux, Screen]"

fun preset_id :: "tool \<Rightarrow> jstr" where
  "preset_id Dtach = js ''dtach''"
| "preset_id Abduco = js ''abduco''"
| "preset_id Tmux = js ''tmux''"
| "preset_id Screen = js ''screen''"

fun preset_command :: "tool \<Rightarrow> jstr \<Rightarrow> jstr" where
  "preset_command Dtach name =
     js ''mkdir -p \"$HOME/.wosh\" && exec dtach -A \"$HOME/.wosh/'' @ name @
     js ''.dtach\" -r winch \"$SHELL\"''"
| "preset_command Abduco name = js ''exec abduco -A '' @ name @ js '' \"$SHELL\"''"
| "preset_command Tmux name = js ''exec tmux new-session -A -D -s '' @ name"
| "preset_command Screen name = js ''exec screen -D -R -S '' @ name"

fun preset_listCommand :: "tool \<Rightarrow> jstr" where
  "preset_listCommand Dtach = js ''ls -1 \"$HOME/.wosh\" 2>/dev/null || true''"
| "preset_listCommand Abduco = js ''abduco 2>/dev/null || true''"
| "preset_listCommand Tmux =
     js ''tmux ls -F '' @ [39] @ js ''#{session_name}'' @ [92, 116] @ js ''#{session_attached}'' @
     [92, 116] @ js ''#{session_created}'' @ [39] @ js '' 2>/dev/null || true''"
| "preset_listCommand Screen = js ''screen -ls 2>/dev/null || true''"

definition presetById :: "jstr \<Rightarrow> tool option" where
  "presetById i = List.find (\<lambda>p. preset_id p = i) PRESETS"

definition TOOLS :: "jstr list" where
  "TOOLS = map preset_id PRESETS"

definition detectCommand :: jstr where
  "detectCommand =
     js ''for t in dtach abduco tmux screen; do command -v \"$t\" >/dev/null 2>&1 && echo \"$t\"; done; true''"

text \<open>The object of booleans, as the list of its properties in insertion order.\<close>

definition parseDetect :: "jstr option \<Rightarrow> (jstr \<times> bool) list" where
  "parseDetect text =
     (let found = set (map trim (split_on 10 (or_empty text)))
      in map (\<lambda>t. (t, t \<in> found)) TOOLS)"

subsection \<open>Recognising a command line\<close>

definition name_group :: re where
  "name_group = Grp (Plus (Cls name_char))"

text \<open>\<open>\s+([A-Za-z0-9_-]+)\<close> and \<open>-\S+\s+\<close>\<close>

definition name_tail :: re where
  "name_tail = seqs [Plus ws, name_group]"

definition flag :: re where
  "flag = seqs [lit (js ''-''), Plus non_ws, Plus ws]"

definition MATCHERS :: "(tool \<times> re) list" where
  "MATCHERS =
     [(Dtach, seqs [lit (js ''dtach''), Plus ws, lit (js ''-A''), Plus ws, Opt (lit [34]),
                    lit (js ''$HOME/.wosh/''), name_group, lit (js ''.dtach'')]),
      (Abduco, seqs [lit (js ''abduco''), Plus ws, Star flag, lit (js ''-A''), name_tail]),
      (Tmux, seqs [lit (js ''tmux''), Plus ws, lit (js ''new''), Opt (lit (js ''-session'')), Plus ws,
                   Star flag, lit (js ''-s''), name_tail]),
      (Screen, seqs [lit (js ''screen''), Plus ws, Star flag, lit (js ''-S''), name_tail])]"

fun try_matchers :: "(tool \<times> re) list \<Rightarrow> jstr \<Rightarrow> (tool \<times> jstr) option" where
  "try_matchers [] s = None"
| "try_matchers ((p, re) # ms) s =
     (case rx_exec re s of
        Some (m # _) \<Rightarrow> if validName (Some m) then Some (p, m) else try_matchers ms s
      | _ \<Rightarrow> try_matchers ms s)"

definition matchCommand :: "jstr option \<Rightarrow> (tool \<times> jstr) option" where
  "matchCommand command =
     (let s = or_empty command in if trim s = [] then None else try_matchers MATCHERS s)"

subsection \<open>The listings\<close>

text \<open>\<open>lines\<close>: split at newlines, drop one trailing carriage return, keep the non-blank ones.\<close>

definition drop_cr :: "jstr \<Rightarrow> jstr" where
  "drop_cr l = (if l \<noteq> [] \<and> last l = 13 then butlast l else l)"

definition text_lines :: "jstr option \<Rightarrow> jstr list" where
  "text_lines text = filter (\<lambda>l. trim l \<noteq> []) (map drop_cr (split_on 10 (or_empty text)))"

text \<open>
  \<open>Number(s)\<close> of a string, where it is a finite number: the exact value the double is rounded
  from, with the two cases in which rounding decides finiteness or sign made explicit. \<open>None\<close>
  stands for NaN and the infinities.
\<close>

definition is_dec :: "nat \<Rightarrow> bool" where
  "is_dec c \<longleftrightarrow> 48 \<le> c \<and> c \<le> 57"

fun digit_value :: "nat \<Rightarrow> nat" where
  "digit_value c =
     (if is_dec c then c - 48 else if 97 \<le> c \<and> c \<le> 122 then c - 87
      else if 65 \<le> c \<and> c \<le> 90 then c - 55 else 36)"

definition digits_value :: "int \<Rightarrow> jstr \<Rightarrow> int" where
  "digits_value b ds = foldl (\<lambda>v c. b * v + int (digit_value c)) 0 ds"

definition exponent_of :: "jstr \<Rightarrow> int option" where
  "exponent_of s =
     (case s of
        [] \<Rightarrow> Some 0
      | e # t \<Rightarrow>
         if e \<noteq> 101 \<and> e \<noteq> 69 then None
         else (let (sg, ds) = (case t of [] \<Rightarrow> (1, [])
                               | c # u \<Rightarrow> if c = 45 then (- 1, u) else if c = 43 then (1, u) else (1, t))
               in if ds \<noteq> [] \<and> list_all is_dec ds then Some (sg * digits_value 10 ds) else None))"

definition unsigned_decimal :: "jstr \<Rightarrow> rat option" where
  "unsigned_decimal s =
     (let i = takeWhile is_dec s; r = dropWhile is_dec s;
          (f, e) = (case r of [] \<Rightarrow> ([], [])
                    | c # u \<Rightarrow> if c = 46 then (takeWhile is_dec u, dropWhile is_dec u) else ([], r))
      in if i = [] \<and> f = [] then None
         else map_option
           (\<lambda>x. let m = of_int (digits_value 10 (i @ f)); k = x - int (length f)
                in if 0 \<le> k then m * 10 ^ nat k else m / 10 ^ nat (- k))
           (exponent_of e))"

definition radix_literal :: "jstr \<Rightarrow> rat option" where
  "radix_literal s =
     (case s of
        z # x # ds \<Rightarrow>
          (let b = (if x = 120 \<or> x = 88 then 16 else if x = 111 \<or> x = 79 then 8
                    else if x = 98 \<or> x = 66 then 2 else (0::nat))
           in if z = 48 \<and> b \<noteq> 0 \<and> ds \<noteq> [] \<and> list_all (\<lambda>c. digit_value c < b) ds
              then Some (of_int (digits_value (int b) ds)) else None)
      | _ \<Rightarrow> None)"

definition to_double :: "rat \<Rightarrow> rat option" where
  "to_double q =
     (if \<bar>q\<bar> \<ge> 2 ^ 1024 - 2 ^ 970 then None
      else if \<bar>q\<bar> * 2 ^ 1075 \<le> 1 then Some 0 else Some q)"

definition js_Number :: "jstr \<Rightarrow> rat option" where
  "js_Number str =
     (let s = trim str in
      if s = [] then Some 0
      else case radix_literal s of
        Some q \<Rightarrow> to_double q
      | None \<Rightarrow>
         (let (sg, u) = (if hd s = 45 then (- 1, tl s) else if hd s = 43 then (1, tl s) else (1, s))
          in Option.bind (unsigned_decimal u) (\<lambda>q. to_double (sg * q))))"

text \<open>tmux: name, attached count and creation time, tab separated.\<close>

definition tmux_row :: "jstr \<Rightarrow> session_row option" where
  "tmux_row line =
     (let f = split_on 9 line; name = trim (hd f) in
      if name = [] \<or> length f < 2 then None
      else if \<not> validName (Some name) then None
      else
        (let created = (if length f < 3 then None else js_Number (f ! 2)) in
         Some \<lparr>row_name = name, row_attached = Some (trim (f ! 1) \<noteq> js ''0''),
               row_at = (case created of
                  Some c \<Rightarrow> if c > 0 then Some (c * 1000) else None | None \<Rightarrow> None)\<rparr>))"

definition parseTmuxList :: "jstr option \<Rightarrow> session_row list" where
  "parseTmuxList text = List.map_filter tmux_row (text_lines text)"

text \<open>\<open>s.split(/\s+/)\<close> of a trimmed, non-empty line: its last piece.\<close>

definition last_token :: "jstr \<Rightarrow> jstr" where
  "last_token s = rev (takeWhile (\<lambda>c. \<not> is_ws c) (rev s))"

definition abduco_row :: "jstr \<Rightarrow> session_row option" where
  "abduco_row line =
     (let name = last_token (trim line) in
      if name = [] \<or> \<not> validName (Some name) then None
      else Some \<lparr>row_name = name, row_attached = Some (starts_with (js ''*'') (trim_start line)),
                 row_at = None\<rparr>)"

definition parseAbducoList :: "jstr option \<Rightarrow> session_row list" where
  "parseAbducoList text = List.map_filter abduco_row (drop 1 (text_lines text))"

definition dtach_re :: re where
  "dtach_re = seqs [Bol, Grp (Star any_char), lit (js ''.dtach''), Eol]"

definition dtach_row :: "jstr \<Rightarrow> session_row option" where
  "dtach_row line =
     (case rx_exec dtach_re (trim line) of
        Some (m # _) \<Rightarrow>
          if validName (Some m)
          then Some \<lparr>row_name = m, row_attached = None, row_at = None\<rparr> else None
      | _ \<Rightarrow> None)"

definition parseDtachList :: "jstr option \<Rightarrow> session_row list" where
  "parseDtachList text = List.map_filter dtach_row (text_lines text)"

definition screen_pid_re :: re where
  "screen_pid_re = seqs [Alt Bol ws, Plus digit, lit (js ''.''), Grp (Plus non_ws)]"

definition screen_state_re :: re where
  "screen_state_re =
     seqs [lit (js ''(''),
           Grp (Alt (lit_i (js ''Attached'')) (Alt (lit_i (js ''Detached''))
               (Alt (seqs [lit_i (js ''Multi,''), Star ws, lit_i (js ''attached'')])
                    (seqs [lit_i (js ''Multi,''), Star ws, lit_i (js ''detached'')])))),
           lit (js '')'')]"

definition screen_row :: "jstr \<Rightarrow> session_row option" where
  "screen_row line =
     (case rx_exec screen_pid_re line of
        Some (name # _) \<Rightarrow>
         (let states = rx_match_all screen_state_re line in
          if states = [] then None
          else (let state = map ascii_lower (hd (last states)) in
            if \<not> validName (Some name) then None
            else Some \<lparr>row_name = name, row_attached = Some (str_includes (js ''attached'') state),
                       row_at = None\<rparr>))
      | _ \<Rightarrow> None)"

definition parseScreenList :: "jstr option \<Rightarrow> session_row list" where
  "parseScreenList text = List.map_filter screen_row (text_lines text)"

fun preset_parseList :: "tool \<Rightarrow> jstr option \<Rightarrow> session_row list" where
  "preset_parseList Dtach text = parseDtachList text"
| "preset_parseList Abduco text = parseAbducoList text"
| "preset_parseList Tmux text = parseTmuxList text"
| "preset_parseList Screen text = parseScreenList text"

subsection \<open>Recognising what the page itself writes\<close>

lemma name_char_not_ws: "name_char c \<Longrightarrow> \<not> is_ws c"
  by (auto simp: name_char_def is_ws_def)

lemma rx_name_group:
  assumes "name \<noteq> []" "list_all name_char name" "t = [] \<or> \<not> name_char (hd t)"
    and "k t (c @ [name]) = Some r"
  shows "rx_match name_group n k (name @ t) c = Some r"
  unfolding name_group_def
  by (simp add: rx_Plus_run assms list_all_iff[THEN iffD1, OF assms(2)])

text \<open>No name starts right after white space in \<open>s\<close>: where \<open>\s+([A-Za-z0-9_-]+)\<close> cannot match.\<close>

definition no_pair :: "jstr \<Rightarrow> bool" where
  "no_pair s \<longleftrightarrow> (\<forall>c d. is_ws c \<longrightarrow> name_char d \<longrightarrow> \<not> sublist [c, d] s)"

lemma name_tail_pair:
  assumes "rx_match name_tail n k s c = Some x"
  shows "\<not> no_pair s"
proof -
  from assms have "rx_match (Plus (Cls is_ws)) n (rx_match name_group n k) s c = Some x"
    by (simp add: name_tail_def ws_def)
  from rx_Plus_last[OF this] obtain u a t c' where
    s: "s = u @ a # t" "is_ws a" and g: "rx_match name_group n k t c' = Some x" by blast
  then obtain d v where "t = d # v" "name_char d"
    by (auto simp: name_group_def Plus_def split: list.splits if_splits)
  with s have "sublist [a, d] s" by (metis append_Cons append_Nil sublist_appendI)
  with \<open>is_ws a\<close> \<open>name_char d\<close> show ?thesis by (auto simp: no_pair_def)
qed

lemma no_pair_suffix: "no_pair s \<Longrightarrow> suffix t s \<Longrightarrow> no_pair t"
  by (meson no_pair_def suffix_imp_sublist sublist_order.order_trans)

lemma star_flag_None:
  assumes "no_pair s"
  shows "star_iter f (rx_match flag n) (rx_match (lit w) n (rx_match name_tail n k)) s c = None"
proof (rule ccontr)
  assume "\<not> ?thesis"
  then obtain x where hit: "star_iter f (rx_match flag n) (rx_match (lit w) n (rx_match name_tail n k)) s c = Some x"
    by auto
  obtain t c' where t: "rx_match (lit w) n (rx_match name_tail n k) t c' = Some x" "suffix t s"
    using star_iter_SomeD[where R = progress, OF hit _ reflp_progress transp_progress] rx_match_progress
    by (fastforce simp: progress_def)
  from rx_match_SomeD[OF t(1)] obtain u c'' where "rx_match name_tail n k u c'' = Some x" "suffix u t"
    by blast
  with t assms show False by (meson name_tail_pair no_pair_suffix)
qed

lemma rx_flag_Cons:
  "rx_match flag n k (x # s) c = (if x = 45 then rx_match (Plus non_ws) n (rx_match (Plus ws) n k) s c else None)"
  by (simp add: flag_def fun_eq_iff cong: if_cong)

lemma name_tail_run:
  assumes "name \<noteq> []" "list_all name_char name" "t = [] \<or> \<not> name_char (hd t)"
    and "k t (c @ [name]) = Some r"
  shows "rx_match name_tail n k (32 # name @ t) c = Some r"
proof -
  have "\<not> is_ws (hd (name @ t))"
    using assms(1,2) by (cases name) (auto simp: name_char_not_ws)
  then show ?thesis
    by (simp add: name_tail_def Plus_def ws_def star_cls_stop rx_name_group[OF assms(1-3)] assms(4))
qed

lemma no_pair_name: "list_all name_char s \<Longrightarrow> no_pair s"
  by (auto simp: no_pair_def list_all_iff dest!: set_mono_sublist name_char_not_ws)

lemma no_pair_name_app:
  assumes "list_all name_char s" "no_pair t" "t \<noteq> []" "\<not> (name_char (hd t))"
  shows "no_pair (s @ t)"
  unfolding no_pair_def
proof (intro allI impI notI)
  fix c d assume cd: "is_ws c" "name_char d" "sublist [c, d] (s @ t)"
  have "c \<notin> set s" using assms(1) cd(1) by (auto simp: list_all_iff dest: name_char_not_ws)
  moreover have "\<not> sublist [c, d] t" using assms(2) cd by (auto simp: no_pair_def)
  moreover have "\<not> sublist [c, d] s" using \<open>c \<notin> set s\<close> set_mono_sublist by fastforce
  ultimately obtain a b where ab: "[c, d] = a @ b" "suffix a s" "prefix b t"
    using cd(3) by (auto simp: sublist_append)
  from ab(1) have "a = [] \<or> c \<in> set a" by (cases a) auto
  with ab \<open>c \<notin> set s\<close> have "a = []" using set_mono_suffix by blast
  with ab have "prefix [c, d] t" by simp
  with \<open>\<not> sublist [c, d] t\<close> show False by (simp add: prefix_imp_sublist)
qed

lemmas rx_eval = rx_search_Cons rx_lit rx_flag_Cons Plus_def Opt_def non_ws_def ws_def
  star_iter_ConsI star_cls_stop star_flag_None

lemma search_tmux:
  assumes "name \<noteq> []" "list_all name_char name"
  shows "rx_search (seqs [lit (js ''tmux''), Plus ws, lit (js ''new''), Opt (lit (js ''-session'')), Plus ws,
                   Star flag, lit (js ''-s''), name_tail]) N (preset_command Tmux name) = Some ([], [name])"
proof -
  note star_iter.simps [simp del] lit.simps [simp del]
  have "\<not> is_ws (hd name)" using assms by (cases name) (auto simp: name_char_not_ws)
  with name_tail_run[OF assms, where t = "[]" and k = "\<lambda>t c. Some (t, c)" and c = "[]" and n = N, OF _ refl] no_pair_name[OF assms(2)] show ?thesis
    by (simp add: rx_eval)
qed

lemma search_screen:
  assumes "name \<noteq> []" "list_all name_char name"
  shows "rx_search (seqs [lit (js ''screen''), Plus ws, Star flag, lit (js ''-S''), name_tail]) N
           (preset_command Screen name) = Some ([], [name])"
proof -
  note star_iter.simps [simp del] lit.simps [simp del]
  have "\<not> is_ws (hd name)" using assms by (cases name) (auto simp: name_char_not_ws)
  with name_tail_run[OF assms, where t = "[]" and k = "\<lambda>t c. Some (t, c)" and c = "[]" and n = N, OF _ refl] no_pair_name[OF assms(2)] show ?thesis
    by (simp add: rx_eval)
qed

lemma search_abduco:
  assumes "name \<noteq> []" "list_all name_char name"
  shows "rx_search (seqs [lit (js ''abduco''), Plus ws, Star flag, lit (js ''-A''), name_tail]) N
           (preset_command Abduco name) = Some (js '' \"$SHELL\"'', [name])"
proof -
  note star_iter.simps [simp del] lit.simps [simp del]
  let ?t = "js '' \"$SHELL\"''"
  have "no_pair ?t"
    by (auto simp: no_pair_def sublist_Cons_right prefix_Cons is_ws_def name_char_def)
  then have "no_pair (name @ ?t)"
    by (rule no_pair_name_app[OF assms(2)]) (simp_all add: name_char_def)
  moreover have "\<not> is_ws (hd (name @ ?t))" using assms by (cases name) (auto simp: name_char_not_ws)
  ultimately show ?thesis using name_tail_run[OF assms, where t = ?t and k = "\<lambda>t c. Some (t, c)" and c = "[]" and n = N, OF _ refl] assms(1)
    by (simp add: rx_eval name_char_def)
qed

lemma search_dtach:
  assumes "name \<noteq> []" "list_all name_char name"
  shows "rx_search (seqs [lit (js ''dtach''), Plus ws, lit (js ''-A''), Plus ws, Opt (lit [34]),
                    lit (js ''$HOME/.wosh/''), name_group, lit (js ''.dtach'')]) N
           (preset_command Dtach name) = Some (js ''\" -r winch \"$SHELL\"'', [name])"
proof -
  note star_iter.simps [simp del] lit.simps [simp del]
  show ?thesis
    using rx_name_group[OF assms, where t = "js ''.dtach\" -r winch \"$SHELL\"''"
        and k = "rx_match (lit (js ''.dtach'')) N (\<lambda>t c. Some (t, c))" and c = "[]" and n = N]
    by (simp add: rx_eval name_char_def)
qed


lemma dtach_re_None:
  assumes "47 \<notin> set s"
  shows "rx_search (seqs [lit (js ''dtach''), Plus ws, lit (js ''-A''), Plus ws, Opt (lit [34]),
                    lit (js ''$HOME/.wosh/''), name_group, lit (js ''.dtach'')]) N s = None"
proof (rule ccontr)
  let ?rs = "[lit (js ''dtach''), Plus ws, lit (js ''-A''), Plus ws, Opt (lit [34])]"
  let ?qs = "[name_group, lit (js ''.dtach'')]"
  assume "\<not> ?thesis"
  then obtain x where "rx_search (seqs (?rs @ lit (js ''$HOME/.wosh/'') # ?qs)) N s = Some x"
    by auto
  from rx_search_SomeD[OF this] obtain s' where "suffix s' s"
    and "rx_match (seqs (?rs @ lit (js ''$HOME/.wosh/'') # ?qs)) N (\<lambda>t c. Some (t, c)) s' [] = Some x"
    by blast
  from rx_seqs_lit_sublist[OF this(2)] this(1) have "sublist (js ''$HOME/.wosh/'') s"
    by (meson suffix_imp_sublist sublist_order.order_trans)
  from set_mono_sublist[OF this] assms show False by simp
qed

text \<open>A word followed by white space cannot start in, or reach into, a final name.\<close>

lemma word_ws_None:
  assumes "list_all name_char name" and "\<And>c. is_ws c \<Longrightarrow> \<not> sublist (w @ [c]) p"
  shows "rx_search (seqs (lit w # Plus ws # rs)) N (p @ name) = None"
proof (rule ccontr)
  assume "\<not> ?thesis"
  then obtain x where "rx_search (seqs (lit w # Plus ws # rs)) N (p @ name) = Some x" by auto
  from rx_search_word_ws[OF this] obtain c where c: "is_ws c" "sublist (w @ [c]) (p @ name)" by blast
  have "c \<notin> set name" using assms(1) c(1) by (auto simp: list_all_iff dest: name_char_not_ws)
  then have "\<not> sublist (w @ [c]) name" using set_mono_sublist by fastforce
  with c assms(2) obtain a b where ab: "w @ [c] = a @ b" "suffix a p" "prefix b name"
    by (auto simp: sublist_append)
  have "b = []"
  proof (rule ccontr)
    assume "b \<noteq> []"
    then have "last b = c" using ab(1) by (metis last_append last_snoc)
    with \<open>b \<noteq> []\<close> ab(3) \<open>c \<notin> set name\<close> show False by (metis last_in_set set_mono_prefix subsetD)
  qed
  with ab have "sublist (w @ [c]) p" by (auto intro: suffix_imp_sublist)
  with assms(2) c(1) show False by blast
qed

lemma try_step:
  "rx_search re (length s) s = None \<Longrightarrow> try_matchers ((p, re) # ms) s = try_matchers ms s"
  "rx_search re (length s) s = Some (t, [name]) \<Longrightarrow> validName (Some name) \<Longrightarrow>
     try_matchers ((p, re) # ms) s = Some (p, name)"
  by (simp_all add: rx_exec_def)

lemma no_word:
  assumes "list_all name_char name"
  shows "rx_search (seqs (lit (js ''abduco'') # Plus ws # rs)) N (preset_command Tmux name) = None"
    and "rx_search (seqs (lit (js ''abduco'') # Plus ws # rs)) N (preset_command Screen name) = None"
    and "rx_search (seqs (lit (js ''tmux'') # Plus ws # rs)) N (preset_command Screen name) = None"
  unfolding preset_command.simps
  by (rule word_ws_None[OF assms], simp add: sublist_Cons_right prefix_Cons)+

lemma command_not_blank: "trim (preset_command p name) \<noteq> []"
proof -
  have "101 \<in> set (preset_command p name)" by (cases p) simp_all
  then show ?thesis unfolding trim_eq_Nil by (intro notI) (drule (1) bspec, simp)
qed

lemma matchCommand_of_command:
  assumes "validName (Some name)"
  shows "matchCommand (Some (preset_command p name)) = Some (p, name)"
proof -
  from assms have n: "name \<noteq> []" "list_all name_char name" by (auto simp: validName_def)
  then have 47: "47 \<notin> set name" by (auto simp: list_all_iff name_char_def)
  have "try_matchers MATCHERS (preset_command p name) = Some (p, name)"
  proof (cases p)
    case Dtach
    show ?thesis unfolding MATCHERS_def Dtach
      by (rule try_step(2)[OF search_dtach[OF n] assms])
  next
    case Abduco
    have "47 \<notin> set (preset_command Abduco name)" using 47 by simp
    from try_step(1)[OF dtach_re_None[OF this]] show ?thesis
      unfolding MATCHERS_def Abduco by (simp only: try_step(2)[OF search_abduco[OF n] assms])
  next
    case Tmux
    have "47 \<notin> set (preset_command Tmux name)" using 47 by simp
    from try_step(1)[OF dtach_re_None[OF this]] show ?thesis
      unfolding MATCHERS_def Tmux
      by (simp only: try_step(1)[OF no_word(1)[OF n(2)]] try_step(2)[OF search_tmux[OF n] assms])
  next
    case Screen
    have "47 \<notin> set (preset_command Screen name)" using 47 by simp
    from try_step(1)[OF dtach_re_None[OF this]] show ?thesis
      unfolding MATCHERS_def Screen
      by (simp only: try_step(1)[OF no_word(2)[OF n(2)]] try_step(1)[OF no_word(3)[OF n(2)]]
          try_step(2)[OF search_screen[OF n] assms])
  qed
  then show ?thesis by (simp only: matchCommand_def or_empty_simps Let_def command_not_blank if_False)
qed

subsection \<open>What the listings give\<close>

lemma parsed_rows_valid: "list_all (\<lambda>r. validName (Some (row_name r))) (preset_parseList p text)"
proof -
  have m: "list_all P (List.map_filter f xs)" if "\<And>x y. f x = Some y \<Longrightarrow> P y" for P f and xs :: "jstr list"
    using that by (auto simp: list_all_iff List.map_filter_def)
  show ?thesis
    by (cases p)
      (auto simp: parseTmuxList_def parseAbducoList_def parseDtachList_def parseScreenList_def Let_def
        tmux_row_def abduco_row_def dtach_row_def screen_row_def 
        split: if_splits option.splits list.splits intro!: m)
qed

text \<open>What tmux prints for the format of \<open>preset_listCommand Tmux\<close>: one line per session, with the
  number of clients and the creation time in decimal digits.\<close>

definition tmux_line :: "jstr \<times> jstr \<times> jstr \<Rightarrow> jstr" where
  "tmux_line = (\<lambda>(name, n, a). name @ 9 # n @ 9 # a)"

definition tmux_listing :: "(jstr \<times> jstr \<times> jstr) list \<Rightarrow> jstr" where
  "tmux_listing rs = concat (map (\<lambda>r. tmux_line r @ [10]) rs)"

definition decimal :: "jstr \<Rightarrow> bool" where
  "decimal s \<longleftrightarrow> s \<noteq> [] \<and> length s \<le> 300 \<and> list_all is_dec s"

definition tmux_expected :: "jstr \<times> jstr \<times> jstr \<Rightarrow> session_row" where
  "tmux_expected = (\<lambda>(name, n, a).
     \<lparr>row_name = name, row_attached = Some (n \<noteq> js ''0''),
      row_at = (if digits_value 10 a = 0 then None else Some (of_int (digits_value 10 a) * 1000))\<rparr>)"

lemma digits_value_snoc [simp]: "digits_value b (s @ [c]) = b * digits_value b s + int (digit_value c)"
  by (simp add: digits_value_def)

lemma digits_value_Nil [simp]: "digits_value b [] = 0"
  by (simp add: digits_value_def)

lemma digits_value_bound:
  "list_all is_dec s \<Longrightarrow> 0 \<le> digits_value 10 s \<and> digits_value 10 s < 10 ^ length s"
  by (induction s rule: rev_induct) (auto simp: is_dec_def)

lemma is_dec_not_ws: "is_dec c \<Longrightarrow> \<not> is_ws c"
  by (auto simp: is_dec_def is_ws_def)

lemma js_Number_decimal:
  assumes "decimal s"
  shows "js_Number s = Some (of_int (digits_value 10 s))"
proof -
  from assms have s: "s \<noteq> []" "list_all is_dec s" "length s \<le> 300" by (auto simp: decimal_def)
  then have t: "trim s = s" by (intro trim_no_ws) (auto simp: list_all_iff is_dec_not_ws)
  have hd: "is_dec (hd s)" using s by (cases s) auto
  have "radix_literal s = None"
    using s by (auto simp: radix_literal_def Let_def is_dec_def split: list.splits)
  moreover have "unsigned_decimal s = Some (of_int (digits_value 10 s))"
  proof -
    have "takeWhile is_dec s = s" "dropWhile is_dec s = []" using s(2) by (auto simp: list_all_iff)
    note run = this
    show ?thesis using s(1) by (simp add: unsigned_decimal_def exponent_of_def run)
  qed
  moreover have "to_double (of_int (digits_value 10 s)) = Some (of_int (digits_value 10 s))"
  proof -
    let ?v = "digits_value 10 s"
    have b: "0 \<le> ?v" "?v < 10 ^ length s" using digits_value_bound[OF s(2)] by auto
    have "(10::int) ^ length s \<le> 10 ^ 300" using s(3) by (intro power_increasing) auto
    with b have "?v < 10 ^ 300" by linarith
    moreover have "(10::int) ^ 300 < 2 ^ 1024 - 2 ^ 970" by simp
    ultimately have "?v < 2 ^ 1024 - 2 ^ 970" by linarith
    then have "(of_int ?v :: rat) < of_int (2 ^ 1024 - 2 ^ 970)" by (simp only: of_int_less_iff)
    then have up: "(of_int ?v :: rat) < 2 ^ 1024 - 2 ^ 970" by simp
    have "?v = 0 \<or> 1 \<le> ?v" using b(1) by linarith
    then have "(of_int ?v :: rat) = 0 \<or> 1 \<le> (of_int ?v :: rat)" by auto
    moreover have "\<not> (of_int ?v :: rat) * 2 ^ 1075 \<le> 1" if "1 \<le> (of_int ?v :: rat)"
    proof -
      have "1 * 2 ^ 1075 \<le> (of_int ?v :: rat) * 2 ^ 1075" using that by (intro mult_right_mono) auto
      moreover have "(1::rat) < 1 * 2 ^ 1075" by simp
      ultimately show ?thesis by linarith
    qed
    ultimately show ?thesis using up b(1) by (auto simp: to_double_def)
  qed
  moreover have "hd s \<noteq> 45" "hd s \<noteq> 43" using hd by (auto simp: is_dec_def)
  ultimately show ?thesis using s t by (simp add: js_Number_def)
qed

lemma name_char_no_sep: "list_all name_char s \<Longrightarrow> 9 \<notin> set s \<and> 10 \<notin> set s \<and> 13 \<notin> set s"
  by (auto simp: list_all_iff name_char_def)

lemma decimal_no_sep: "decimal s \<Longrightarrow> 9 \<notin> set s \<and> 10 \<notin> set s \<and> 13 \<notin> set s"
  by (auto simp: decimal_def list_all_iff is_dec_def)

lemma trim_decimal: "decimal s \<Longrightarrow> trim s = s"
  by (intro trim_no_ws) (auto simp: decimal_def list_all_iff is_dec_not_ws)

lemma trim_name: "validName (Some s) \<Longrightarrow> trim s = s"
  by (intro trim_no_ws) (auto simp: validName_def list_all_iff name_char_not_ws)

definition tmux_entry_ok :: "jstr \<times> jstr \<times> jstr \<Rightarrow> bool" where
  "tmux_entry_ok = (\<lambda>(name, n, a). validName (Some name) \<and> decimal n \<and> decimal a)"

lemma tmux_row_line: "tmux_entry_ok r \<Longrightarrow> tmux_row (tmux_line r) = Some (tmux_expected r)"
proof -
  assume ok: "tmux_entry_ok r"
  obtain name n a where r: "r = (name, n, a)" by (cases r)
  with ok have v: "validName (Some name)" "decimal n" "decimal a" by (auto simp: tmux_entry_ok_def)
  then have "list_all name_char name" "name \<noteq> []" by (auto simp: validName_def)
  then have sp: "split_on 9 (tmux_line r) = [name, n, a]"
    using name_char_no_sep decimal_no_sep v by (simp add: r tmux_line_def split_on_append split_on_no_sep)
  have "0 \<le> digits_value 10 a" using digits_value_bound v(3) by (simp add: decimal_def)
  then show ?thesis using v \<open>name \<noteq> []\<close>
    unfolding tmux_row_def Let_def sp
    by (simp add: r tmux_expected_def trim_name trim_decimal js_Number_decimal)
qed

lemma tmux_line_plain:
  assumes "tmux_entry_ok r"
  shows "10 \<notin> set (tmux_line r)" "drop_cr (tmux_line r) = tmux_line r" "trim (tmux_line r) \<noteq> []"
proof -
  obtain name n a where r: "r = (name, n, a)" by (cases r)
  with assms have v: "validName (Some name)" "decimal n" "decimal a" by (auto simp: tmux_entry_ok_def)
  then have nm: "list_all name_char name" "name \<noteq> []" by (auto simp: validName_def)
  show "10 \<notin> set (tmux_line r)"
    using name_char_no_sep[OF nm(1)] decimal_no_sep v by (auto simp: r tmux_line_def)
  have "last (tmux_line r) = last a" using v(3) by (simp add: r tmux_line_def decimal_def)
  moreover have "last a \<in> set a" using v(3) by (simp add: decimal_def)
  ultimately show "drop_cr (tmux_line r) = tmux_line r"
    using decimal_no_sep[OF v(3)] by (auto simp: drop_cr_def)
  have "hd name \<in> set (tmux_line r)" "\<not> is_ws (hd name)"
    using nm by (cases name; auto simp: r tmux_line_def name_char_not_ws)+
  then show "trim (tmux_line r) \<noteq> []" by (auto simp: trim_eq_Nil)
qed

lemma text_lines_tmux_listing:
  "list_all tmux_entry_ok rs \<Longrightarrow> text_lines (Some (tmux_listing rs)) = map tmux_line rs"
proof (induction rs)
  case Nil
  show ?case by (simp add: text_lines_def tmux_listing_def drop_cr_def)
next
  case (Cons r rs)
  then show ?case
    by (simp add: text_lines_def tmux_listing_def split_on_append tmux_line_plain)
qed

lemma parse_tmux_listing:
  "list_all tmux_entry_ok rs \<Longrightarrow>
     preset_parseList Tmux (Some (tmux_listing rs)) = map tmux_expected rs"
proof -
  assume ok: "list_all tmux_entry_ok rs"
  have "List.map_filter tmux_row (map tmux_line rs) = map tmux_expected rs"
    using ok by (induction rs) (auto simp: List.map_filter_def tmux_row_line)
  with ok show ?thesis by (simp add: parseTmuxList_def text_lines_tmux_listing)
qed

text \<open>Reopening. A command line the page wrote for a session manager and a whitelisted name is
  recognised by \<open>matchCommand\<close> as exactly that manager and that name, for all four managers.\<close>

theorem matchCommand_command:
  "validName (Some name) \<Longrightarrow> matchCommand (Some (preset_command p name)) = Some (p, name)"
  by (rule matchCommand_of_command)

lemma matchCommand_command_witness:
  "matchCommand (Some (preset_command Tmux (js ''main''))) = Some (Tmux, js ''main'')"
  by (rule matchCommand_command) (simp add: validName_def name_char_def)

text \<open>Attaching from a listing is safe. Whatever text a tool printed, every session the page
  lists from it has a name for which the attach command of every manager is one the page recognises
  as that manager with that name: no listed name can smuggle shell syntax into a command line.\<close>

theorem listed_rows_attach:
  "list_all (\<lambda>r. matchCommand (Some (preset_command q (row_name r))) = Some (q, row_name r))
     (preset_parseList p text)"
  using parsed_rows_valid[of p "text"] by (auto simp: list_all_iff intro: matchCommand_of_command)

text \<open>The listing of tmux, printed in the format the page asks for, is read back completely: one
  row per session, in order, with its name, whether a client is attached, and its creation time in
  milliseconds.\<close>

theorem tmux_listing_read_back:
  "list_all tmux_entry_ok rs \<Longrightarrow>
     preset_parseList Tmux (Some (tmux_listing rs)) = map tmux_expected rs"
  by (rule parse_tmux_listing)

lemma tmux_listing_read_back_witness:
  "preset_parseList Tmux (Some (tmux_listing [(js ''main'', js ''0'', js ''1700000000'')])) =
     [\<lparr>row_name = js ''main'', row_attached = Some False, row_at = Some 1700000000000\<rparr>]"
proof -
  have "list_all tmux_entry_ok [(js ''main'', js ''0'', js ''1700000000'')]"
    by (simp add: tmux_entry_ok_def validName_def name_char_def decimal_def is_dec_def)
  from tmux_listing_read_back[OF this] show ?thesis
    by (simp add: tmux_expected_def digits_value_def is_dec_def)
qed

end
