(* ===== verification/AuthorizedKeys.thy ===== *)
theory AuthorizedKeys
  imports Prelude
begin

text \<open>
  \<^verbatim>\<open>site/authorized-keys.mjs\<close>: the shell command that installs a public key on the connected
  machine, and the cleaning of the comment the user types for it; with the part of
  \<^verbatim>\<open>site/boot.mjs\<close> (\<open>installBtn\<close>) that puts the two together and reads the answer.
\<close>

subsection \<open>The code\<close>

text \<open>A maximal run of characters in \<open>p\<close> becomes one \<open>r\<close>: \<open>replace(/[p]+/g, r)\<close>.\<close>

function squash :: "(nat \<Rightarrow> bool) \<Rightarrow> nat \<Rightarrow> jstr \<Rightarrow> jstr" where
  "squash p r [] = []"
| "squash p r (x # xs) = (if p x then r # squash p r (dropWhile p xs) else x # squash p r xs)"
  by pat_completeness auto
termination
  by (relation "measure (\<lambda>(_, _, s). length s)") (auto simp: le_imp_less_Suc length_dropWhile_le)

definition word_char :: "nat \<Rightarrow> bool" where
  "word_char c \<longleftrightarrow> 65 \<le> c \<and> c \<le> 90 \<or> 97 \<le> c \<and> c \<le> 122 \<or> 48 \<le> c \<and> c \<le> 57 \<or> c = 95"

text \<open>\<open>[\w.@+ -]\<close>\<close>

definition comment_char :: "nat \<Rightarrow> bool" where
  "comment_char c \<longleftrightarrow> word_char c \<or> c \<in> set (js ''.@+ -'')"

text \<open>\<open>[-\s]\<close>\<close>

definition edge_char :: "nat \<Rightarrow> bool" where
  "edge_char c \<longleftrightarrow> c = 45 \<or> is_ws c"

definition strip_end :: "jstr \<Rightarrow> jstr" where
  "strip_end s = rev (dropWhile edge_char (rev s))"

definition cleanComment :: "jstr option \<Rightarrow> jstr" where
  "cleanComment s =
     (let s1 = squash (\<lambda>c. \<not> comment_char c) 45 (or_empty s);
          s2 = squash is_ws 32 s1;
          s3 = strip_end (dropWhile edge_char s2)
      in strip_end (take 64 s3))"

text \<open>\<open>a ?? ""\<close> on an index that may be out of range\<close>

definition nth_or_empty :: "jstr list \<Rightarrow> nat \<Rightarrow> jstr" where
  "nth_or_empty xs i = (if i < length xs then xs ! i else [])"

primrec join :: "jstr \<Rightarrow> jstr list \<Rightarrow> jstr" where
  "join sep [] = []"
| "join sep (x # xs) = (if xs = [] then x else x @ sep @ join sep xs)"

definition install_parts :: "jstr \<Rightarrow> jstr list" where
  "install_parts line =
     (let blob = nth_or_empty (split_ws line) 1 in
      [js ''cd || exit 1'',
       js ''umask 077'',
       js ''mkdir -p .ssh || exit 1'',
       js ''if grep -qsF '' @ [39] @ blob @ [39] @
         js '' .ssh/authorized_keys; then echo WOSH_ALREADY; exit 0; fi'',
       js ''{ [ -z \"$(tail -1c .ssh/authorized_keys 2>/dev/null)\" ] || echo >> .ssh/authorized_keys; } || exit 1'',
       js ''printf '' @ [39] @ js ''%s'' @ [92, 110] @ [39] @ js '' '' @ [39] @ line @ [39] @
         js '' >> .ssh/authorized_keys || exit 1'',
       js ''if command -v restorecon >/dev/null 2>&1; then restorecon -F .ssh .ssh/authorized_keys 2>/dev/null; fi'',
       js ''echo WOSH_ADDED''])"

definition installCommand :: "jstr \<Rightarrow> jstr" where
  "installCommand line = join (js ''; '') (install_parts line)"

text \<open>\<open>installBtn\<close>: the command sent for the key line on offer and the comment typed. An array
  element that is missing prints as \<open>undefined\<close> in a template.\<close>

definition nth_printed :: "jstr list \<Rightarrow> nat \<Rightarrow> jstr" where
  "nth_printed xs i = (if i < length xs then xs ! i else js ''undefined'')"

definition default_comment :: "jstr \<Rightarrow> jstr" where
  "default_comment line =
     (let d = join (js '' '') (drop 2 (split_ws line)) in if d = [] then js ''wosh'' else d)"

definition chosen_comment :: "jstr \<Rightarrow> jstr \<Rightarrow> jstr" where
  "chosen_comment line field =
     (let c = cleanComment (Some field) in if c = [] then default_comment line else c)"

definition install_request :: "jstr \<Rightarrow> jstr \<Rightarrow> jstr" where
  "install_request line field =
     (let w = split_ws line in
      installCommand (nth_printed w 0 @ js '' '' @ nth_printed w 1 @ js '' '' @ chosen_comment line field))"

text \<open>What the status line says, from the answer of the machine: its output and exit code, or
  nothing when there was no second channel.\<close>

datatype install_outcome = NoChannel | Installed | AlreadyThere | InstallFailed "int option" jstr

definition remote_words :: "jstr \<Rightarrow> jstr" where
  "remote_words text = (let ls = split_on 10 (trim text) in take 200 (join (js '' '') (drop (length ls - 2) ls)))"

definition install_outcome_of :: "(jstr \<times> int option) option \<Rightarrow> install_outcome" where
  "install_outcome_of result =
     (case result of
        None \<Rightarrow> NoChannel
      | Some (text, code) \<Rightarrow>
         if str_includes (js ''WOSH_ADDED'') text then Installed
         else if str_includes (js ''WOSH_ALREADY'') text then AlreadyThere
         else InstallFailed code (remote_words text))"

subsection \<open>The comment\<close>

lemma squash_chars: "c \<in> set (squash p r s) \<Longrightarrow> c = r \<or> c \<in> set s \<and> \<not> p c"
  by (induction p r s rule: squash.induct) (auto split: if_splits dest: set_dropWhileD)

lemma hd_dropWhile_not: "dropWhile p s = [] \<or> \<not> p (hd (dropWhile p s))"
  using hd_dropWhile[of p s] by blast

text \<open>No two characters of \<open>p\<close> stand next to each other in the result, when \<open>r\<close> is one of them.\<close>

lemma squash_successively: "p r \<Longrightarrow> successively (\<lambda>a b. \<not> (p a \<and> p b)) (squash p r s)"
proof (induction p r s rule: squash.induct)
  case (2 p r x xs)
  have "squash p r (dropWhile p xs) = [] \<or> \<not> p (hd (squash p r (dropWhile p xs)))"
    using hd_dropWhile_not[of p xs] by (cases "dropWhile p xs") (simp_all del: dropWhile_eq_Nil_conv)
  with 2 show ?case by (auto simp: successively_Cons)
qed simp

lemma squash_id:
  "(\<forall>c \<in> set s. p c \<longrightarrow> c = r) \<Longrightarrow> successively (\<lambda>a b. \<not> (p a \<and> p b)) s \<Longrightarrow> squash p r s = s"
proof (induction s)
  case (Cons x s)
  then have "squash p r s = s" by (cases s) auto
  moreover have "p x \<Longrightarrow> dropWhile p s = s" using Cons.prems by (cases s) auto
  ultimately show ?case using Cons.prems by auto
qed simp

lemma successively_sublist: "sublist t s \<Longrightarrow> successively P s \<Longrightarrow> successively P t"
  by (auto simp: sublist_def successively_append_iff)

lemma prefix_strip_end: "prefix (strip_end s) s"
proof -
  have "suffix (dropWhile edge_char (rev s)) (rev s)" by (rule suffix_dropWhile)
  then show ?thesis by (simp add: strip_end_def suffix_to_prefix)
qed

lemma last_strip_end: "strip_end s \<noteq> [] \<Longrightarrow> \<not> edge_char (last (strip_end s))"
  unfolding strip_end_def using hd_dropWhile_not[of edge_char "rev s"] by (auto simp: last_rev)

lemma strip_end_id: "s = [] \<or> \<not> edge_char (last s) \<Longrightarrow> strip_end s = s"
  by (cases s rule: rev_cases) (auto simp: strip_end_def)

text \<open>What a cleaned comment looks like.\<close>

definition comment_ok :: "jstr \<Rightarrow> bool" where
  "comment_ok t \<longleftrightarrow>
     list_all comment_char t \<and> length t \<le> 64 \<and>
     (t = [] \<or> \<not> edge_char (hd t) \<and> \<not> edge_char (last t)) \<and>
     successively (\<lambda>a b. \<not> (a = 32 \<and> b = 32)) t"

lemma comment_ws: "comment_char c \<Longrightarrow> is_ws c \<longleftrightarrow> c = 32"
  by (auto simp: comment_char_def word_char_def is_ws_def)

lemma cleanComment_comment_ok: "comment_ok (cleanComment s)"
proof -
  define s1 where "s1 = squash (\<lambda>c. \<not> comment_char c) 45 (or_empty s)"
  define s2 where "s2 = squash is_ws 32 s1"
  define s3 where "s3 = strip_end (dropWhile edge_char s2)"
  have res: "cleanComment s = strip_end (take 64 s3)"
    by (simp only: cleanComment_def Let_def s1_def s2_def s3_def)
  have c1: "\<forall>c \<in> set s1. comment_char c"
    unfolding s1_def by (auto dest!: squash_chars simp: comment_char_def)
  then have c2: "\<forall>c \<in> set s2. comment_char c"
    unfolding s2_def by (auto dest!: squash_chars simp: comment_char_def)
  have n2: "successively (\<lambda>a b. \<not> (a = 32 \<and> b = 32)) s2"
    unfolding s2_def by (rule successively_mono[OF squash_successively]) auto
  have pre: "prefix (cleanComment s) s3"
    unfolding res by (rule prefix_order.order_trans[OF prefix_strip_end take_is_prefix])
  have pre3: "prefix s3 (dropWhile edge_char s2)" unfolding s3_def by (rule prefix_strip_end)
  have sub: "sublist (cleanComment s) s2"
    using prefix_imp_sublist[OF prefix_order.order_trans[OF pre pre3]]
      suffix_imp_sublist[OF suffix_dropWhile[of edge_char s2]] by (rule sublist_order.order_trans)
  have "length (cleanComment s) \<le> 64"
    unfolding res using prefix_length_le[OF prefix_strip_end[of "take 64 s3"]] by simp
  moreover have "\<not> edge_char (hd (cleanComment s))" if "cleanComment s \<noteq> []"
    using prefix_order.order_trans[OF pre pre3] that hd_dropWhile_not[of edge_char s2]
    by (auto simp: prefix_def simp del: dropWhile_eq_Nil_conv)
  moreover have "\<not> edge_char (last (cleanComment s))" if "cleanComment s \<noteq> []"
    using that last_strip_end unfolding res by blast
  ultimately show ?thesis
    using set_mono_sublist[OF sub] c2 successively_sublist[OF sub n2]
    by (auto simp: comment_ok_def list_all_iff)
qed

lemma cleanComment_id:
  assumes "comment_ok t"
  shows "cleanComment (Some t) = t"
proof -
  from assms have t: "\<forall>c \<in> set t. comment_char c" "length t \<le> 64"
    "t = [] \<or> \<not> edge_char (hd t) \<and> \<not> edge_char (last t)"
    "successively (\<lambda>a b. \<not> (a = 32 \<and> b = 32)) t"
    by (auto simp: comment_ok_def list_all_iff)
  have a: "squash (\<lambda>c. \<not> comment_char c) 45 t = t"
    using t(1) by (intro squash_id) (auto simp: successively_conv_nth)
  have "successively (\<lambda>a b. \<not> (is_ws a \<and> is_ws b)) t"
    using t(1,4) by (auto simp: successively_conv_nth comment_ws)
  then have b: "squash is_ws 32 t = t" using t(1) by (intro squash_id) (auto simp: comment_ws)
  have c: "dropWhile edge_char t = t" using t(3) by (cases t) auto
  have "strip_end t = t" using t(3) by (auto intro: strip_end_id)
  then show ?thesis using t(2) by (simp add: cleanComment_def a b c)
qed

subsection \<open>The command\<close>

lemma comment_plain: "comment_ok t \<Longrightarrow> 39 \<notin> set t \<and> 10 \<notin> set t \<and> 13 \<notin> set t"
  by (auto simp: comment_ok_def list_all_iff comment_char_def word_char_def)

lemma set_join: "set (join sep xs) \<subseteq> set sep \<union> \<Union> (set (map set xs))"
  by (induction xs) auto

lemma split_ws_sublist: "w \<in> set (split_ws s) \<Longrightarrow> set w \<subseteq> set s"
proof (induction s rule: split_ws.induct)
  case (1 s)
  let ?r = "dropWhile (\<lambda>c. \<not> is_ws c) s"
  from "1.prems" have "w = takeWhile (\<lambda>c. \<not> is_ws c) s \<or> ?r \<noteq> [] \<and> w \<in> set (split_ws (dropWhile is_ws ?r))"
    by (subst (asm) split_ws.simps) (auto simp: Let_def split: if_splits)
  moreover have "set (dropWhile is_ws ?r) \<subseteq> set s"
    by (auto dest!: set_dropWhileD)
  ultimately show ?case using "1.IH"[OF refl refl] by (auto dest: set_takeWhileD)
qed

lemma chosen_comment_plain:
  assumes "39 \<notin> set line" "10 \<notin> set line" "13 \<notin> set line"
  shows "39 \<notin> set (chosen_comment line field) \<and> 10 \<notin> set (chosen_comment line field)"
proof (cases "cleanComment (Some field) = []")
  case False
  then show ?thesis
    using comment_plain[OF cleanComment_comment_ok, of "Some field"] by (simp add: chosen_comment_def Let_def)
next
  case True
  let ?d = "join (js '' '') (drop 2 (split_ws line))"
  have "set ?d \<subseteq> {32} \<union> set line"
    using set_join[of "js '' ''" "drop 2 (split_ws line)"] split_ws_sublist[of _ line]
    by (fastforce dest: in_set_dropD)
  with assms True show ?thesis by (auto simp: chosen_comment_def Let_def default_comment_def)
qed

text \<open>The command around its quoted words: before the key blob, between the blob and the format of
  \<open>printf\<close>, and after the line.\<close>

definition cmd_before :: jstr where
  "cmd_before = js ''cd || exit 1; umask 077; mkdir -p .ssh || exit 1; if grep -qsF ''"

definition cmd_between :: jstr where
  "cmd_between = js '' .ssh/authorized_keys; then echo WOSH_ALREADY; exit 0; fi; { [ -z \"$(tail -1c .ssh/authorized_keys 2>/dev/null)\" ] || echo >> .ssh/authorized_keys; } || exit 1; printf ''"

definition cmd_after :: jstr where
  "cmd_after = js '' >> .ssh/authorized_keys || exit 1; if command -v restorecon >/dev/null 2>&1; then restorecon -F .ssh .ssh/authorized_keys 2>/dev/null; fi; echo WOSH_ADDED''"

lemma installCommand_shape:
  "installCommand line =
     cmd_before @ 39 # nth_or_empty (split_ws line) 1 @ 39 # cmd_between @
     39 # (js ''%s'' @ [92, 110]) @ 39 # [32] @ 39 # line @ 39 # cmd_after"
  by (simp add: installCommand_def install_parts_def cmd_before_def cmd_between_def cmd_after_def Let_def)

lemma cmd_plain: "39 \<notin> set cmd_before" "39 \<notin> set cmd_between" "39 \<notin> set cmd_after"
  "10 \<notin> set cmd_before" "10 \<notin> set cmd_between" "10 \<notin> set cmd_after"
  by (simp_all add: cmd_before_def cmd_between_def cmd_after_def)

lemma nth_or_empty_sublist: "set (nth_or_empty (split_ws s) i) \<subseteq> set s"
  by (cases "i < length (split_ws s)") (simp_all add: nth_or_empty_def split_ws_sublist)

text \<open>Quoted words are the odd pieces between single quotes: nothing in a quoted word can end it.\<close>

lemma installCommand_words:
  assumes "39 \<notin> set line"
  shows "split_on 39 (installCommand line) =
     [cmd_before, nth_or_empty (split_ws line) 1, cmd_between, js ''%s'' @ [92, 110], [32], line, cmd_after]"
proof -
  have "39 \<notin> set (nth_or_empty (split_ws line) 1)" using assms nth_or_empty_sublist by blast
  then show ?thesis unfolding installCommand_shape
    using assms by (simp add: split_on_append split_on_no_sep cmd_plain)
qed

text \<open>A key line: algorithm, blob, and possibly a comment.\<close>

definition key_line :: "jstr \<Rightarrow> jstr \<Rightarrow> jstr \<Rightarrow> jstr" where
  "key_line kind blob rest = kind @ 32 # blob @ rest"

definition key_line_ok :: "jstr \<Rightarrow> jstr \<Rightarrow> jstr \<Rightarrow> bool" where
  "key_line_ok kind blob rest \<longleftrightarrow>
     kind \<noteq> [] \<and> blob \<noteq> [] \<and> list_all (\<lambda>c. \<not> is_ws c) (kind @ blob) \<and>
     (rest = [] \<or> is_ws (hd rest)) \<and>
     39 \<notin> set (kind @ blob @ rest) \<and> 10 \<notin> set rest \<and> 13 \<notin> set rest"

lemma split_key_line:
  assumes "key_line_ok kind blob rest"
  shows "\<exists>ws. split_ws (key_line kind blob rest) = kind # blob # ws"
proof -
  from assms have nw: "\<forall>c \<in> set kind. \<not> is_ws c" "\<forall>c \<in> set blob. \<not> is_ws c" "blob \<noteq> []"
    by (auto simp: key_line_ok_def list_all_iff)
  have "dropWhile is_ws (blob @ rest) = blob @ rest" using nw by (cases blob) auto
  then have "split_ws (key_line kind blob rest) = kind # split_ws (blob @ rest)"
    using split_ws_Cons[OF nw(1), of 32 "blob @ rest"] by (simp add: key_line_def)
  moreover have "\<exists>ws. split_ws (blob @ rest) = blob # ws"
    using assms nw(2) by (cases rest) (auto simp: key_line_ok_def split_ws_word split_ws_Cons)
  ultimately show ?thesis by auto
qed

lemma install_request_words:
  assumes "key_line_ok kind blob rest"
  defines "line \<equiv> key_line kind blob rest"
  shows "split_on 39 (install_request line field) =
      [cmd_before, blob, cmd_between, js ''%s'' @ [92, 110], [32],
       kind @ 32 # blob @ 32 # chosen_comment line field, cmd_after]"
    and "10 \<notin> set (install_request line field)"
proof -
  obtain ws where sp: "split_ws line = kind # blob # ws"
    using split_key_line[OF assms(1)] unfolding line_def by blast
  let ?c = "chosen_comment line field"
  let ?l = "kind @ 32 # blob @ 32 # ?c"
  from assms(1) have nw: "\<forall>c \<in> set kind. \<not> is_ws c" "\<forall>c \<in> set blob. \<not> is_ws c" "blob \<noteq> []"
    and q: "39 \<notin> set line" and r: "10 \<notin> set rest" "13 \<notin> set rest"
    by (auto simp: key_line_ok_def list_all_iff line_def key_line_def)
  have nl: "10 \<notin> set kind" "13 \<notin> set kind" "10 \<notin> set blob" "13 \<notin> set blob"
    using nw by (auto simp: is_ws_def)
  then have "10 \<notin> set line" "13 \<notin> set line" using r by (auto simp: line_def key_line_def)
  from chosen_comment_plain[OF q this] have c: "39 \<notin> set ?c" "10 \<notin> set ?c" by auto
  have ql: "39 \<notin> set ?l" using q c by (auto simp: line_def key_line_def)
  have req: "install_request line field = installCommand ?l"
    by (simp add: install_request_def sp nth_printed_def)
  have "dropWhile is_ws (blob @ 32 # ?c) = blob @ 32 # ?c" using nw by (cases blob) auto
  then have "nth_or_empty (split_ws ?l) 1 = blob"
    using split_ws_Cons[OF nw(1), of 32 "blob @ 32 # ?c"] split_ws_Cons[OF nw(2), of 32 ?c]
    by (simp add: nth_or_empty_def)
  with installCommand_words[OF ql] show "split_on 39 (install_request line field) =
      [cmd_before, blob, cmd_between, js ''%s'' @ [92, 110], [32], ?l, cmd_after]"
    by (simp add: req)
  show "10 \<notin> set (install_request line field)"
    unfolding req installCommand_shape using cmd_plain c nl \<open>nth_or_empty (split_ws ?l) 1 = blob\<close> by simp
qed

text \<open>A typed comment is harmless in the key line. Whatever is typed, the cleaned comment has only
  characters of the whitelist (no quote, no line break), at most 64 of them, no dash or space at
  either end and no two spaces together, and cleaning it again changes nothing.\<close>

theorem cleanComment_clean:
  "comment_ok (cleanComment s) \<and> cleanComment (Some (cleanComment s)) = cleanComment s"
  by (simp add: cleanComment_comment_ok cleanComment_id)

text \<open>C38: Installing a key runs exactly one known command. For a key line without quotes or line
  breaks and any typed comment, the request cut at its single quotes is the fixed script with
  three quoted words: the key blob searched for, the format, and the one line appended. The
  request has no line break, so nothing typed can end a word or add a second key.\<close>

theorem install_request_safe:
  assumes "key_line_ok kind blob rest"
  shows "split_on 39 (install_request (key_line kind blob rest) field) =
      [cmd_before, blob, cmd_between, js ''%s'' @ [92, 110], [32],
       kind @ 32 # blob @ 32 # chosen_comment (key_line kind blob rest) field, cmd_after] \<and>
    10 \<notin> set (install_request (key_line kind blob rest) field)"
  using install_request_words[OF assms] by blast

lemma install_request_safe_witness:
  "10 \<notin> set (install_request (key_line (js ''ssh-ed25519'') (js ''AAAA'') []) (js ''my phone''))"
proof -
  have "key_line_ok (js ''ssh-ed25519'') (js ''AAAA'') []" by (simp add: key_line_ok_def)
  from install_request_safe[OF this] show ?thesis by blast
qed

end
