(* ===== verification/Codec.thy ===== *)
theory Codec
  imports Prelude
begin

text \<open>
  The platform's codecs the page calls on connection strings, as their standards define them:
  \<open>atob\<close> and \<open>btoa\<close> (the forgiving base64 of the Infra standard), \<open>TextEncoder\<close> and \<open>TextDecoder\<close>
  (UTF-8 of the Encoding standard, replacement characters and byte order mark included) and
  \<open>decodeURIComponent\<close> (ECMA-262). Bytes are natural numbers below 256.
\<close>

definition is_bytes :: "nat list \<Rightarrow> bool" where
  "is_bytes bs \<longleftrightarrow> list_all (\<lambda>b. b < 256) bs"

subsection \<open>Base64\<close>

definition b64_val :: "nat \<Rightarrow> nat option" where
  "b64_val c =
     (if 65 \<le> c \<and> c \<le> 90 then Some (c - 65)
      else if 97 \<le> c \<and> c \<le> 122 then Some (c - 71)
      else if 48 \<le> c \<and> c \<le> 57 then Some (c + 4)
      else if c = 43 then Some 62 else if c = 47 then Some 63 else None)"

definition b64_char :: "nat \<Rightarrow> nat" where
  "b64_char v =
     (if v < 26 then v + 65 else if v < 52 then v + 71 else if v < 62 then v - 4
      else if v = 62 then 43 else 47)"

fun b64_quads :: "nat list \<Rightarrow> nat list" where
  "b64_quads (a # b # c # d # r) =
     (a * 4 + b div 16) # ((b mod 16) * 16 + c div 4) # ((c mod 4) * 64 + d) # b64_quads r"
| "b64_quads [a, b, c] = [a * 4 + b div 16, (b mod 16) * 16 + c div 4]"
| "b64_quads [a, b] = [a * 4 + b div 16]"
| "b64_quads _ = []"

fun b64_symbols :: "nat list \<Rightarrow> nat list" where
  "b64_symbols (a # b # c # r) =
     (a div 4) # ((a mod 4) * 16 + b div 16) # ((b mod 16) * 4 + c div 64) # (c mod 64) # b64_symbols r"
| "b64_symbols [a, b] = [a div 4, (a mod 4) * 16 + b div 16, (b mod 16) * 4]"
| "b64_symbols [a] = [a div 4, (a mod 4) * 16]"
| "b64_symbols [] = []"

definition b64_pad :: "nat list \<Rightarrow> jstr" where
  "b64_pad bs = replicate ((3 - length bs mod 3) mod 3) 61"

definition btoa :: "jstr \<Rightarrow> jstr option" where
  "btoa s = (if is_bytes s then Some (map b64_char (b64_symbols s) @ b64_pad s) else None)"

definition drop_pad :: "jstr \<Rightarrow> jstr" where
  "drop_pad s =
     (if length s mod 4 = 0 \<and> s \<noteq> [] \<and> last s = 61
      then (let t = butlast s in if t \<noteq> [] \<and> last t = 61 then butlast t else t) else s)"

definition atob :: "jstr \<Rightarrow> nat list option" where
  "atob s =
     (let t = drop_pad (filter (\<lambda>c. c \<notin> {9, 10, 12, 13, 32}) s) in
      if length t mod 4 = 1 \<or> \<not> list_all (\<lambda>c. b64_val c \<noteq> None) t then None
      else Some (b64_quads (map (\<lambda>c. the (b64_val c)) t)))"

lemma b64_val_char: "v < 64 \<Longrightarrow> b64_val (b64_char v) = Some v"
  by (auto simp: b64_val_def b64_char_def)

lemma div_mod_add:
  fixes n :: nat
  assumes "q < n"
  shows "(x * n + q) div n = x" "(x * n + q) mod n = q"
  using assms by simp_all

lemma b64_quads_symbols: "is_bytes bs \<Longrightarrow> b64_quads (b64_symbols bs) = bs"
proof (induction bs rule: b64_symbols.induct)
  case (1 a b c r)
  have "b div 16 < 16" "c div 64 < 4" using 1(2) by (auto simp: is_bytes_def)
  then have "((a mod 4) * 16 + b div 16) div 16 = a mod 4" "((a mod 4) * 16 + b div 16) mod 16 = b div 16"
    "((b mod 16) * 4 + c div 64) div 4 = b mod 16" "((b mod 16) * 4 + c div 64) mod 4 = c div 64"
    by (simp_all only: div_mod_add)
  with 1 show ?case
    by (simp only: b64_symbols.simps b64_quads.simps is_bytes_def list.pred_inject div_mult_mod_eq)
next
  case (2 a b)
  then have "b div 16 < 16" by (auto simp: is_bytes_def)
  then have "((a mod 4) * 16 + b div 16) div 16 = a mod 4" "((a mod 4) * 16 + b div 16) mod 16 = b div 16"
    "((b mod 16) * 4) div 4 = b mod 16"
    by (simp_all only: div_mod_add)
  then show ?case by (simp only: b64_symbols.simps b64_quads.simps div_mult_mod_eq)
qed simp_all

lemma b64_symbols_bound: "is_bytes bs \<Longrightarrow> list_all (\<lambda>v. v < 64) (b64_symbols bs)"
  by (induction bs rule: b64_symbols.induct) (auto simp: is_bytes_def)

lemma length_b64_symbols: "length (b64_symbols bs) mod 4 \<noteq> 1"
  by (induction bs rule: b64_symbols.induct) auto

subsection \<open>UTF-8\<close>

text \<open>UTF-16 code units of a code point.\<close>

definition utf16 :: "nat \<Rightarrow> jstr" where
  "utf16 c = (if c < 0x10000 then [c]
              else [0xD800 + (c - 0x10000) div 0x400, 0xDC00 + (c - 0x10000) mod 0x400])"

text \<open>The decoder: how many continuation bytes are still needed, the code point so far, and the
  bounds of the next continuation byte.\<close>

function utf8_dec :: "nat \<Rightarrow> nat \<Rightarrow> nat \<Rightarrow> nat \<Rightarrow> nat list \<Rightarrow> jstr" where
  "utf8_dec 0 cp lo hi [] = []"
| "utf8_dec (Suc n) cp lo hi [] = [0xFFFD]"
| "utf8_dec 0 cp lo hi (b # bs) =
     (if b < 0x80 then b # utf8_dec 0 0 0x80 0xBF bs
      else if 0xC2 \<le> b \<and> b \<le> 0xDF then utf8_dec 1 (b - 0xC0) 0x80 0xBF bs
      else if 0xE0 \<le> b \<and> b \<le> 0xEF then
        utf8_dec 2 (b - 0xE0) (if b = 0xE0 then 0xA0 else 0x80) (if b = 0xED then 0x9F else 0xBF) bs
      else if 0xF0 \<le> b \<and> b \<le> 0xF4 then
        utf8_dec 3 (b - 0xF0) (if b = 0xF0 then 0x90 else 0x80) (if b = 0xF4 then 0x8F else 0xBF) bs
      else 0xFFFD # utf8_dec 0 0 0x80 0xBF bs)"
| "utf8_dec (Suc n) cp lo hi (b # bs) =
     (if b < lo \<or> hi < b then 0xFFFD # utf8_dec 0 0 0x80 0xBF (b # bs)
      else if n = 0 then utf16 (cp * 64 + (b - 0x80)) @ utf8_dec 0 0 0x80 0xBF bs
      else utf8_dec n (cp * 64 + (b - 0x80)) 0x80 0xBF bs)"
  by pat_completeness auto
termination
  by (relation "measure (\<lambda>(n, _, _, _, bs). 2 * length bs + (if n = 0 then 0 else 1))") auto

definition utf8_decode :: "nat list \<Rightarrow> jstr" where
  "utf8_decode bs =
     utf8_dec 0 0 0x80 0xBF (if take 3 bs = [0xEF, 0xBB, 0xBF] then drop 3 bs else bs)"

definition utf8_cp :: "nat \<Rightarrow> nat list" where
  "utf8_cp c =
     (if c < 0x80 then [c]
      else if c < 0x800 then [0xC0 + c div 64, 0x80 + c mod 64]
      else if c < 0x10000 then [0xE0 + c div 4096, 0x80 + c div 64 mod 64, 0x80 + c mod 64]
      else [0xF0 + c div 262144, 0x80 + c div 4096 mod 64, 0x80 + c div 64 mod 64, 0x80 + c mod 64])"

definition is_high :: "nat \<Rightarrow> bool" where "is_high c \<longleftrightarrow> 0xD800 \<le> c \<and> c \<le> 0xDBFF"
definition is_low :: "nat \<Rightarrow> bool" where "is_low c \<longleftrightarrow> 0xDC00 \<le> c \<and> c \<le> 0xDFFF"

text \<open>The scalar values of a string: a lone surrogate becomes the replacement character.\<close>

fun scalars :: "jstr \<Rightarrow> nat list" where
  "scalars [] = []"
| "scalars [c] = [if is_high c \<or> is_low c then 0xFFFD else c]"
| "scalars (c # d # s) =
     (if is_high c \<and> is_low d then (0x10000 + (c - 0xD800) * 0x400 + (d - 0xDC00)) # scalars s
      else (if is_high c \<or> is_low c then 0xFFFD else c) # scalars (d # s))"

definition utf8_encode :: "jstr \<Rightarrow> nat list" where
  "utf8_encode s = concat (map utf8_cp (scalars s))"

definition is_scalar :: "nat \<Rightarrow> bool" where
  "is_scalar c \<longleftrightarrow> c < 0x110000 \<and> \<not> is_high c \<and> \<not> is_low c"

lemma utf8_lead:
  "b < 0x80 \<Longrightarrow> utf8_dec 0 p lo hi (b # bs) = b # utf8_dec 0 0 0x80 0xBF bs"
  "2 \<le> a \<Longrightarrow> a < 32 \<Longrightarrow> utf8_dec 0 p lo hi ((0xC0 + a) # bs) = utf8_dec (Suc 0) a 0x80 0xBF bs"
  "a < 16 \<Longrightarrow> utf8_dec 0 p lo hi ((0xE0 + a) # bs) =
     utf8_dec (Suc (Suc 0)) a (if a = 0 then 0xA0 else 0x80) (if a = 13 then 0x9F else 0xBF) bs"
  "a \<le> 4 \<Longrightarrow> utf8_dec 0 p lo hi ((0xF0 + a) # bs) =
     utf8_dec (Suc (Suc (Suc 0))) a (if a = 0 then 0x90 else 0x80) (if a = 4 then 0x8F else 0xBF) bs"
  by (simp_all add: numeral_2_eq_2 numeral_3_eq_3)

lemma utf8_cont:
  assumes "lo \<le> 0x80 + v" "0x80 + v \<le> hi"
  shows "utf8_dec (Suc 0) cp lo hi ((0x80 + v) # bs) = utf16 (cp * 64 + v) @ utf8_dec 0 0 0x80 0xBF bs"
    and "utf8_dec (Suc (Suc n)) cp lo hi ((0x80 + v) # bs) = utf8_dec (Suc n) (cp * 64 + v) 0x80 0xBF bs"
  using assms by simp_all

lemma utf8_dec_cp:
  assumes "is_scalar c"
  shows "utf8_dec 0 p lo hi (utf8_cp c @ bs) = utf16 c @ utf8_dec 0 0 0x80 0xBF bs"
proof -
  consider "c < 0x80" | "0x80 \<le> c" "c < 0x800" | "0x800 \<le> c" "c < 0x10000" | "0x10000 \<le> c" "c < 0x110000"
    using assms by (fastforce simp: is_scalar_def)
  then show ?thesis
  proof cases
    case 1
    then show ?thesis by (simp add: utf8_cp_def utf16_def)
  next
    case 2
    define a d where "a = c div 64" and "d = c mod 64"
    have b: "a * 64 + d = c" "d < 64" "2 \<le> a" "a < 32" using 2 by (simp_all add: a_def d_def)
    have "utf8_cp c = [0xC0 + a, 0x80 + d]" using 2 by (simp add: utf8_cp_def a_def d_def)
    then show ?thesis using b by (simp add: utf8_lead utf8_cont del: utf8_dec.simps)
  next
    case 3
    define a e d where "a = c div 4096" and "e = c div 64 mod 64" and "d = c mod 64"
    have a': "a = c div 64 div 64" by (simp add: a_def div_mult2_eq)
    have b: "(a * 64 + e) * 64 + d = c" "e < 64" "d < 64" "a < 16"
      using 3 by (simp_all add: a' e_def d_def a_def[symmetric] div_less_iff_less_mult)
    have flat: "4096 * a + 64 * e + d = c" using b(1) by (simp add: algebra_simps)
    have lo: "32 \<le> e" if "a = 0" using that 3 b(2,3) flat by simp
    have surr: "c < 0xD800 \<or> 0xDFFF < c" using assms by (auto simp: is_scalar_def is_high_def is_low_def)
    have hi: "e < 32" if "a = 13"
    proof (rule ccontr)
      assume "\<not> e < 32"
      then have "0xD800 \<le> c" "c \<le> 0xDFFF" using that b(2,3) flat by simp_all
      with surr show False by simp
    qed
    have u: "utf8_cp c @ bs = (0xE0 + a) # (0x80 + e) # (0x80 + d) # bs"
      using 3 by (simp add: utf8_cp_def a_def d_def e_def)
    have "utf8_dec 0 p lo hi (utf8_cp c @ bs) = utf16 ((a * 64 + e) * 64 + d) @ utf8_dec 0 0 0x80 0xBF bs"
      unfolding u utf8_lead(3)[OF b(4)]
      by (subst utf8_cont(2)) (use b(2,3) lo hi in \<open>auto simp: utf8_cont simp del: utf8_dec.simps\<close>)
    then show ?thesis by (simp only: b(1))
  next
    case 4
    define a f e d where "a = c div 262144" and "f = c div 4096 mod 64"
      and "e = c div 64 mod 64" and "d = c mod 64"
    have a': "a = c div 64 div 64 div 64" "f = c div 64 div 64 mod 64"
      by (simp_all add: a_def f_def div_mult2_eq[symmetric])
    have "a * 64 + f = c div 64 div 64" by (simp add: a')
    then have "(a * 64 + f) * 64 + e = c div 64" by (simp add: e_def)
    then have b: "((a * 64 + f) * 64 + e) * 64 + d = c" "f < 64" "e < 64" "d < 64"
      by (simp_all add: d_def e_def f_def)
    have flat: "262144 * a + 4096 * f + 64 * e + d = c" using b(1) by (simp add: algebra_simps)
    then have "a \<le> 4" using 4 by simp
    have lo: "16 \<le> f" if "a = 0" using that 4 b(2-4) flat by simp
    have hi: "f < 16" if "a = 4" using that 4 b(2-4) flat by simp
    have u: "utf8_cp c @ bs = (0xF0 + a) # (0x80 + f) # (0x80 + e) # (0x80 + d) # bs"
      using 4 by (simp add: utf8_cp_def a_def d_def e_def f_def)
    have "utf8_dec 0 p lo hi (utf8_cp c @ bs) = utf16 (((a * 64 + f) * 64 + e) * 64 + d) @ utf8_dec 0 0 0x80 0xBF bs"
      unfolding u utf8_lead(4)[OF \<open>a \<le> 4\<close>]
      by (subst utf8_cont(2)) (use b(2-4) lo hi in \<open>auto simp: utf8_cont simp del: utf8_dec.simps\<close>)
    then show ?thesis by (simp only: b(1))
  qed
qed

lemma scalars_scalar: "list_all (\<lambda>c. c < 0x10000) s \<Longrightarrow> list_all is_scalar (scalars s)"
  by (induction s rule: scalars.induct) (auto simp: is_scalar_def is_high_def is_low_def)

text \<open>A string of 16-bit units without lone surrogates survives UTF-16.\<close>

fun well_formed :: "jstr \<Rightarrow> bool" where
  "well_formed [] = True"
| "well_formed [c] = (c < 0x10000 \<and> \<not> is_high c \<and> \<not> is_low c)"
| "well_formed (c # d # s) =
     (if is_high c \<and> is_low d then well_formed s
      else c < 0x10000 \<and> \<not> is_high c \<and> \<not> is_low c \<and> well_formed (d # s))"

lemma utf16_scalars: "well_formed s \<Longrightarrow> concat (map utf16 (scalars s)) = s \<and> list_all is_scalar (scalars s)"
proof (induction s rule: scalars.induct)
  case (3 c d s)
  show ?case
  proof (cases "is_high c \<and> is_low d")
    case True
    then have cd: "0xD800 \<le> c" "c \<le> 0xDBFF" "0xDC00 \<le> d" "d \<le> 0xDFFF" by (auto simp: is_high_def is_low_def)
    let ?v = "(c - 0xD800) * 0x400 + (d - 0xDC00)"
    have "d - 0xDC00 < 0x400" using cd by arith
    then have "?v div 0x400 = c - 0xD800" "?v mod 0x400 = d - 0xDC00" by (simp_all only: div_mod_add)
    then have "utf16 (0x10000 + ?v) = [c, d]" using cd by (simp add: utf16_def)
    moreover have "is_scalar (0x10000 + ?v)" using cd by (auto simp: is_scalar_def is_high_def is_low_def)
    ultimately show ?thesis using True 3 by (simp add: add.assoc)
  next
    case False
    with 3 show ?thesis by (auto simp: utf16_def is_scalar_def)
  qed
qed (auto simp: utf16_def is_scalar_def)

lemma utf8_dec_cps:
  "list_all is_scalar cs \<Longrightarrow> utf8_dec 0 p lo hi (concat (map utf8_cp cs)) = concat (map utf16 cs)"
proof (induction cs arbitrary: p lo hi)
  case (Cons c cs)
  then show ?case by (simp add: utf8_dec_cp del: utf8_dec.simps)
qed simp

lemma utf8_cp_bom: "take 3 (utf8_cp c @ bs) = [0xEF, 0xBB, 0xBF] \<Longrightarrow> is_scalar c \<Longrightarrow> c = 0xFEFF"
proof -
  assume t: "take 3 (utf8_cp c @ bs) = [0xEF, 0xBB, 0xBF]" and c: "is_scalar c"
  then have r: "0x800 \<le> c" "c < 0x10000"
    by (auto simp: utf8_cp_def is_scalar_def split: if_splits)
  with t have "c div 4096 = 15" "c div 64 mod 64 = 59" and d: "c mod 64 = 63"
    by (simp_all add: utf8_cp_def)
  then have "c div 64 div 64 = 15" "c div 64 mod 64 = 59" by (simp_all add: div_mult2_eq[symmetric])
  then have "c div 64 = 15 * 64 + 59" using div_mult_mod_eq[of "c div 64" 64] by linarith
  with d show "c = 0xFEFF" using div_mult_mod_eq[of c 64] by linarith
qed

lemma utf8_roundtrip:
  assumes "well_formed s" "s = [] \<or> hd s \<noteq> 0xFEFF"
  shows "utf8_decode (utf8_encode s) = s"
proof -
  from utf16_scalars[OF assms(1)] have u: "concat (map utf16 (scalars s)) = s" "list_all is_scalar (scalars s)"
    by auto
  have "take 3 (utf8_encode s) \<noteq> [0xEF, 0xBB, 0xBF]"
  proof
    assume t: "take 3 (utf8_encode s) = [0xEF, 0xBB, 0xBF]"
    then obtain c cs where sc: "scalars s = c # cs" by (cases "scalars s") (auto simp: utf8_encode_def)
    with t u(2) have "c = 0xFEFF" by (intro utf8_cp_bom[where bs = "concat (map utf8_cp cs)"]) (auto simp: utf8_encode_def)
    with sc u(1) have "hd s = 0xFEFF" by (auto simp: utf16_def)
    with assms(2) t show False by (auto simp: utf8_encode_def)
  qed
  then show ?thesis using u by (simp add: utf8_decode_def utf8_encode_def utf8_dec_cps)
qed

lemma utf8_cp_bytes: "is_scalar c \<Longrightarrow> is_bytes (utf8_cp c)"
  unfolding utf8_cp_def is_bytes_def is_scalar_def by (auto; presburger)

lemma utf8_encode_bytes: "well_formed s \<Longrightarrow> is_bytes (utf8_encode s)"
  using utf16_scalars[of s] utf8_cp_bytes
  by (fastforce simp: utf8_encode_def is_bytes_def list_all_iff)

subsection \<open>Percent decoding\<close>

definition hex_val :: "nat \<Rightarrow> nat option" where
  "hex_val c =
     (if 48 \<le> c \<and> c \<le> 57 then Some (c - 48)
      else if 97 \<le> c \<and> c \<le> 102 then Some (c - 87)
      else if 65 \<le> c \<and> c \<le> 70 then Some (c - 55) else None)"

text \<open>One escape \<open>%XY\<close> at the front.\<close>

fun pct_byte :: "jstr \<Rightarrow> (nat \<times> jstr) option" where
  "pct_byte (p # h # l # s) =
     (case (hex_val h, hex_val l) of
        (Some a, Some b) \<Rightarrow> if p = 37 then Some (a * 16 + b, s) else None
      | _ \<Rightarrow> None)"
| "pct_byte _ = None"

primrec pct_bytes :: "nat \<Rightarrow> jstr \<Rightarrow> (nat list \<times> jstr) option" where
  "pct_bytes 0 s = Some ([], s)"
| "pct_bytes (Suc n) s =
     (case pct_byte s of
        Some (b, t) \<Rightarrow> map_option (\<lambda>(bs, u). (b # bs, u)) (pct_bytes n t)
      | None \<Rightarrow> None)"

lemma pct_byte_length: "pct_byte s = Some (b, t) \<Longrightarrow> length t < length s"
  by (cases s rule: pct_byte.cases) (auto split: option.splits if_splits)

lemma pct_bytes_length: "pct_bytes n s = Some (bs, t) \<Longrightarrow> length t \<le> length s"
  by (induction n arbitrary: s bs) (fastforce split: option.splits dest: pct_byte_length)+

text \<open>How many continuation bytes a lead byte announces; \<open>None\<close> for one that cannot lead.\<close>

definition pct_need :: "nat \<Rightarrow> nat option" where
  "pct_need b = (if b < 0x80 then Some 0 else if 0xC0 \<le> b \<and> b \<le> 0xDF then Some 1
     else if 0xE0 \<le> b \<and> b \<le> 0xEF then Some 2 else if 0xF0 \<le> b \<and> b \<le> 0xF7 then Some 3 else None)"

text \<open>The octets must be the UTF-8 encoding of one scalar value.\<close>

definition pct_scalar :: "nat list \<Rightarrow> jstr option" where
  "pct_scalar bs =
     (let u = utf8_dec 0 0 0x80 0xBF bs in
      if utf8_encode u = bs \<and> (length u = 1 \<or> length u = 2 \<and> length bs = 4) then Some u else None)"

function decode_uri :: "jstr \<Rightarrow> jstr option" where
  "decode_uri s =
     (case s of
        [] \<Rightarrow> Some []
      | c # t \<Rightarrow>
         if c \<noteq> 37 then map_option (\<lambda>r. c # r) (decode_uri t)
         else (case pct_byte s of
                 None \<Rightarrow> None
               | Some (b, t1) \<Rightarrow>
                  (case pct_need b of
                     None \<Rightarrow> None
                   | Some n \<Rightarrow>
                      (case pct_bytes n t1 of
                         None \<Rightarrow> None
                       | Some (bs, t2) \<Rightarrow>
                          (case pct_scalar (b # bs) of
                             None \<Rightarrow> None
                           | Some u \<Rightarrow> map_option (\<lambda>r. u @ r) (decode_uri t2))))))"
  by auto
termination
  by (relation "measure length") (auto dest!: pct_byte_length pct_bytes_length)

declare decode_uri.simps [simp del]

lemma decode_uri_plain: "37 \<notin> set s \<Longrightarrow> decode_uri s = Some s"
  by (induction s) (subst decode_uri.simps, simp)+

subsection \<open>The decoder yields well-formed strings\<close>

lemma well_formed_Cons:
  "c < 0x10000 \<Longrightarrow> \<not> is_high c \<Longrightarrow> \<not> is_low c \<Longrightarrow> well_formed (c # s) = well_formed s"
  by (cases s) auto

lemma well_formed_utf16:
  assumes "is_scalar c"
  shows "well_formed (utf16 c @ s) = well_formed s"
proof (cases "c < 0x10000")
  case True
  with assms show ?thesis by (simp add: utf16_def well_formed_Cons is_scalar_def)
next
  case False
  have "c < 0x110000" using assms by (simp add: is_scalar_def)
  then have "c - 0x10000 < 0x400 * 0x400" by arith
  then have "(c - 0x10000) div 0x400 < 0x400" "(c - 0x10000) mod 0x400 < 0x400"
    by (simp_all add: div_less_iff_less_mult)
  then have "is_high (0xD800 + (c - 0x10000) div 0x400)" "is_low (0xDC00 + (c - 0x10000) mod 0x400)"
    by (simp_all add: is_high_def is_low_def)
  with False show ?thesis by (simp add: utf16_def)
qed

text \<open>Every code point the decoder can still complete is a scalar value.\<close>

fun completes :: "nat \<Rightarrow> nat \<Rightarrow> nat \<Rightarrow> nat \<Rightarrow> bool" where
  "completes 0 cp lo hi \<longleftrightarrow> True"
| "completes (Suc 0) cp lo hi \<longleftrightarrow> 0x80 \<le> lo \<and> (\<forall>v. lo \<le> 0x80 + v \<and> 0x80 + v \<le> hi \<longrightarrow> is_scalar (cp * 64 + v))"
| "completes (Suc (Suc n)) cp lo hi \<longleftrightarrow>
     0x80 \<le> lo \<and> (\<forall>v. lo \<le> 0x80 + v \<and> 0x80 + v \<le> hi \<longrightarrow> completes (Suc n) (cp * 64 + v) 0x80 0xBF)"

lemma completes_lead:
  "2 \<le> a \<Longrightarrow> a < 32 \<Longrightarrow> completes (Suc 0) a 0x80 0xBF"
  "a < 16 \<Longrightarrow> completes (Suc (Suc 0)) a (if a = 0 then 0xA0 else 0x80) (if a = 13 then 0x9F else 0xBF)"
  "a \<le> 4 \<Longrightarrow> completes (Suc (Suc (Suc 0))) a (if a = 0 then 0x90 else 0x80) (if a = 4 then 0x8F else 0xBF)"
  unfolding completes.simps is_scalar_def is_high_def is_low_def
  by (auto split: if_splits)

lemma utf8_dec_well_formed:
  "completes n cp lo hi \<Longrightarrow> well_formed (utf8_dec n cp lo hi bs)"
proof (induction n cp lo hi bs rule: utf8_dec.induct)
  case (3 cp lo hi b bs)
  have a: "b - 0xC0 < 32 \<and> 2 \<le> b - 0xC0" if "0xC2 \<le> b" "b \<le> 0xDF" using that by auto
  have e: "completes 2 (b - 0xE0) (if b = 0xE0 then 0xA0 else 0x80) (if b = 0xED then 0x9F else 0xBF)"
    if r: "0xE0 \<le> b" "b \<le> 0xEF"
  proof -
    from r(1) obtain a where b: "b = 0xE0 + a" by (auto simp: le_iff_add)
    with r(2) completes_lead(2)[of a] show ?thesis by (simp add: numeral_2_eq_2 del: completes.simps)
  qed
  have f: "completes 3 (b - 0xF0) (if b = 0xF0 then 0x90 else 0x80) (if b = 0xF4 then 0x8F else 0xBF)"
    if r: "0xF0 \<le> b" "b \<le> 0xF4"
  proof -
    from r(1) obtain a where b: "b = 0xF0 + a" by (auto simp: le_iff_add)
    with r(2) completes_lead(3)[of a] show ?thesis by (simp add: numeral_3_eq_3 del: completes.simps)
  qed
  show ?case
    using 3 a e f completes_lead(1)[of "b - 0xC0"]
    by (auto simp: well_formed_Cons is_high_def is_low_def simp del: completes.simps(2,3))
next
  case (4 n cp lo hi b bs)
  show ?case
  proof (cases "b < lo \<or> hi < b")
    case True
    then show ?thesis using 4(1) by (simp add: well_formed_Cons is_high_def is_low_def)
  next
    case False
    then have "0x80 \<le> b" using 4(4) by (cases n) auto
    then obtain v where v: "b = 0x80 + v" by (auto simp: le_iff_add)
    show ?thesis
    proof (cases n)
      case 0
      with 4 False v have "is_scalar (cp * 64 + v)" by simp
      with 4(2)[OF False] 0 False v show ?thesis by (simp add: well_formed_utf16)
    next
      case (Suc m)
      with 4(4) False v have "completes n (cp * 64 + v) 0x80 0xBF" by simp
      with 4(3)[OF False] Suc False v show ?thesis by (simp del: completes.simps)
    qed
  qed
qed (simp_all add: is_high_def is_low_def)

lemma utf8_decode_well_formed: "well_formed (utf8_decode bs)"
  by (simp add: utf8_decode_def utf8_dec_well_formed)
end
