(* ===== verification/Connstring.thy ===== *)
theory Connstring
  imports Codec
begin

text \<open>
  The connection strings of \<^verbatim>\<open>site/boot.mjs\<close>: taking one out of what the user pasted, the listener's
  endpoint id, decoding id and relay from the three format versions, and the version 3 encoder
  with and without a pairing token. \<open>new URL(s).hash\<close> is the browser's and is a parameter:
  \<open>None\<close> where the constructor throws.
\<close>

subsection \<open>What the user pasted\<close>

text \<open>\<open>fragmentValue\<close>: one leading \<open>#\<close> dropped, percent-decoded when that succeeds.\<close>

definition fragmentValue :: "jstr \<Rightarrow> jstr" where
  "fragmentValue hash =
     (let frag = (if hash \<noteq> [] \<and> hd hash = 35 then tl hash else hash) in
      if frag = [] then []
      else case decode_uri frag of Some d \<Rightarrow> trim d | None \<Rightarrow> trim frag)"

definition connstringFromLocation :: "jstr \<Rightarrow> jstr" where
  "connstringFromLocation loc_hash = fragmentValue loc_hash"

definition connstringFrom :: "(jstr \<Rightarrow> jstr option) \<Rightarrow> jstr option \<Rightarrow> jstr" where
  "connstringFrom url_hash raw =
     (let s = trim (or_empty raw) in
      if starts_with (js ''#'') s then fragmentValue s
      else case url_hash s of
        None \<Rightarrow> s
      | Some h \<Rightarrow> (let f = fragmentValue h in if f = [] then s else f))"

subsection \<open>Decoding\<close>

text \<open>\<open>atob(connstring.trim().replace(/-/g, "+").replace(/_/g, "/"))\<close>\<close>

definition from_url_alphabet :: "nat \<Rightarrow> nat" where
  "from_url_alphabet c = (if c = 45 then 43 else if c = 95 then 47 else c)"

definition connstring_bytes :: "jstr \<Rightarrow> nat list option" where
  "connstring_bytes s = atob (map from_url_alphabet (trim s))"

definition hex_digit :: "nat \<Rightarrow> nat" where
  "hex_digit v = (if v < 10 then v + 48 else v + 87)"

definition hex_of_bytes :: "nat list \<Rightarrow> jstr" where
  "hex_of_bytes bs = concat (map (\<lambda>b. [hex_digit (b div 16), hex_digit (b mod 16)]) bs)"

definition endpointIdOf :: "jstr \<Rightarrow> jstr option" where
  "endpointIdOf connstring =
     (case connstring_bytes connstring of
        None \<Rightarrow> None
      | Some bin \<Rightarrow>
         if length bin < 34 \<or> hd bin < 1 \<or> hd bin > 3 then None
         else Some (hex_of_bytes (take 32 (drop 1 bin))))"

text \<open>
  The numbers a varint can become: doubles, exact here (rounding only happens above \<open>2 ^ 53\<close>, where
  nothing reads the value but a comparison with 0 or 1, a table index and an end of array).
\<close>

datatype jsnum = Fin nat | Inf | NaN

definition round_fin :: "nat \<Rightarrow> jsnum" where
  "round_fin n = (if n \<ge> 2 ^ 1024 - 2 ^ 970 then Inf else Fin n)"

text \<open>\<open>b * 2 ** shift\<close> and \<open>v + w\<close>\<close>

definition scale :: "nat \<Rightarrow> nat \<Rightarrow> jsnum" where
  "scale b shift =
     (if shift < 1024 then round_fin (b * 2 ^ shift) else if b = 0 then NaN else Inf)"

fun plus_num :: "jsnum \<Rightarrow> jsnum \<Rightarrow> jsnum" where
  "plus_num (Fin a) (Fin b) = round_fin (a + b)"
| "plus_num NaN _ = NaN"
| "plus_num _ NaN = NaN"
| "plus_num _ _ = Inf"

text \<open>\<open>bytes[off++]\<close> past the end is undefined, which counts as a zero byte.\<close>

fun varint :: "nat list \<Rightarrow> jsnum \<Rightarrow> nat \<Rightarrow> jsnum \<times> nat list" where
  "varint [] v shift = (plus_num v (scale 0 shift), [])"
| "varint (b # bs) v shift =
     (let v' = plus_num v (scale (b mod 128) shift) in
      if b < 128 then (v', bs) else varint bs v' (shift + 7))"

text \<open>\<open>bytes.subarray(off, off + len)\<close> of what starts at \<open>off\<close>\<close>

fun sub_len :: "jsnum \<Rightarrow> nat list \<Rightarrow> nat list" where
  "sub_len (Fin n) bs = take n bs"
| "sub_len Inf bs = bs"
| "sub_len NaN bs = []"

definition WELL_KNOWN_RELAYS :: "jstr list" where
  "WELL_KNOWN_RELAYS =
     [js ''https://use1-1.relay.n0.iroh.link'', js ''https://usw1-1.relay.n0.iroh.link'',
      js ''https://euc1-1.relay.n0.iroh.link'', js ''https://aps1-1.relay.n0.iroh.link'']"

fun well_known :: "jsnum \<Rightarrow> jstr" where
  "well_known (Fin n) = (if n < length WELL_KNOWN_RELAYS then WELL_KNOWN_RELAYS ! n else [])"
| "well_known _ = []"

definition with_relay :: "jstr \<Rightarrow> jstr \<Rightarrow> (jstr \<times> jstr) option" where
  "with_relay hex relay = (if relay = [] then None else Some (hex, relay))"

definition connstringDetails :: "jstr \<Rightarrow> (jstr \<times> jstr) option" where
  "connstringDetails connstring =
     (case connstring_bytes connstring of
        None \<Rightarrow> None
      | Some bytes \<Rightarrow>
         if length bytes < 34 then None
         else (let hex = hex_of_bytes (take 32 (drop 1 bytes)) in
           if hd bytes = 1 then
             (let hasToken = odd (bytes ! 33);
                  relayStart = 34 + (if hasToken then 16 else 0)
              in with_relay hex (utf8_decode (drop relayStart bytes)))
           else if hd bytes = 2 \<or> hd bytes = 3 then
             (let (disc, rest) = varint (drop 33 bytes) (Fin 0) 0 in
              if disc = Fin 0 then
                (let (len, rest') = varint rest (Fin 0) 0
                 in with_relay hex (utf8_decode (sub_len len rest')))
              else if disc = Fin 1 then with_relay hex (well_known (fst (varint rest (Fin 0) 0)))
              else None)
           else None))"

subsection \<open>Encoding\<close>

text \<open>\<open>parseInt(s, 16)\<close> (\<open>None\<close> is NaN), and the code unit \<open>String.fromCharCode\<close> makes of it.\<close>

fun hex_prefix :: "jstr \<Rightarrow> nat list" where
  "hex_prefix [] = []"
| "hex_prefix (c # s) = (case hex_val c of Some v \<Rightarrow> v # hex_prefix s | None \<Rightarrow> [])"

definition parseInt16 :: "jstr \<Rightarrow> int option" where
  "parseInt16 str =
     (let s = trim_start str;
          (sg, u) = (if s \<noteq> [] \<and> hd s = 45 then (-1, tl s)
                     else if s \<noteq> [] \<and> hd s = 43 then (1, tl s) else (1, s));
          ds = hex_prefix (if 2 \<le> length u \<and> u ! 0 = 48 \<and> (u ! 1 = 120 \<or> u ! 1 = 88) then drop 2 u else u)
      in if ds = [] then None else Some (sg * foldl (\<lambda>v d. 16 * v + int d) 0 ds))"

definition char_code :: "int option \<Rightarrow> nat" where
  "char_code n = (case n of None \<Rightarrow> 0 | Some i \<Rightarrow> nat (i mod 65536))"

fun len_varint :: "nat \<Rightarrow> nat list" where
  "len_varint n = (if n < 128 then [n] else (n mod 128 + 128) # len_varint (n div 128))"

declare len_varint.simps [simp del]

definition v3_bytes :: "jstr \<Rightarrow> jstr \<Rightarrow> nat list option \<Rightarrow> nat list" where
  "v3_bytes idHex relay tokenBytes =
     (let relayBytes = utf8_encode relay in
      [3] @ map (\<lambda>i. char_code (parseInt16 (take 2 (drop (2 * i) idHex)))) [0..<32] @
      [0] @ len_varint (length relayBytes) @ relayBytes @
      (case tokenBytes of None \<Rightarrow> [0] | Some t \<Rightarrow> 1 # t))"

definition to_url_alphabet :: "nat \<Rightarrow> nat" where
  "to_url_alphabet c = (if c = 43 then 45 else if c = 47 then 95 else c)"

definition strip_pad :: "jstr \<Rightarrow> jstr" where
  "strip_pad s = rev (dropWhile (\<lambda>c. c = 61) (rev s))"

definition v3Connstring :: "jstr \<Rightarrow> jstr \<Rightarrow> nat list option \<Rightarrow> jstr option" where
  "v3Connstring idHex relay tokenBytes =
     map_option (\<lambda>s. strip_pad (map to_url_alphabet s)) (btoa (v3_bytes idHex relay tokenBytes))"

definition tokenlessConnstring :: "jstr \<Rightarrow> jstr \<Rightarrow> jstr option" where
  "tokenlessConnstring idHex relay = v3Connstring idHex relay None"

definition tokenedConnstring :: "jstr \<Rightarrow> jstr \<Rightarrow> nat list \<Rightarrow> jstr option" where
  "tokenedConnstring idHex relay tokenBytes = v3Connstring idHex relay (Some tokenBytes)"

subsection \<open>Encoding and decoding the blob\<close>

lemma to_url_b64: "v < 64 \<Longrightarrow> from_url_alphabet (to_url_alphabet (b64_char v)) = b64_char v"
  by (auto simp: from_url_alphabet_def to_url_alphabet_def b64_char_def)

lemma url_char_plain:
  "v < 64 \<Longrightarrow> \<not> is_ws (to_url_alphabet (b64_char v)) \<and> to_url_alphabet (b64_char v) \<noteq> 61 \<and>
     to_url_alphabet (b64_char v) \<notin> {35, 37, 58}"
  by (auto simp: to_url_alphabet_def b64_char_def is_ws_def)

lemma b64_char_plain: "v < 64 \<Longrightarrow> b64_char v \<notin> {9, 10, 12, 13, 32, 61}"
  by (auto simp: b64_char_def)

lemma strip_pad_append: "61 \<notin> set s \<Longrightarrow> strip_pad (s @ replicate k 61) = s"
  by (cases s rule: rev_cases) (auto simp: strip_pad_def dropWhile_append)

text \<open>The text of a blob, as \<open>v3Connstring\<close> writes it.\<close>

definition blob_text :: "nat list \<Rightarrow> jstr" where
  "blob_text bs = map (\<lambda>v. to_url_alphabet (b64_char v)) (b64_symbols bs)"

lemma blob_text_btoa:
  assumes "is_bytes bs"
  shows "map_option (\<lambda>s. strip_pad (map to_url_alphabet s)) (btoa bs) = Some (blob_text bs)"
proof -
  have "61 \<notin> set (blob_text bs)"
    using b64_symbols_bound[OF assms] url_char_plain by (force simp: blob_text_def list_all_iff)
  moreover have "map to_url_alphabet (map b64_char (b64_symbols bs) @ b64_pad bs) =
      blob_text bs @ replicate ((3 - length bs mod 3) mod 3) 61"
    by (simp add: blob_text_def b64_pad_def to_url_alphabet_def)
  ultimately show ?thesis using assms by (simp add: btoa_def strip_pad_append)
qed

lemma connstring_bytes_blob:
  assumes "is_bytes bs"
  shows "connstring_bytes (blob_text bs) = Some bs"
proof -
  let ?s = "map b64_char (b64_symbols bs)"
  have b: "\<forall>v \<in> set (b64_symbols bs). v < 64" using b64_symbols_bound[OF assms] by (simp add: list_all_iff)
  have "trim (blob_text bs) = blob_text bs"
    using b url_char_plain by (intro trim_no_ws) (auto simp: blob_text_def)
  moreover have "map from_url_alphabet (blob_text bs) = ?s"
    using b by (simp add: blob_text_def to_url_b64)
  moreover have "filter (\<lambda>c. c \<notin> {9, 10, 12, 13, 32}) ?s = ?s"
    using b b64_char_plain by (intro filter_True) fastforce
  moreover have "drop_pad ?s = ?s"
  proof -
    have "61 \<notin> set ?s" using b b64_char_plain by fastforce
    then have "?s = [] \<or> last ?s \<noteq> 61" by (metis last_in_set)
    then show ?thesis by (auto simp: drop_pad_def)
  qed
  moreover have "list_all (\<lambda>c. b64_val c \<noteq> None) ?s" "map (\<lambda>c. the (b64_val c)) ?s = b64_symbols bs"
    using b by (auto simp: list_all_iff b64_val_char o_def intro!: map_idI)
  ultimately show ?thesis
    using length_b64_symbols[of bs] b64_quads_symbols[OF assms]
    by (simp add: connstring_bytes_def atob_def)
qed

subsection \<open>The endpoint id\<close>

definition is_hex :: "nat \<Rightarrow> bool" where
  "is_hex c \<longleftrightarrow> 48 \<le> c \<and> c \<le> 57 \<or> 97 \<le> c \<and> c \<le> 102"

text \<open>An endpoint id: 32 bytes in lower-case hexadecimal.\<close>

definition hex_id :: "jstr \<Rightarrow> bool" where
  "hex_id s \<longleftrightarrow> length s = 64 \<and> list_all is_hex s"

lemma hex_of_bytes_Cons:
  "hex_of_bytes (b # bs) = hex_digit (b div 16) # hex_digit (b mod 16) # hex_of_bytes bs"
  by (simp add: hex_of_bytes_def)

lemma hex_of_bytes_Nil [simp]: "hex_of_bytes [] = []"
  by (simp add: hex_of_bytes_def)

lemma length_hex_of_bytes: "length (hex_of_bytes bs) = 2 * length bs"
  by (induction bs) (simp_all add: hex_of_bytes_Cons)

lemma is_hex_digit: "v < 16 \<Longrightarrow> is_hex (hex_digit v)"
  by (auto simp: is_hex_def hex_digit_def)

lemma hex_of_bytes_hex: "is_bytes bs \<Longrightarrow> list_all is_hex (hex_of_bytes bs)"
  by (induction bs) (auto simp: hex_of_bytes_Cons is_bytes_def intro!: is_hex_digit)

lemma hex_pair:
  assumes "is_hex a" "is_hex b"
  shows "char_code (parseInt16 [a, b]) < 256"
    and "hex_of_bytes [char_code (parseInt16 [a, b])] = [a, b]"
proof -
  obtain x where x: "hex_val a = Some x" "x < 16" "hex_digit x = a"
    using assms(1) by (auto simp: is_hex_def hex_val_def hex_digit_def)
  obtain y where y: "hex_val b = Some y" "y < 16" "hex_digit y = b"
    using assms(2) by (auto simp: is_hex_def hex_val_def hex_digit_def)
  have "\<not> is_ws a" "a \<noteq> 45" "a \<noteq> 43" "b \<noteq> 120" "b \<noteq> 88" using assms by (auto simp: is_hex_def is_ws_def)
  then have "parseInt16 [a, b] = Some (16 * int x + int y)"
    using x y by (simp add: parseInt16_def trim_start_def)
  moreover have "nat ((16 * int x + int y) mod 65536) = x * 16 + y" using x(2) y(2) by simp
  ultimately have c: "char_code (parseInt16 [a, b]) = x * 16 + y" by (simp add: char_code_def)
  show "char_code (parseInt16 [a, b]) < 256" unfolding c using x(2) y(2) by simp
  show "hex_of_bytes [char_code (parseInt16 [a, b])] = [a, b]"
    unfolding c using x y by (simp add: hex_of_bytes_def)
qed

lemma hex_bytes:
  "length s = 2 * n \<Longrightarrow> list_all is_hex s \<Longrightarrow>
     is_bytes (map (\<lambda>i. char_code (parseInt16 (take 2 (drop (2 * i) s)))) [0..<n]) \<and>
     hex_of_bytes (map (\<lambda>i. char_code (parseInt16 (take 2 (drop (2 * i) s)))) [0..<n]) = s"
proof (induction n arbitrary: s)
  case (Suc n)
  then obtain a b t where s: "s = a # b # t" by (cases s; cases "tl s") auto
  with Suc.prems have h: "is_hex a" "is_hex b" "length t = 2 * n" "list_all is_hex t" by auto
  let ?f = "\<lambda>s i. char_code (parseInt16 (take 2 (drop (2 * i) s)))"
  have "map (?f s) [0..<Suc n] = char_code (parseInt16 [a, b]) # map (?f t) [0..<n]"
    by (simp add: upt_conv_Cons s map_Suc_upt[symmetric] del: upt_Suc)
  then show ?case
    using Suc.IH[OF h(3,4)] hex_pair[OF h(1,2)] by (simp add: s is_bytes_def hex_of_bytes_Cons)
qed (simp add: is_bytes_def)

subsection \<open>The length prefix\<close>

lemma varint_len:
  assumes "v + n * 2 ^ s < 2 ^ 1024 - 2 ^ 970" "s < 1024"
  shows "varint (len_varint n @ rest) (Fin v) s = (Fin (v + n * 2 ^ s), rest)"
  using assms
proof (induction n arbitrary: v s rule: len_varint.induct)
  case (1 n)
  have fin: "plus_num (Fin v) (scale m s) = Fin (v + m * 2 ^ s)" if "m \<le> n" for m
  proof -
    have "m * 2 ^ s \<le> n * 2 ^ s" using that by simp
    then have "v + m * 2 ^ s < 2 ^ 1024 - 2 ^ 970" "m * 2 ^ s < 2 ^ 1024 - 2 ^ 970"
      using 1(2) by linarith+
    then show ?thesis using 1(3) by (simp add: scale_def round_fin_def)
  qed
  show ?case
  proof (cases "n < 128")
    case True
    then show ?thesis using fin[of n] by (subst len_varint.simps) simp
  next
    case False
    have nn: "n mod 128 * 2 ^ s + n div 128 * 2 ^ (s + 7) = n * 2 ^ s"
    proof -
      have "n div 128 * 2 ^ (s + 7) = (n div 128 * 128) * (2::nat) ^ s" by (simp add: power_add)
      then show ?thesis by (metis add_mult_distrib mod_div_mult_eq)
    qed
    have lt: "v + n mod 128 * 2 ^ s + n div 128 * 2 ^ (s + 7) < 2 ^ 1024 - 2 ^ 970" using nn 1(2) by linarith
    have "s + 7 < 1024"
    proof (rule ccontr)
      assume "\<not> s + 7 < 1024"
      then have "(2::nat) ^ 1024 \<le> 2 ^ (s + 7)" by (intro power_increasing) auto
      also have "\<dots> \<le> n div 128 * 2 ^ (s + 7)" using False by simp
      finally show False using lt by linarith
    qed
    with 1(1)[OF False lt] show ?thesis using False fin[of "n mod 128"] nn
      by (subst len_varint.simps) (simp add: add.assoc)
  qed
qed

lemma len_varint_bytes: "is_bytes (len_varint n)"
proof (induction n rule: len_varint.induct)
  case (1 n)
  then show ?case by (subst len_varint.simps) (auto simp: is_bytes_def)
qed

subsection \<open>Round trips\<close>

text \<open>A relay the decoder reads back: a non-empty well-formed string without a byte order mark.\<close>

definition relay_ok :: "jstr \<Rightarrow> bool" where
  "relay_ok r \<longleftrightarrow> r \<noteq> [] \<and> well_formed r \<and> hd r \<noteq> 0xFEFF \<and> length (utf8_encode r) < 2 ^ 53"

definition token_ok :: "nat list option \<Rightarrow> bool" where
  "token_ok t \<longleftrightarrow> (case t of None \<Rightarrow> True | Some bs \<Rightarrow> length bs = 16 \<and> is_bytes bs)"

lemma v3_bytes_shape:
  assumes "hex_id i"
  shows "\<exists>k. length k = 32 \<and> is_bytes k \<and> hex_of_bytes k = i \<and>
    v3_bytes i r t = 3 # k @ 0 # len_varint (length (utf8_encode r)) @ utf8_encode r @
      (case t of None \<Rightarrow> [0] | Some t \<Rightarrow> 1 # t)"
proof -
  let ?k = "map (\<lambda>j. char_code (parseInt16 (take 2 (drop (2 * j) i)))) [0..<32]"
  have "is_bytes ?k \<and> hex_of_bytes ?k = i" using assms by (intro hex_bytes) (auto simp: hex_id_def)
  then show ?thesis by (intro exI[of _ ?k]) (simp add: v3_bytes_def Let_def del: upt_rec_numeral)
qed

lemma varint_zero: "varint (0 # bs) (Fin 0) 0 = (Fin 0, bs)"
  by (simp add: scale_def round_fin_def)

text \<open>The string travels as a fragment unharmed.\<close>

lemma blob_text_plain: "is_bytes bs \<Longrightarrow> \<forall>c \<in> set (blob_text bs). \<not> is_ws c \<and> c \<notin> {35, 37, 58}"
  using b64_symbols_bound url_char_plain by (fastforce simp: blob_text_def list_all_iff)

lemma blob_text_fragment:
  assumes "is_bytes bs"
  shows "fragmentValue (js ''#'' @ blob_text bs) = blob_text bs"
    and "trim (blob_text bs) = blob_text bs"
proof -
  note p = blob_text_plain[OF assms]
  then show tr: "trim (blob_text bs) = blob_text bs" by (intro trim_no_ws) auto
  from p have "37 \<notin> set (blob_text bs)" by auto
  then show "fragmentValue (js ''#'' @ blob_text bs) = blob_text bs"
    by (simp add: fragmentValue_def Let_def decode_uri_plain tr)
qed

lemma trim_hash: "trim t = t \<Longrightarrow> t \<noteq> [] \<Longrightarrow> trim (35 # t) = 35 # t"
proof -
  assume t: "trim t = t" "t \<noteq> []"
  have "\<not> is_ws (last t)"
  proof
    assume w: "is_ws (last t)"
    have "length (trim_end (trim_start t)) = length t" using t(1) by (simp add: trim_def)
    moreover have "length (trim_start t) \<le> length t" by (simp add: trim_start_def length_dropWhile_le)
    moreover have "length (trim_end u) \<le> length u" for u
      by (metis trim_end_def length_dropWhile_le length_rev)
    ultimately have "length (trim_start t) = length t" by (metis le_antisym)
    then have "trim_start t = t" using suffix_length_suffix[OF suffix_dropWhile[of is_ws t]]
      by (metis suffix_dropWhile suffix_order.eq_iff suffix_length_suffix trim_start_def le_refl suffix_order.refl)
    with t have "trim_end t = t" by (simp add: trim_def)
    moreover obtain u where "t = u @ [last t]" using t(2) by (metis append_butlast_last_id)
    then have "length (trim_end t) < length t"
      using w by (metis dropWhile.simps(2) length_append_singleton length_dropWhile_le length_rev
          less_Suc_eq_le rev.simps(2) rev_rev_ident rev_append append_Cons append_Nil rev.simps(1) trim_end_def)
    ultimately show False by simp
  qed
  then show ?thesis using t(2) by (intro trim_id) (auto simp: is_ws_def)
qed

lemma v3_roundtrip:
  assumes "hex_id i" "relay_ok r" "token_ok t"
  shows "\<exists>s. v3Connstring i r t = Some s \<and> connstringDetails s = Some (i, r) \<and> endpointIdOf s = Some i \<and>
    connstringFromLocation (js ''#'' @ s) = s \<and> connstringFrom url (Some (js ''#'' @ s)) = s"
proof -
  obtain k where k: "length k = 32" "is_bytes k" "hex_of_bytes k = i"
    and v: "v3_bytes i r t = 3 # k @ 0 # len_varint (length (utf8_encode r)) @ utf8_encode r @
      (case t of None \<Rightarrow> [0] | Some t \<Rightarrow> 1 # t)" (is "_ = ?b")
    using v3_bytes_shape[OF assms(1)] by blast
  have b: "is_bytes ?b"
    using k(2) len_varint_bytes utf8_encode_bytes[of r] assms(2,3)
    by (auto simp: is_bytes_def relay_ok_def token_ok_def split: option.splits)
  let ?s = "blob_text ?b"
  have s: "v3Connstring i r t = Some ?s" using blob_text_btoa[OF b] by (simp add: v3Connstring_def v)
  have "length (utf8_encode r) * 2 ^ 0 + 0 < 2 ^ 1024 - (2::nat) ^ 970"
    using assms(2) by (simp add: relay_ok_def)
  then have vi: "varint (len_varint (length (utf8_encode r)) @ rest) (Fin 0) 0 = (Fin (length (utf8_encode r)), rest)"
    for rest using varint_len[of 0 "length (utf8_encode r)" 0 rest] by simp
  have "utf8_decode (utf8_encode r) = r" using assms(2) by (intro utf8_roundtrip) (auto simp: relay_ok_def)
  then have "connstringDetails ?s = Some (i, r)"
    using assms(2) by (simp add: connstringDetails_def connstring_bytes_blob[OF b] k varint_zero vi
        with_relay_def relay_ok_def del: varint.simps)
  moreover have "endpointIdOf ?s = Some i"
    by (simp add: endpointIdOf_def connstring_bytes_blob[OF b] k)
  moreover have "?s \<noteq> []" by (cases ?b rule: b64_symbols.cases) (auto simp: blob_text_def)
  then have "trim (js ''#'' @ ?s) = js ''#'' @ ?s"
    using trim_hash[OF blob_text_fragment(2)[OF b]] by simp
  then have "connstringFrom url (Some (js ''#'' @ ?s)) = ?s"
    unfolding connstringFrom_def or_empty_simps Let_def
    by (simp only: blob_text_fragment(1)[OF b]) (simp add: starts_with_def)
  ultimately show ?thesis using s blob_text_fragment(1)[OF b] unfolding connstringFromLocation_def by blast
qed

text \<open>Pasted bare, it is taken as it is: it has no colon, so \<open>new URL\<close> throws.\<close>

lemma v3_bare:
  assumes "hex_id i" "relay_ok r" "token_ok t" and s: "v3Connstring i r t = Some s" and "url s = None"
  shows "connstringFrom url (Some s) = s"
proof -
  obtain k where k: "is_bytes k"
    and v: "v3_bytes i r t = 3 # k @ 0 # len_varint (length (utf8_encode r)) @ utf8_encode r @
      (case t of None \<Rightarrow> [0] | Some t \<Rightarrow> 1 # t)" (is "_ = ?b")
    using v3_bytes_shape[OF assms(1)] by blast
  have b: "is_bytes ?b"
    using k len_varint_bytes utf8_encode_bytes[of r] assms(2,3)
    by (auto simp: is_bytes_def relay_ok_def token_ok_def split: option.splits)
  with s have e: "s = blob_text ?b" using blob_text_btoa[OF b] by (simp add: v3Connstring_def v)
  have "35 \<notin> set s" using blob_text_plain[OF b] e by blast
  then have "\<not> starts_with (js ''#'') s" by (cases s) (auto simp: starts_with_def)
  then show ?thesis using blob_text_fragment(2)[OF b] assms(5) by (simp add: connstringFrom_def flip: e)
qed

lemma b64_quads_bytes: "list_all (\<lambda>v. v < 64) vs \<Longrightarrow> is_bytes (b64_quads vs)"
proof (induction vs rule: b64_quads.induct)
  case (1 a b c d r)
  have "a * 4 + b div 16 < 256" "(b mod 16) * 16 + c div 4 < 256" "(c mod 4) * 64 + d < 256"
    using 1(2) by auto
  with 1 show ?case by (simp add: is_bytes_def)
next
  case (2 a b c)
  have "a * 4 + b div 16 < 256" "(b mod 16) * 16 + c div 4 < 256" using 2 by auto
  then show ?case by (simp add: is_bytes_def)
next
  case (3 a b)
  have "a * 4 + b div 16 < 256" using 3 by auto
  then show ?case by (simp add: is_bytes_def)
qed (simp_all add: is_bytes_def)

lemma connstring_bytes_bytes: "connstring_bytes s = Some bs \<Longrightarrow> is_bytes bs"
proof -
  have "the (b64_val c) < 64" if "b64_val c \<noteq> None" for c
    using that by (auto simp: b64_val_def split: if_splits)
  then show "connstring_bytes s = Some bs \<Longrightarrow> is_bytes bs"
    by (auto simp: connstring_bytes_def atob_def Let_def list_all_iff split: if_splits intro!: b64_quads_bytes)
qed

lemma with_relay_SomeD: "with_relay h r = Some (i, r') \<Longrightarrow> i = h \<and> r' = r \<and> r \<noteq> []"
  by (auto simp: with_relay_def split: if_splits)

lemma well_known_well_formed: "well_formed (well_known n)"
proof -
  have "list_all well_formed WELL_KNOWN_RELAYS"
    by (simp add: WELL_KNOWN_RELAYS_def is_high_def is_low_def)
  then show ?thesis by (cases n) (auto simp: list_all_length)
qed

text \<open>What decoding promises of its result, whatever the string.\<close>

lemma connstringDetails_SomeD:
  assumes "connstringDetails s = Some (i, r)"
  shows "endpointIdOf s = Some i" "hex_id i" "r \<noteq> []" "well_formed r"
proof -
  from assms obtain bs where bs: "connstring_bytes s = Some bs" "\<not> length bs < 34"
    by (auto simp: connstringDetails_def split: option.splits if_splits)
  have h: "hd bs = 1 \<or> hd bs = 2 \<or> hd bs = 3" and i: "i = hex_of_bytes (take 32 (drop 1 bs))"
    and r: "r \<noteq> [] \<and> well_formed r"
    using assms bs utf8_decode_well_formed well_known_well_formed
    by (auto simp: connstringDetails_def Let_def split: if_splits prod.splits dest!: with_relay_SomeD)
  have "is_bytes (take 32 (drop 1 bs))"
    using connstring_bytes_bytes[OF bs(1)] by (auto simp: is_bytes_def list_all_iff dest: in_set_takeD in_set_dropD)
  then show "hex_id i" using bs(2) by (simp add: i hex_id_def length_hex_of_bytes hex_of_bytes_hex)
  show "endpointIdOf s = Some i" using bs h i by (auto simp: endpointIdOf_def)
  show "r \<noteq> []" "well_formed r" using r by auto
qed

text \<open>C14: Connection strings round trip. Encoding an endpoint id, a relay and a token (or none) gives
  a string from which the page reads back exactly that id and relay, and the same id for the
  host-key pins: the token changes nothing of what is remembered. The string comes back unchanged
  from a URL fragment, in the address bar or pasted.\<close>

theorem connstring_roundtrip:
  "hex_id i \<Longrightarrow> relay_ok r \<Longrightarrow> token_ok t \<Longrightarrow>
     \<exists>s. v3Connstring i r t = Some s \<and> connstringDetails s = Some (i, r) \<and> endpointIdOf s = Some i \<and>
       connstringFromLocation (js ''#'' @ s) = s \<and> connstringFrom url (Some (js ''#'' @ s)) = s"
  by (rule v3_roundtrip)

lemma example_inputs:
  "hex_id (replicate 64 97)" "relay_ok (js ''https://r'')" "token_ok (Some (replicate 16 7))"
  by (simp_all add: hex_id_def is_hex_def list_all_iff relay_ok_def is_high_def is_low_def utf8_encode_def
      utf8_cp_def token_ok_def is_bytes_def)

lemma connstring_roundtrip_witness:
  "\<exists>s. v3Connstring (replicate 64 97) (js ''https://r'') (Some (replicate 16 7)) = Some s \<and>
     connstringDetails s = Some (replicate 64 97, js ''https://r'') \<and> endpointIdOf s = Some (replicate 64 97)"
  using connstring_roundtrip[OF example_inputs] by blast

text \<open>A card can always be dialled. When the page decodes any connection string, of any format
  version, the id is the one the pins are kept under, and the tokenless string rebuilt from what
  was decoded decodes to the same id and relay (for a relay that does not start with a second byte
  order mark, within the length a string can have).\<close>

theorem card_connstring:
  assumes "connstringDetails s = Some (i, r)" and "hd r \<noteq> 0xFEFF" and "length (utf8_encode r) < 2 ^ 53"
  shows "endpointIdOf s = Some i \<and>
    (\<exists>t. tokenlessConnstring i r = Some t \<and> connstringDetails t = Some (i, r) \<and> endpointIdOf t = endpointIdOf s)"
  using connstringDetails_SomeD[OF assms(1)] assms(2,3) v3_roundtrip[of i r None]
  by (auto simp: relay_ok_def token_ok_def tokenlessConnstring_def)

lemma card_connstring_witness:
  "\<exists>s t. tokenedConnstring (replicate 64 97) (js ''https://r'') (replicate 16 7) = Some s \<and>
     tokenlessConnstring (replicate 64 97) (js ''https://r'') = Some t \<and>
     connstringDetails t = Some (replicate 64 97, js ''https://r'') \<and> endpointIdOf t = endpointIdOf s"
proof -
  obtain s where s: "tokenedConnstring (replicate 64 97) (js ''https://r'') (replicate 16 7) = Some s"
    "connstringDetails s = Some (replicate 64 97, js ''https://r'')"
    using v3_roundtrip[OF example_inputs] unfolding tokenedConnstring_def by blast
  have "hd (js ''https://r'') \<noteq> 0xFEFF" "length (utf8_encode (js ''https://r'')) < 2 ^ 53"
    using example_inputs(2) unfolding relay_ok_def by blast+
  from card_connstring[OF s(2) this] s(1) show ?thesis by blast
qed

end
