(* ===== verification/Token.thy ===== *)
theory Token
  imports Codec
begin

text \<open>
  Pairing tokens as a person retypes them (\<open>decodeToken\<close> of \<^verbatim>\<open>site/boot.mjs\<close>): separators dropped,
  case folded, look-alikes resolved, and 26 symbols of a 32-letter alphabet read as 16 bytes, with
  the 32-bit integer arithmetic of the loop.
\<close>

unbundle bit_operations_syntax

definition TOKEN_ALPHABET :: jstr where
  "TOKEN_ALPHABET = js ''ABCDEFGH9JKLMNOPQRSTUVWXYZ234567''"

text \<open>\<open>[...s]\<close>: the code points of a string, each as its one or two units.\<close>

fun code_points :: "jstr \<Rightarrow> jstr list" where
  "code_points [] = []"
| "code_points [c] = [[c]]"
| "code_points (c # d # s) =
     (if is_high c \<and> is_low d then [c, d] # code_points s else [c] # code_points (d # s))"

text \<open>\<open>/[\s:_-]/.test(c)\<close>\<close>

definition separator :: "nat \<Rightarrow> bool" where
  "separator c \<longleftrightarrow> is_ws c \<or> c = 58 \<or> c = 95 \<or> c = 45"

definition upper :: "jstr \<Rightarrow> jstr" where
  "upper c = (case c of [x] \<Rightarrow> to_upper x | _ \<Rightarrow> c)"

definition fold_symbol :: "jstr \<Rightarrow> jstr" where
  "fold_symbol c =
     (let u = upper c in
      if u = js ''0'' then js ''O'' else if u = js ''1'' \<or> u = js ''I'' then js ''L''
      else if u = js ''8'' then js ''B'' else u)"

definition token_fold :: "jstr option \<Rightarrow> jstr" where
  "token_fold raw =
     concat (map fold_symbol (filter (\<lambda>c. \<not> list_ex separator c) (code_points (or_empty raw))))"

text \<open>\<open>TOKEN_ALPHABET.indexOf(c)\<close>; \<open>None\<close> is a negative index.\<close>

fun index_of :: "nat \<Rightarrow> jstr \<Rightarrow> nat option" where
  "index_of c [] = None"
| "index_of c (x # xs) = (if x = c then Some 0 else map_option Suc (index_of c xs))"

definition symbol_value :: "jstr \<Rightarrow> nat option" where
  "symbol_value c = (case c of [x] \<Rightarrow> index_of x TOKEN_ALPHABET | _ \<Rightarrow> None)"

text \<open>The loop: accumulator, pending bits, bytes so far.\<close>

definition token_step :: "nat \<Rightarrow> 32 word \<times> nat \<times> nat list \<Rightarrow> 32 word \<times> nat \<times> nat list" where
  "token_step v = (\<lambda>(acc, bits, out).
     let acc = push_bit 5 acc OR of_nat v; bits = bits + 5
     in if 8 \<le> bits then (acc, bits - 8, out @ [unat (signed_drop_bit (bits - 8) acc AND 0xff)])
        else (acc, bits, out))"

fun token_loop :: "jstr list \<Rightarrow> 32 word \<times> nat \<times> nat list \<Rightarrow> (32 word \<times> nat \<times> nat list) option" where
  "token_loop [] st = Some st"
| "token_loop (c # cs) st =
     (case symbol_value c of None \<Rightarrow> None | Some v \<Rightarrow> token_loop cs (token_step v st))"

definition decodeToken :: "jstr option \<Rightarrow> nat list option" where
  "decodeToken raw =
     (let folded = token_fold raw in
      if length folded \<noteq> 26 then None
      else case token_loop (code_points folded) (0, 0, []) of
        None \<Rightarrow> None
      | Some (acc, bits, out) \<Rightarrow>
          if length out \<noteq> 16 \<or> acc AND (push_bit bits 1 - 1) \<noteq> 0 then None else Some out)"

subsection \<open>What the token is: 130 bits, big-endian\<close>

definition value_of :: "nat \<Rightarrow> nat list \<Rightarrow> nat" where
  "value_of b ds = foldl (\<lambda>v d. b * v + d) 0 ds"

lemma value_of_snoc [simp]: "value_of b (ds @ [d]) = b * value_of b ds + d"
  by (simp add: value_of_def)

lemma value_of_Nil [simp]: "value_of b [] = 0"
  by (simp add: value_of_def)

text \<open>The 26 symbols the listener prints for 16 bytes.\<close>

definition token_encode :: "nat list \<Rightarrow> jstr" where
  "token_encode bs =
     map (\<lambda>i. TOKEN_ALPHABET ! (4 * value_of 256 bs div 32 ^ (25 - i) mod 32)) [0..<26]"

text \<open>Digits of a number in a base, most significant first: unique for a length.\<close>

lemma value_of_bound: "\<forall>d \<in> set ds. d < b \<Longrightarrow> value_of b ds < b ^ length ds"
proof (induction ds rule: rev_induct)
  case (snoc d ds)
  then have "value_of b ds + 1 \<le> b ^ length ds" "d < b" by auto
  then have "b * (value_of b ds + 1) \<le> b * b ^ length ds" by (intro mult_le_mono) auto
  then show ?case using \<open>d < b\<close> by simp
qed simp

lemma value_of_inj:
  "length ds = length es \<Longrightarrow> \<forall>d \<in> set ds. d < b \<Longrightarrow> \<forall>d \<in> set es. d < b \<Longrightarrow>
     value_of b ds = value_of b es \<Longrightarrow> ds = es"
proof (induction ds arbitrary: es rule: rev_induct)
  case (snoc d ds)
  then obtain e es' where es: "es = es' @ [e]" by (cases es rule: rev_cases) auto
  have eq: "b * value_of b ds + d = b * value_of b es' + e" "d < b" "e < b" using snoc.prems es by auto
  then have "d = e" by (metis mod_less mod_mult_self4)
  with eq have "value_of b ds = value_of b es'" by auto
  with snoc es \<open>d = e\<close> show ?case by auto
qed simp

lemma value_of_digits:
  assumes "v < b ^ n" "0 < b"
  shows "value_of b (map (\<lambda>i. v div b ^ (n - Suc i) mod b) [0..<n]) = v"
  using assms(1)
proof (induction n arbitrary: v)
  case (Suc n)
  have "v div b < b ^ n" using Suc.prems assms(2) by (simp add: div_less_iff_less_mult mult.commute)
  from Suc.IH[OF this]
  have "value_of b (map (\<lambda>i. v div b div b ^ (n - Suc i) mod b) [0..<n]) = v div b" .
  moreover have "v div b div b ^ (n - Suc i) = v div b ^ (Suc n - Suc i)" if "i < n" for i
    using that by (simp add: div_mult2_eq[symmetric] Suc_diff_Suc flip: power_Suc)
  then have "map (\<lambda>i. v div b div b ^ (n - Suc i) mod b) [0..<n] = map (\<lambda>i. v div b ^ (Suc n - Suc i) mod b) [0..<n]"
    by simp
  ultimately show ?case by simp
qed simp

subsection \<open>The loop computes it\<close>

lemma emitted_byte:
  fixes V :: nat
  assumes "k \<le> 24"
  shows "unat (signed_drop_bit k (of_nat V :: 32 word) AND 0xff) = V div 2 ^ k mod 256"
proof -
  have ff: "(0xff :: 32 word) = mask 8" by (simp add: mask_eq_exp_minus_1)
  have "signed_drop_bit k (of_nat V :: 32 word) AND 0xff = take_bit 8 (drop_bit k (of_nat V :: 32 word))"
    unfolding ff using assms
    by (intro bit_word_eqI) (auto simp: bit_simps)
  also have "unat \<dots> = take_bit 8 (drop_bit k (take_bit 32 V))"
    by (simp add: unsigned_take_bit_eq unsigned_drop_bit_eq unsigned_of_nat)
  also have "\<dots> = take_bit 8 (drop_bit k V)"
    using assms by (intro bit_eqI) (auto simp: bit_simps)
  finally show ?thesis by (simp add: take_bit_eq_mod drop_bit_eq_div)
qed

lemma or_add:
  fixes V v :: nat
  assumes "v < 32"
  shows "push_bit 5 V OR v = 32 * V + v"
proof -
  have "v = take_bit 5 v" using assms by (simp add: take_bit_nat_eq_self)
  then have "\<not> bit v n" if "5 \<le> n" for n using that by (metis bit_take_bit_iff not_le)
  then have "push_bit 5 V OR v = push_bit 5 V + v"
    by (intro disjunctive_add[symmetric]) (auto simp: bit_simps not_le)
  then show ?thesis by (simp add: push_bit_eq_mult mult.commute)
qed

definition loop_inv :: "nat list \<Rightarrow> 32 word \<times> nat \<times> nat list \<Rightarrow> bool" where
  "loop_inv vs = (\<lambda>(acc, bits, out).
     acc = of_nat (value_of 32 vs) \<and> bits < 8 \<and> 8 * length out + bits = 5 * length vs \<and>
     is_bytes out \<and> value_of 256 out = value_of 32 vs div 2 ^ bits)"

lemma loop_inv_step:
  assumes "loop_inv vs (acc, bits, out)" "v < 32"
  shows "loop_inv (vs @ [v]) (token_step v (acc, bits, out))"
proof -
  define V W where "V = value_of 32 vs" and "W = 32 * V + v"
  from assms(1) have i: "acc = of_nat V" "bits < 8" "8 * length out + bits = 5 * length vs"
    "is_bytes out" "value_of 256 out = V div 2 ^ bits" by (auto simp: loop_inv_def V_def)
  have acc: "push_bit 5 acc OR of_nat v = of_nat W"
    unfolding i(1) W_def or_add[OF assms(2), symmetric] by (simp add: of_nat_or_eq push_bit_of_nat)
  have val: "value_of 32 (vs @ [v]) = W" by (simp add: V_def W_def)
  have "W div 32 = V" using assms(2) by (simp add: W_def)
  moreover have "(2::nat) ^ (bits + 5) = 32 * 2 ^ bits" by (simp add: power_add)
  ultimately have W: "W div 2 ^ (bits + 5) = V div 2 ^ bits" by (simp add: div_mult2_eq)
  show ?thesis
  proof (cases "8 \<le> bits + 5")
    case True
    then obtain b where b: "bits + 5 = 8 + b" by (auto simp: le_iff_add)
    then have "b \<le> 24" using i(2) by simp
    from emitted_byte[OF this, of W] b have st: "token_step v (acc, bits, out) =
        (of_nat W, b, out @ [W div 2 ^ b mod 256])"
      by (simp add: token_step_def acc)
    have "(2::nat) ^ (bits + 5) = 2 ^ b * 256" by (simp add: b power_add)
    then have "W div 2 ^ (bits + 5) = W div 2 ^ b div 256" by (simp add: div_mult2_eq)
    then have "256 * (V div 2 ^ bits) + W div 2 ^ b mod 256 = W div 2 ^ b"
      unfolding W[symmetric] by simp
    then show ?thesis unfolding st loop_inv_def prod.case val using i b by (simp add: is_bytes_def)
  next
    case False
    then have "token_step v (acc, bits, out) = (of_nat W, bits + 5, out)" by (simp add: token_step_def acc)
    then show ?thesis unfolding loop_inv_def using i W val False by simp
  qed
qed

lemma token_loop_inv:
  "list_all2 (\<lambda>c v. symbol_value c = Some v \<and> v < 32) cs ws \<Longrightarrow> loop_inv vs st \<Longrightarrow>
     \<exists>st'. token_loop cs st = Some st' \<and> loop_inv (vs @ ws) st'"
proof (induction cs ws arbitrary: vs st rule: list_all2_induct)
  case (Cons c cs w ws)
  then have "loop_inv (vs @ [w]) (token_step w st)" by (cases st) (auto intro: loop_inv_step)
  from Cons(3)[OF this] Cons(1) show ?case by auto
qed simp

lemma index_of_Some: "index_of c xs = Some i \<Longrightarrow> i < length xs \<and> xs ! i = c"
  by (induction xs arbitrary: i) (auto split: if_splits)

lemma symbol_value_lt: "symbol_value c = Some v \<Longrightarrow> v < 32 \<and> c = [TOKEN_ALPHABET ! v]"
proof -
  have "length TOKEN_ALPHABET = 32" by (simp add: TOKEN_ALPHABET_def)
  then show "symbol_value c = Some v \<Longrightarrow> v < 32 \<and> c = [TOKEN_ALPHABET ! v]"
    by (auto simp: symbol_value_def split: list.splits dest: index_of_Some)
qed

lemma index_of_distinct: "distinct xs \<Longrightarrow> i < length xs \<Longrightarrow> index_of (xs ! i) xs = Some i"
  by (induction xs arbitrary: i) (auto simp: nth_Cons' less_Suc_eq_0_disj nth_eq_iff_index_eq)

lemma symbol_value_nth: "v < 32 \<Longrightarrow> symbol_value [TOKEN_ALPHABET ! v] = Some v"
proof -
  have "length TOKEN_ALPHABET = 32" "distinct TOKEN_ALPHABET" by (simp_all add: TOKEN_ALPHABET_def)
  then show "v < 32 \<Longrightarrow> symbol_value [TOKEN_ALPHABET ! v] = Some v"
    by (simp add: symbol_value_def index_of_distinct)
qed

lemma token_loop_SomeD:
  "token_loop cs st = Some st' \<Longrightarrow> \<exists>ws. list_all2 (\<lambda>c v. symbol_value c = Some v \<and> v < 32) cs ws"
proof (induction cs arbitrary: st)
  case (Cons c cs)
  then obtain v where v: "symbol_value c = Some v" "token_loop cs (token_step v st) = Some st'"
    by (auto split: option.splits)
  with Cons.IH obtain ws where "list_all2 (\<lambda>c v. symbol_value c = Some v \<and> v < 32) cs ws" by blast
  with v symbol_value_lt show ?case by (intro exI[of _ "v # ws"]) auto
qed auto

text \<open>Symbols of the alphabet are single units.\<close>

lemma concat_code_points: "concat (code_points s) = s"
  by (induction s rule: code_points.induct) auto

lemma code_points_single:
  "\<forall>c \<in> set s. \<not> is_high c \<Longrightarrow> code_points s = map (\<lambda>c. [c]) s"
  by (induction s rule: code_points.induct) auto

lemma alphabet_nth: "v < 32 \<Longrightarrow> \<not> is_high (TOKEN_ALPHABET ! v)"
proof -
  have "list_all (\<lambda>c. \<not> is_high c) TOKEN_ALPHABET" "length TOKEN_ALPHABET = 32"
    by (simp_all add: TOKEN_ALPHABET_def is_high_def)
  then show "v < 32 \<Longrightarrow> \<not> is_high (TOKEN_ALPHABET ! v)" by (simp add: list_all_length)
qed

definition spell :: "nat list \<Rightarrow> jstr" where
  "spell vs = map (\<lambda>v. TOKEN_ALPHABET ! v) vs"

lemma values_spell:
  "list_all2 (\<lambda>c v. symbol_value c = Some v \<and> v < 32) (code_points s) ws \<longleftrightarrow>
     s = spell ws \<and> (\<forall>v \<in> set ws. v < 32)" (is "?L \<longleftrightarrow> ?R")
proof
  assume l: ?L
  then have "code_points s = map (\<lambda>v. [TOKEN_ALPHABET ! v]) ws"
    by (induction rule: list_all2_induct) (auto dest: symbol_value_lt)
  then have "s = spell ws" using concat_code_points[of s] by (simp add: spell_def concat_map_singleton)
  with l show ?R by (auto simp: list_all2_conv_all_nth in_set_conv_nth)
next
  assume r: ?R
  then have "code_points s = map (\<lambda>v. [TOKEN_ALPHABET ! v]) ws"
    by (subst code_points_single) (auto simp: spell_def alphabet_nth)
  with r show ?L by (simp add: list_all2_map1 list.rel_refl_strong symbol_value_nth)
qed

lemma final_bits: "(of_nat V :: 32 word) AND (push_bit 2 1 - 1) = 0 \<longleftrightarrow> V mod 4 = 0"
proof -
  have m: "push_bit 2 1 - 1 = (mask 2 :: 32 word)" by (simp add: mask_eq_exp_minus_1)
  have "(of_nat V :: 32 word) AND mask 2 = of_nat (V mod 4)"
    unfolding take_bit_eq_mask[symmetric] take_bit_eq_mod[of 2 V, simplified, symmetric]
    by (rule bit_word_eqI) (auto simp: bit_simps)
  moreover have "(of_nat (V mod 4) :: 32 word) = 0 \<longleftrightarrow> V mod 4 = 0"
  proof -
    have "V mod 4 < 4" by simp
    then have "V mod 4 < 2 ^ 32" by (rule less_le_trans) simp
    then show ?thesis by (auto simp: word_of_nat_eq_0_iff dest: dvd_imp_le)
  qed
  ultimately show ?thesis unfolding m by simp
qed

lemma spell_inj:
  assumes "\<forall>v \<in> set vs. v < 32" "\<forall>v \<in> set ws. v < 32" "spell vs = spell ws"
  shows "vs = ws"
proof -
  have "map (\<lambda>v. symbol_value [TOKEN_ALPHABET ! v]) vs = map (\<lambda>v. symbol_value [TOKEN_ALPHABET ! v]) ws"
    using arg_cong[OF assms(3), of "map (\<lambda>c. symbol_value [c])"] by (simp add: spell_def o_def)
  moreover have "map (\<lambda>v. symbol_value [TOKEN_ALPHABET ! v]) vs = map Some vs"
    "map (\<lambda>v. symbol_value [TOKEN_ALPHABET ! v]) ws = map Some ws"
    using assms(1,2) by (simp_all add: symbol_value_nth)
  ultimately have "map Some vs = map Some ws" by simp
  then show ?thesis by (simp add: inj_map_eq_map)
qed

lemma token_encode_spell:
  assumes "length ws = 26" "\<forall>v \<in> set ws. v < 32" "length bs = 16" "is_bytes bs"
  shows "spell ws = token_encode bs \<longleftrightarrow> value_of 32 ws = 4 * value_of 256 bs"
proof -
  define V where "V = 4 * value_of 256 bs"
  define ds where "ds = map (\<lambda>i. V div 32 ^ (26 - Suc i) mod 32) [0..<26]"
  have "value_of 256 bs < 256 ^ 16"
    using value_of_bound[of bs 256] assms(3,4) by (simp add: is_bytes_def list_all_iff)
  then have "V < 32 ^ 26" by (simp add: V_def)
  then have v: "value_of 32 ds = V" unfolding ds_def by (rule value_of_digits) simp
  have enc: "token_encode bs = spell ds" by (simp add: token_encode_def spell_def ds_def V_def del: upt_rec_numeral)
  have d: "\<forall>v \<in> set ds. v < 32" "length ds = 26" by (auto simp: ds_def)
  show ?thesis
    unfolding enc V_def[symmetric] v[symmetric]
    using spell_inj[OF assms(2) d(1)] value_of_inj[of ws ds 32] assms(1,2) d by auto
qed

lemma token_loop_spell:
  assumes "length ws = 26" "\<forall>v \<in> set ws. v < 32"
  shows "\<exists>acc out. token_loop (code_points (spell ws)) (0, 0, []) = Some (acc, 2, out) \<and>
    length out = 16 \<and> is_bytes out \<and> value_of 256 out = value_of 32 ws div 4 \<and>
    (acc AND (push_bit 2 1 - 1) = 0 \<longleftrightarrow> value_of 32 ws mod 4 = 0)"
proof -
  have "loop_inv [] (0, 0, [])" by (simp add: loop_inv_def is_bytes_def)
  from token_loop_inv[OF values_spell[THEN iffD2, OF conjI[OF refl assms(2)]] this]
  obtain acc bits out where l: "token_loop (code_points (spell ws)) (0, 0, []) = Some (acc, bits, out)"
    and i: "acc = of_nat (value_of 32 ws)" "bits < 8" "8 * length out + bits = 130" "is_bytes out"
      "value_of 256 out = value_of 32 ws div 2 ^ bits"
    using assms(1) by (fastforce simp: loop_inv_def)
  from i(2,3) have "bits = 2" "length out = 16" by presburger+
  with l i final_bits[of "value_of 32 ws"] show ?thesis by auto
qed

lemma decodeToken_iff:
  "decodeToken raw = Some bs \<longleftrightarrow>
     token_fold raw = token_encode bs \<and> length bs = 16 \<and> is_bytes bs" (is "?L \<longleftrightarrow> ?R")
proof
  assume ?L
  then obtain acc bits out where len: "length (token_fold raw) = 26"
    and l: "token_loop (code_points (token_fold raw)) (0, 0, []) = Some (acc, bits, out)"
    and c: "acc AND (push_bit bits 1 - 1) = 0" and bs: "bs = out"
    by (auto simp: decodeToken_def Let_def split: if_splits option.splits)
  from token_loop_SomeD[OF l] values_spell obtain ws where
    ws: "token_fold raw = spell ws" "\<forall>v \<in> set ws. v < 32" by blast
  then have n: "length ws = 26" using len by (simp add: spell_def)
  from token_loop_spell[OF n ws(2)] l c have o: "length bs = 16" "is_bytes bs"
    "value_of 256 bs = value_of 32 ws div 4" "value_of 32 ws mod 4 = 0" by (auto simp: ws(1) bs)
  then have "value_of 32 ws = 4 * value_of 256 bs" by presburger
  then show ?R using token_encode_spell[OF n ws(2) o(1,2)] o ws(1) by simp
next
  assume r: ?R
  define ds where "ds = map (\<lambda>i. 4 * value_of 256 bs div 32 ^ (25 - i) mod 32) [0..<26]"
  have d: "length ds = 26" "\<forall>v \<in> set ds. v < 32" by (auto simp: ds_def)
  have enc: "token_encode bs = spell ds" by (simp add: token_encode_def spell_def ds_def del: upt_rec_numeral)
  then have v: "value_of 32 ds = 4 * value_of 256 bs" using token_encode_spell[OF d, of bs] r by simp
  from token_loop_spell[OF d] obtain acc out where
    l: "token_loop (code_points (spell ds)) (0, 0, []) = Some (acc, 2, out)"
    and o: "length out = 16" "is_bytes out" "value_of 256 out = value_of 256 bs"
      "acc AND (push_bit 2 1 - 1) = 0" by (auto simp: v)
  have "out = bs" using value_of_inj[of out bs 256] o r by (simp add: is_bytes_def list_all_iff)
  then show ?L using r l o d by (simp add: decodeToken_def enc spell_def)
qed

text \<open>Pairing tokens are read exactly. What a person typed is accepted as 16 bytes if and only
  if, after dropping separators, folding case and resolving look-alikes, it is the 26 symbols the
  listener prints for those bytes; anything else is refused.\<close>

theorem decodeToken_exact:
  "decodeToken raw = Some bs \<longleftrightarrow>
     token_fold raw = token_encode bs \<and> length bs = 16 \<and> is_bytes bs"
  by (rule decodeToken_iff)

subsection \<open>Misreadings\<close>

text \<open>The ways one printed symbol is typed: either case, or a look-alike.\<close>

definition misreadings :: "nat \<Rightarrow> jstr" where
  "misreadings c =
     [c, ascii_lower c] @ (if c = 79 then js ''0'' else if c = 76 then js ''1iI'' else if c = 66 then js ''8'' else [])"

text \<open>A retyping of the printed symbols: each one misread, with separators anywhere.\<close>

fun retyped :: "jstr \<Rightarrow> jstr \<Rightarrow> bool" where
  "retyped cs [] \<longleftrightarrow> cs = []"
| "retyped cs (c' # s) \<longleftrightarrow>
     separator c' \<and> retyped cs s \<or>
     (case cs of [] \<Rightarrow> False | c # cs' \<Rightarrow> c' \<in> set (misreadings c) \<and> retyped cs' s)"

lemma misreading_folds:
  assumes "c \<in> set TOKEN_ALPHABET" "c' \<in> set (misreadings c)"
  shows "fold_symbol [c'] = [c]" "\<not> separator c'" "\<not> is_high c'"
proof -
  have "list_all (\<lambda>c. list_all (\<lambda>c'. fold_symbol [c'] = [c] \<and> \<not> separator c' \<and> \<not> is_high c') (misreadings c))
      TOKEN_ALPHABET"
    by (simp add: TOKEN_ALPHABET_def misreadings_def ascii_lower_def fold_symbol_def upper_def to_upper_def
        separator_def is_high_def special_upper_def)
  with assms show "fold_symbol [c'] = [c]" "\<not> separator c'" "\<not> is_high c'"
    by (auto simp: list_all_iff)
qed

lemma code_points_Cons: "\<not> is_high c \<Longrightarrow> code_points (c # s) = [c] # code_points s"
  by (cases s) auto

lemma separator_not_high: "separator c \<Longrightarrow> \<not> is_high c"
  by (auto simp: separator_def is_ws_def is_high_def)

lemma retyped_folds:
  "retyped cs s \<Longrightarrow> set cs \<subseteq> set TOKEN_ALPHABET \<Longrightarrow> token_fold (Some s) = cs"
proof (induction s arbitrary: cs)
  case (Cons c' s)
  show ?case
  proof (cases "separator c' \<and> retyped cs s")
    case True
    with Cons.IH[of cs] Cons.prems show ?thesis
      by (simp add: token_fold_def code_points_Cons separator_not_high)
  next
    case False
    with Cons.prems obtain c cs' where c: "cs = c # cs'" "c' \<in> set (misreadings c)" "retyped cs' s"
      by (auto split: list.splits)
    with Cons.prems have "c \<in> set TOKEN_ALPHABET" by simp
    from misreading_folds[OF this c(2)] Cons.IH[OF c(3)] Cons.prems c(1) show ?thesis
      by (simp add: token_fold_def code_points_Cons)
  qed
qed (simp add: token_fold_def)

lemma token_encode_alphabet: "set (token_encode bs) \<subseteq> set TOKEN_ALPHABET"
proof -
  have "length TOKEN_ALPHABET = 32" by (simp add: TOKEN_ALPHABET_def)
  then show ?thesis by (auto simp: token_encode_def intro!: nth_mem)
qed

lemma zero_token: "token_encode (replicate 16 0) = js ''AAAAAAAAAAAAAAAAAAAAAAAAAA''"
proof -
  have "value_of 256 (replicate n 0) = 0" for n by (induction n) (simp_all add: value_of_def)
  then have "token_encode (replicate 16 0) = map (\<lambda>i. TOKEN_ALPHABET ! 0) [0..<26]"
    by (simp add: token_encode_def del: upt_rec_numeral)
  also have "\<dots> = js ''AAAAAAAAAAAAAAAAAAAAAAAAAA''" by (simp add: TOKEN_ALPHABET_def upt_conv_Cons)
  finally show ?thesis .
qed

text \<open>C21: A token survives retyping. However the printed token is retyped (lower case, the classic
  misreadings \<open>0\<close> for \<open>O\<close>, \<open>1\<close>, \<open>i\<close> or \<open>I\<close> for \<open>L\<close>, \<open>8\<close> for \<open>B\<close>, and white space, colons, dashes or
  underscores anywhere), it decodes to the 16 bytes it was printed for.\<close>

theorem retyped_token_decodes:
  assumes "length bs = 16" "is_bytes bs" "retyped (token_encode bs) s"
  shows "decodeToken (Some s) = Some bs"
  using decodeToken_iff retyped_folds[OF assms(3) token_encode_alphabet] assms(1,2) by simp

lemma retyped_token_decodes_witness:
  "decodeToken (Some (js ''aaaaaa-AAAAAA:AAAAAA AAAAAAAA'')) = Some (replicate 16 0)"
proof (rule retyped_token_decodes)
  show "length (replicate 16 (0::nat)) = 16" by simp
  show "is_bytes (replicate 16 0)" by (simp add: is_bytes_def list_all_iff)
  show "retyped (token_encode (replicate 16 0)) (js ''aaaaaa-AAAAAA:AAAAAA AAAAAAAA'')"
    unfolding zero_token by (simp add: misreadings_def ascii_lower_def separator_def)
qed

end
