(* ===== verification/WebStorage.thy ===== *)
theory WebStorage
  imports Prelude
begin

text \<open>
  The page's persistent state in \<open>localStorage\<close> and the preferences and host-key pins of
  \<^verbatim>\<open>site/boot.mjs\<close> and \<^verbatim>\<open>site/links.mjs\<close> that live in it.

  A stored string is kept as what reading it gives: \<open>Json j\<close> is a text that \<open>JSON.parse\<close> turns
  into \<open>j\<close> (what \<open>JSON.stringify j\<close> wrote, or any other spelling of it), \<open>Text s\<close> a text it rejects, the
  one the preferences compare verbatim (no preference value is a JSON text). Access may throw, as
  in private mode or over quota: an operation that throws returns \<open>None\<close>.
\<close>

subsection \<open>JSON values\<close>

datatype json = JNull | JBool bool | JNum rat | JStr jstr | JArr "json list" | JObj "(jstr \<times> json) list"

text \<open>Property read, write and \<open>delete\<close>. An array has no named properties that survive
  serialisation, so writing one is lost.\<close>

fun jget :: "json \<Rightarrow> jstr \<Rightarrow> json option" where
  "jget (JObj ps) k = map_of ps k"
| "jget _ k = None"

primrec put_prop :: "jstr \<Rightarrow> json \<Rightarrow> (jstr \<times> json) list \<Rightarrow> (jstr \<times> json) list" where
  "put_prop k v [] = [(k, v)]"
| "put_prop k v (p # ps) = (if fst p = k then (k, v) # ps else p # put_prop k v ps)"

fun jset :: "jstr \<Rightarrow> json \<Rightarrow> json \<Rightarrow> json" where
  "jset k v (JObj ps) = JObj (put_prop k v ps)"
| "jset k v j = j"

fun jdel :: "jstr \<Rightarrow> json \<Rightarrow> json" where
  "jdel k (JObj ps) = JObj (filter (\<lambda>p. fst p \<noteq> k) ps)"
| "jdel k j = j"

fun truthy :: "json \<Rightarrow> bool" where
  "truthy JNull \<longleftrightarrow> False"
| "truthy (JBool b) \<longleftrightarrow> b"
| "truthy (JNum n) \<longleftrightarrow> n \<noteq> 0"
| "truthy (JStr s) \<longleftrightarrow> s \<noteq> []"
| "truthy _ \<longleftrightarrow> True"

text \<open>\<open>v && typeof v === "object"\<close>: an object or an array, and not null.\<close>

fun is_object :: "json \<Rightarrow> bool" where
  "is_object (JArr _) \<longleftrightarrow> True"
| "is_object (JObj _) \<longleftrightarrow> True"
| "is_object _ \<longleftrightarrow> False"

fun is_bool :: "json \<Rightarrow> bool" where
  "is_bool (JBool _) \<longleftrightarrow> True"
| "is_bool _ \<longleftrightarrow> False"

lemma map_of_put_prop: "map_of (put_prop k v ps) k' = (if k' = k then Some v else map_of ps k')"
  by (induction ps) auto

lemma map_of_filter_fst: "map_of (filter (\<lambda>p. fst p \<noteq> k) ps) k' = (if k' = k then None else map_of ps k')"
  by (induction ps) auto

lemma jget_jset [page_simps]:
  "jget (jset k v j) k' = (if k' = k \<and> (\<exists>ps. j = JObj ps) then Some v else jget j k')"
  by (cases j) (auto simp: map_of_put_prop)

lemma jget_jdel [page_simps]: "jget (jdel k j) k' = (if k' = k then None else jget j k')"
  by (cases j) (auto simp: map_of_filter_fst)

lemma is_object_jset [simp]: "is_object (jset k v j) = is_object j"
  by (cases j) auto

lemma is_object_jdel [simp]: "is_object (jdel k j) = is_object j"
  by (cases j) auto

subsection \<open>The store\<close>

datatype stored = Text jstr | Json json

record storage =
  can_read :: bool
  can_write :: bool
  items :: "jstr \<Rightarrow> stored option"

definition getItem :: "storage \<Rightarrow> jstr \<Rightarrow> stored option option" where
  "getItem st k = (if can_read st then Some (items st k) else None)"

definition setItem :: "jstr \<Rightarrow> stored \<Rightarrow> storage \<Rightarrow> storage option" where
  "setItem k v st =
     (if can_read st \<and> can_write st then Some (st\<lparr>items := (items st)(k \<mapsto> v)\<rparr>) else None)"

definition removeItem :: "jstr \<Rightarrow> storage \<Rightarrow> storage option" where
  "removeItem k st = (if can_read st then Some (st\<lparr>items := (items st)(k := None)\<rparr>) else None)"

text \<open>\<open>try { ... } catch { }\<close> around a write: the store stays as it was.\<close>

definition attempt :: "storage \<Rightarrow> storage option \<Rightarrow> storage" where
  "attempt st r = (case r of None \<Rightarrow> st | Some st' \<Rightarrow> st')"

text \<open>\<open>JSON.parse(localStorage.getItem(k) ?? dflt)\<close>; \<open>None\<close> where it throws.\<close>

definition parseItem :: "storage \<Rightarrow> jstr \<Rightarrow> json \<Rightarrow> json option" where
  "parseItem st k dflt =
     (case getItem st k of
        None \<Rightarrow> None
      | Some None \<Rightarrow> Some dflt
      | Some (Some (Json j)) \<Rightarrow> Some j
      | Some (Some (Text _)) \<Rightarrow> None)"

subsection \<open>Preferences\<close>

definition SCROLLBACK_KEY :: jstr where "SCROLLBACK_KEY = js ''wosh.scrollback.v1''"
definition LINKS_KEY :: jstr where "LINKS_KEY = js ''wosh.links.v1''"
definition REMEMBER_KEY :: jstr where "REMEMBER_KEY = js ''wosh.remember.v1''"

definition scrollbackEnabled :: "storage \<Rightarrow> bool" where
  "scrollbackEnabled st =
     (case getItem st SCROLLBACK_KEY of None \<Rightarrow> True | Some v \<Rightarrow> v \<noteq> Some (Text (js ''off'')))"

definition setScrollbackEnabled :: "bool \<Rightarrow> storage \<Rightarrow> storage" where
  "setScrollbackEnabled on st =
     attempt st (setItem SCROLLBACK_KEY (Text (if on then js ''on'' else js ''off'')) st)"

definition linksDirect :: "storage \<Rightarrow> bool" where
  "linksDirect st =
     (case getItem st LINKS_KEY of None \<Rightarrow> False | Some v \<Rightarrow> v = Some (Text (js ''open'')))"

definition setLinksDirect :: "bool \<Rightarrow> storage \<Rightarrow> storage" where
  "setLinksDirect on st =
     attempt st (if on then setItem LINKS_KEY (Text (js ''open'')) st else removeItem LINKS_KEY st)"

definition rememberEnabled :: "storage \<Rightarrow> bool" where
  "rememberEnabled st =
     (case getItem st REMEMBER_KEY of None \<Rightarrow> True | Some v \<Rightarrow> v \<noteq> Some (Text (js ''off'')))"

definition setRememberEnabled :: "bool \<Rightarrow> storage \<Rightarrow> storage" where
  "setRememberEnabled on st =
     attempt st (setItem REMEMBER_KEY (Text (if on then js ''on'' else js ''off'')) st)"

subsection \<open>Host-key pins\<close>

definition PINS_KEY :: jstr where "PINS_KEY = js ''wosh.hostkeys.v1''"

definition loadPins :: "storage \<Rightarrow> json" where
  "loadPins st =
     (case parseItem st PINS_KEY (JObj []) of
        Some pins \<Rightarrow> if is_object pins then pins else JObj []
      | None \<Rightarrow> JObj [])"

definition savePin :: "jstr \<Rightarrow> jstr \<Rightarrow> jstr \<Rightarrow> storage \<Rightarrow> storage" where
  "savePin now endpointId fp st =
     attempt st (setItem PINS_KEY
       (Json (jset endpointId (JObj [(js ''fp'', JStr fp), (js ''at'', JStr now)]) (loadPins st))) st)"

definition removePin :: "jstr \<Rightarrow> storage \<Rightarrow> storage" where
  "removePin endpointId st =
     attempt st (setItem PINS_KEY (Json (jdel endpointId (loadPins st))) st)"

text \<open>\<open>loadPins()[id]?.fp\<close>, as the host-key prompt reads it.\<close>

definition pinnedFp :: "storage \<Rightarrow> jstr \<Rightarrow> json option" where
  "pinnedFp st i = Option.bind (jget (loadPins st) i) (\<lambda>p. jget p (js ''fp''))"

subsection \<open>One slot of the store\<close>

text \<open>
  What the clients of a key rely on: a reader that may fail, a writer whose failure is silent, and
  a test of whether writing works. Read-modify-write is how every client updates its key.
\<close>

locale slot =
  fixes usable :: "'s \<Rightarrow> bool" and fetch :: "'s \<Rightarrow> 'v option" and put :: "'v \<Rightarrow> 's \<Rightarrow> 's"
  assumes read_write: "usable s \<Longrightarrow> fetch (put v s) = Some v"
    and usable_write: "usable (put v s) = usable s"
    and refused: "\<not> usable s \<Longrightarrow> put v s = s"
begin

lemma read_write_any: "fetch (put v s) = (if usable s then Some v else fetch s)"
  by (simp add: read_write refused)

lemma last_write_wins: "usable s \<Longrightarrow> fetch (put v (put w s)) = Some v"
  by (simp add: read_write usable_write)

text \<open>A run of updates \<open>v \<mapsto> f v\<close> leaves what the functions make of the first value, in order.\<close>

lemma read_updates:
  assumes "usable s" "fetch s = Some v"
  shows "fetch (foldl (\<lambda>s f. case fetch s of Some v \<Rightarrow> put (f v) s | None \<Rightarrow> s) s fs) = Some (foldl (\<lambda>v f. f v) v fs)"
  using assms
proof (induction fs arbitrary: s v)
  case (Cons f fs)
  then show ?case using Cons.IH[of "put (f v) s" "f v"] by (simp add: read_write usable_write)
qed simp

end

definition storage_usable :: "storage \<Rightarrow> bool" where
  "storage_usable st \<longleftrightarrow> can_read st \<and> can_write st"

definition writeJson :: "jstr \<Rightarrow> json \<Rightarrow> storage \<Rightarrow> storage" where
  "writeJson k j st = attempt st (setItem k (Json j) st)"

lemma attempt_simps [simp]: "attempt st None = st" "attempt st (Some st') = st'"
  by (simp_all add: attempt_def)

lemma json_slot: "slot storage_usable (\<lambda>st. parseItem st k d) (writeJson k)"
  by unfold_locales (auto simp: storage_usable_def writeJson_def setItem_def parseItem_def getItem_def)

text \<open>Keys do not interfere.\<close>

lemma parseItem_other: "k' \<noteq> k \<Longrightarrow> parseItem (writeJson k j st) k' d = parseItem st k' d"
  by (auto simp: writeJson_def setItem_def parseItem_def getItem_def)

interpretation pins: slot storage_usable "\<lambda>st. parseItem st PINS_KEY (JObj [])" "writeJson PINS_KEY"
  by (rule json_slot)

subsection \<open>Facts about the pins\<close>

lemma is_object_loadPins [simp]: "is_object (loadPins st)"
  by (auto simp: loadPins_def split: option.splits)

lemma loadPins_write:
  "storage_usable st \<Longrightarrow> is_object j \<Longrightarrow> loadPins (writeJson PINS_KEY j st) = j"
  by (simp add: loadPins_def pins.read_write)

lemma savePin_write:
  "savePin now i fp st =
     writeJson PINS_KEY (jset i (JObj [(js ''fp'', JStr fp), (js ''at'', JStr now)]) (loadPins st)) st"
  by (simp add: savePin_def writeJson_def)

lemma removePin_write: "removePin i st = writeJson PINS_KEY (jdel i (loadPins st)) st"
  by (simp add: removePin_def writeJson_def)

text \<open>A store that takes writes, and whose pins are not an array.\<close>

definition pins_usable :: "storage \<Rightarrow> bool" where
  "pins_usable st \<longleftrightarrow> storage_usable st \<and> (case loadPins st of JObj _ \<Rightarrow> True | _ \<Rightarrow> False)"

lemma pinnedFp_savePin [page_simps]:
  "pins_usable st \<Longrightarrow>
     pinnedFp (savePin now i fp st) i' = (if i' = i then Some (JStr fp) else pinnedFp st i')"
  by (auto simp: pins_usable_def savePin_write pinnedFp_def loadPins_write map_of_put_prop split: json.splits)

lemma pinnedFp_removePin [page_simps]:
  "storage_usable st \<Longrightarrow> pinnedFp (removePin i st) i' = (if i' = i then None else pinnedFp st i')"
  by (simp add: removePin_write pinnedFp_def loadPins_write jget_jdel)

lemma pins_usable_savePin [page_inv]: "pins_usable st \<Longrightarrow> pins_usable (savePin now i fp st)"
  by (auto simp: pins_usable_def savePin_write pins.usable_write loadPins_write split: json.splits)

lemma pinnedFp_savePin_other:
  "i' \<noteq> i \<Longrightarrow> pinnedFp (savePin now i fp st) i' = pinnedFp st i'"
  by (cases "storage_usable st")
    (simp_all add: savePin_write pinnedFp_def loadPins_write jget_jset pins.refused)

end
