(* ===== verification/History.thy ===== *)
theory History
  imports WebStorage
begin

text \<open>
  The connection history of \<^verbatim>\<open>site/boot.mjs\<close>: the list of cards in \<open>localStorage\<close>, its one reader, which
  coerces what it finds, and its writers. Entries are JSON values, as the code handles them; a
  missing optional field is a missing property.
\<close>

definition HISTORY_KEY :: jstr where "HISTORY_KEY = js ''wosh.history.v1''"
definition HISTORY_CAP :: nat where "HISTORY_CAP = 20"

definition METHODS :: "jstr list" where
  "METHODS = [js ''auto'', js ''publickey'', js ''passkey'', js ''password'', js ''keyboard-interactive'']"

text \<open>The names of the properties of an entry.\<close>

definition fid :: jstr where "fid = js ''id''"
definition frelay :: jstr where "frelay = js ''relay''"
definition fuser :: jstr where "fuser = js ''user''"
definition fat :: jstr where "fat = js ''at''"
definition fname :: jstr where "fname = js ''name''"
definition fcommand :: jstr where "fcommand = js ''command''"
definition fmethod :: jstr where "fmethod = js ''method''"
definition fauto :: jstr where "fauto = js ''autoResume''"
definition ftools :: jstr where "ftools = js ''tools''"
definition ftoolsAt :: jstr where "ftoolsAt = js ''toolsAt''"

lemma fields_distinct: "distinct [fid, frelay, fuser, fat, fname, fcommand, fmethod, fauto, ftools, ftoolsAt]"
  by (simp add: fid_def frelay_def fuser_def fat_def fname_def fcommand_def fmethod_def fauto_def ftools_def ftoolsAt_def)

lemmas fields_neq [simp] = fields_distinct[simplified distinct.simps list.set insert_iff empty_iff not_False_eq_True
  simp_thms de_Morgan_disj]

lemma fields_neq_sym [simp]:
  "frelay \<noteq> fid" "fuser \<noteq> fid" "fat \<noteq> fid" "fname \<noteq> fid" "fcommand \<noteq> fid" "fmethod \<noteq> fid" "fauto \<noteq> fid" "ftools \<noteq> fid" "ftoolsAt \<noteq> fid" "fuser \<noteq> frelay" "fat \<noteq> frelay" "fname \<noteq> frelay" "fcommand \<noteq> frelay" "fmethod \<noteq> frelay" "fauto \<noteq> frelay" "ftools \<noteq> frelay" "ftoolsAt \<noteq> frelay" "fat \<noteq> fuser" "fname \<noteq> fuser" "fcommand \<noteq> fuser" "fmethod \<noteq> fuser" "fauto \<noteq> fuser" "ftools \<noteq> fuser" "ftoolsAt \<noteq> fuser" "fname \<noteq> fat" "fcommand \<noteq> fat" "fmethod \<noteq> fat" "fauto \<noteq> fat" "ftools \<noteq> fat" "ftoolsAt \<noteq> fat" "fcommand \<noteq> fname" "fmethod \<noteq> fname" "fauto \<noteq> fname" "ftools \<noteq> fname" "ftoolsAt \<noteq> fname" "fmethod \<noteq> fcommand" "fauto \<noteq> fcommand" "ftools \<noteq> fcommand" "ftoolsAt \<noteq> fcommand" "fauto \<noteq> fmethod" "ftools \<noteq> fmethod" "ftoolsAt \<noteq> fmethod" "ftools \<noteq> fauto" "ftoolsAt \<noteq> fauto" "ftoolsAt \<noteq> ftools"
  using fields_neq by metis+

subsection \<open>The reader\<close>

fun good_command :: "json option \<Rightarrow> bool" where
  "good_command (Some (JStr s)) \<longleftrightarrow> s \<noteq> []"
| "good_command _ \<longleftrightarrow> False"

fun good_name :: "json option \<Rightarrow> bool" where
  "good_name (Some (JStr s)) \<longleftrightarrow> trim s \<noteq> []"
| "good_name _ \<longleftrightarrow> False"

fun good_method :: "json option \<Rightarrow> bool" where
  "good_method (Some (JStr s)) \<longleftrightarrow> s \<in> set METHODS \<and> s \<noteq> js ''auto''"
| "good_method _ \<longleftrightarrow> False"

text \<open>\<open>tools\<close>: an object, not an array, all of whose values are booleans.\<close>

fun good_tools :: "json option \<Rightarrow> bool" where
  "good_tools (Some (JObj ps)) \<longleftrightarrow> list_all (\<lambda>p. is_bool (snd p)) ps"
| "good_tools _ \<longleftrightarrow> False"

fun is_num :: "json option \<Rightarrow> bool" where
  "is_num (Some (JNum _)) \<longleftrightarrow> True"
| "is_num _ \<longleftrightarrow> False"

fun is_true :: "json option \<Rightarrow> bool" where
  "is_true (Some (JBool b)) \<longleftrightarrow> b"
| "is_true _ \<longleftrightarrow> False"

text \<open>\<open>if (!ok(e.k)) delete e.k\<close>\<close>

definition keep :: "(json option \<Rightarrow> bool) \<Rightarrow> jstr \<Rightarrow> json \<Rightarrow> json" where
  "keep P k e = (if P (jget e k) then e else jdel k e)"

definition coerce_entry :: "json \<Rightarrow> json" where
  "coerce_entry e =
     (let e4 = keep is_true fauto (keep good_method fmethod (keep good_name fname (keep good_command fcommand e)));
          e5 = (if good_tools (jget e4 ftools) then e4 else jdel ftoolsAt (jdel ftools e4))
      in keep is_num ftoolsAt e5)"

definition loadHistory :: "storage \<Rightarrow> json list" where
  "loadHistory st =
     (case parseItem st HISTORY_KEY (JArr []) of
        Some (JArr es) \<Rightarrow> map coerce_entry (filter is_object es)
      | _ \<Rightarrow> [])"

definition saveHistory :: "json list \<Rightarrow> storage \<Rightarrow> storage" where
  "saveHistory entries st = writeJson HISTORY_KEY (JArr (take HISTORY_CAP entries)) st"

subsection \<open>The writers\<close>

definition is_entry :: "jstr \<Rightarrow> jstr \<Rightarrow> json \<Rightarrow> bool" where
  "is_entry i user e \<longleftrightarrow> jget e fid = Some (JStr i) \<and> jget e fuser = Some (JStr user)"

definition find_entry :: "storage \<Rightarrow> jstr \<Rightarrow> jstr \<Rightarrow> json option" where
  "find_entry st i user = List.find (is_entry i user) (loadHistory st)"

text \<open>A property read of a value that may be absent: \<open>prior?.k\<close>\<close>

definition opt_get :: "json option \<Rightarrow> jstr \<Rightarrow> json option" where
  "opt_get e k = Option.bind e (\<lambda>j. jget j k)"

definition opt_truthy :: "json option \<Rightarrow> bool" where
  "opt_truthy v = (case v of None \<Rightarrow> False | Some j \<Rightarrow> truthy j)"

text \<open>The entry \<open>recordConnection\<close> builds: its fields in the order they are assigned. A command of
  \<open>None\<close> or the empty string is falsy, and so is a method.\<close>

definition optional :: "bool \<Rightarrow> jstr \<Rightarrow> json \<Rightarrow> (jstr \<times> json) list \<Rightarrow> (jstr \<times> json) list" where
  "optional b k v ps = (if b then (k, v) # ps else ps)"

lemma map_of_optional [simp]:
  "map_of (optional b k v ps) k' = (if b \<and> k' = k then Some v else map_of ps k')"
  by (simp add: optional_def)

definition record_entry ::
  "json option \<Rightarrow> jstr \<Rightarrow> jstr \<Rightarrow> jstr \<Rightarrow> jstr \<Rightarrow> jstr \<Rightarrow> jstr \<Rightarrow> bool option \<Rightarrow> json" where
  "record_entry prior now i relay user command method autoResume =
     (let name = opt_get prior fname; tools = opt_get prior ftools; toolsAt = opt_get prior ftoolsAt in
      JObj ((fid, JStr i) # (frelay, JStr relay) # (fuser, JStr user) # (fat, JStr now) #
        optional (opt_truthy name) fname (the name)
        (optional (opt_truthy tools) ftools (the tools)
        (optional (opt_truthy tools \<and> is_num toolsAt) ftoolsAt (the toolsAt)
        (optional (command \<noteq> []) fcommand (JStr command)
        (optional (method \<noteq> [] \<and> method \<noteq> js ''auto'') fmethod (JStr method)
        (optional (case autoResume of None \<Rightarrow> is_true (opt_get prior fauto) | Some b \<Rightarrow> b) fauto (JBool True)
        [])))))))"

definition recordConnection ::
  "jstr \<Rightarrow> jstr \<Rightarrow> jstr \<Rightarrow> jstr \<Rightarrow> jstr \<Rightarrow> jstr \<Rightarrow> bool option \<Rightarrow> storage \<Rightarrow> storage" where
  "recordConnection now i relay user command method autoResume st =
     (let prior = find_entry st i user;
          rest = filter (\<lambda>e. \<not> is_entry i user e) (loadHistory st)
      in saveHistory (record_entry prior now i relay user command method autoResume # rest) st)"

text \<open>\<open>Object.assign(hit, patch)\<close>; a property of value undefined disappears when the list is saved.\<close>

definition assign :: "(jstr \<times> json option) list \<Rightarrow> json \<Rightarrow> json" where
  "assign patch e =
     foldl (\<lambda>j (k, v). case v of Some x \<Rightarrow> jset k x j | None \<Rightarrow> jdel k j) e patch"

primrec update_first :: "('a \<Rightarrow> bool) \<Rightarrow> ('a \<Rightarrow> 'a) \<Rightarrow> 'a list \<Rightarrow> 'a list" where
  "update_first P f [] = []"
| "update_first P f (x # xs) = (if P x then f x # xs else x # update_first P f xs)"

definition updateConnection :: "jstr \<Rightarrow> jstr \<Rightarrow> (jstr \<times> json option) list \<Rightarrow> storage \<Rightarrow> storage" where
  "updateConnection i user patch st =
     (if find_entry st i user = None then st
      else saveHistory (update_first (is_entry i user) (assign patch) (loadHistory st)) st)"

definition clearStoredCommand :: "jstr \<Rightarrow> jstr \<Rightarrow> storage \<Rightarrow> storage" where
  "clearStoredCommand i user st =
     saveHistory (map (\<lambda>e. if is_entry i user e then jdel fcommand e else e) (loadHistory st)) st"

definition removeConnection :: "jstr \<Rightarrow> jstr \<Rightarrow> storage \<Rightarrow> storage" where
  "removeConnection i user st =
     saveHistory (filter (\<lambda>e. \<not> is_entry i user e) (loadHistory st)) st"

text \<open>\<open>labelOf\<close>: the nickname, or the id's first eight characters (question marks when there is no
  id) and an ellipsis. Names and ids are strings wherever the page calls it.\<close>

fun json_text :: "json option \<Rightarrow> jstr option" where
  "json_text (Some (JStr s)) = Some s"
| "json_text _ = None"

definition labelOf :: "json option \<Rightarrow> jstr" where
  "labelOf entry =
     (case json_text (opt_get entry fname) of
        Some (c # s) \<Rightarrow> c # s
      | _ \<Rightarrow> (case json_text (opt_get entry fid) of
                None \<Rightarrow> js ''????????'' | Some i \<Rightarrow> take 8 i) @ [0x2026])"

text \<open>\<open>relTime\<close>: how long ago, or the \<open>NaN d ago\<close> of a time that does not parse.\<close>

datatype age = JustNow | Minutes int | Hours int | Days int | NaNDays

definition relTime :: "rat \<Rightarrow> rat option \<Rightarrow> age" where
  "relTime now_ms at_ms =
     (case at_ms of
        None \<Rightarrow> NaNDays
      | Some at_ms \<Rightarrow>
         (let s = max 0 ((now_ms - at_ms) / 1000) in
          if s < 60 then JustNow else if s < 3600 then Minutes \<lfloor>s / 60\<rfloor>
          else if s < 172800 then Hours \<lfloor>s / 3600\<rfloor> else Days \<lfloor>s / 86400\<rfloor>))"

interpretation history: slot storage_usable "\<lambda>st. parseItem st HISTORY_KEY (JArr [])" "writeJson HISTORY_KEY"
  by (rule json_slot)

subsection \<open>What the reader lets through\<close>

definition entry_ok :: "json \<Rightarrow> bool" where
  "entry_ok e \<longleftrightarrow>
     is_object e \<and>
     (jget e fcommand = None \<or> good_command (jget e fcommand)) \<and>
     (jget e fname = None \<or> good_name (jget e fname)) \<and>
     (jget e fmethod = None \<or> good_method (jget e fmethod)) \<and>
     (jget e fauto = None \<or> is_true (jget e fauto)) \<and>
     (jget e ftools = None \<or> good_tools (jget e ftools)) \<and>
     (jget e ftoolsAt = None \<or> is_num (jget e ftoolsAt) \<and> good_tools (jget e ftools))"

lemma good_None [simp]: "\<not> good_tools None" "\<not> is_num None" "\<not> good_command None" "\<not> good_name None"
  "\<not> good_method None" "\<not> is_true None"
  by simp_all

lemma jdel_absent: "jget e k = None \<Longrightarrow> jdel k e = e"
  by (cases e) (auto simp: map_of_eq_None_iff filter_id_conv image_iff)

lemma jget_keep: "jget (keep P k e) k' =
    (if k' = k then (if P (jget e k) then jget e k else None) else jget e k')"
  by (simp add: keep_def jget_jdel)

lemma keep_id: "jget e k = None \<or> P (jget e k) \<Longrightarrow> keep P k e = e"
  by (auto simp: keep_def jdel_absent)

lemma is_object_keep [simp]: "is_object (keep P k e) = is_object e"
  by (simp add: keep_def)

lemma jget_coerce:
  "jget (coerce_entry e) k =
     (if k = ftoolsAt then (if good_tools (jget e ftools) \<and> is_num (jget e ftoolsAt) then jget e ftoolsAt else None)
      else if k = ftools then (if good_tools (jget e ftools) then jget e ftools else None)
      else if k = fauto then (if is_true (jget e fauto) then jget e fauto else None)
      else if k = fmethod then (if good_method (jget e fmethod) then jget e fmethod else None)
      else if k = fname then (if good_name (jget e fname) then jget e fname else None)
      else if k = fcommand then (if good_command (jget e fcommand) then jget e fcommand else None)
      else jget e k)"
  by (simp add: coerce_entry_def Let_def jget_keep jget_jdel del: good_tools.simps)

lemma is_object_coerce [simp]: "is_object (coerce_entry e) = is_object e"
  by (simp add: coerce_entry_def Let_def)

lemma coerce_entry_ok: "is_object e \<Longrightarrow> entry_ok (coerce_entry e)"
  by (simp add: entry_ok_def jget_coerce del: good_tools.simps)

lemma coerce_entry_id: "entry_ok e \<Longrightarrow> coerce_entry e = e"
  by (auto simp: entry_ok_def coerce_entry_def Let_def keep_id jdel_absent simp del: good_tools.simps)

lemma loadHistory_ok: "list_all entry_ok (loadHistory st)"
  by (auto simp: loadHistory_def list_all_iff coerce_entry_ok split: option.splits json.splits)

lemma load_save:
  assumes "storage_usable st" "list_all entry_ok es"
  shows "loadHistory (saveHistory es st) = take HISTORY_CAP es"
proof -
  have "map coerce_entry (filter is_object (take HISTORY_CAP es)) = take HISTORY_CAP es"
    using assms(2) by (subst filter_True; fastforce simp: list_all_iff entry_ok_def coerce_entry_id
        intro!: map_idI dest: in_set_takeD)
  with assms(1) show ?thesis by (simp add: saveHistory_def loadHistory_def history.read_write)
qed

lemma save_refused: "\<not> storage_usable st \<Longrightarrow> saveHistory es st = st"
  by (simp add: saveHistory_def history.refused)

subsection \<open>What the writers keep\<close>

lemma load_save_any:
  "loadHistory (saveHistory es st) =
     (if storage_usable st then map coerce_entry (filter is_object (take HISTORY_CAP es)) else loadHistory st)"
  by (simp add: save_refused) (simp add: saveHistory_def loadHistory_def history.read_write)

lemma is_entry_coerce [simp]: "is_entry i user (coerce_entry e) = is_entry i user e"
  by (simp add: is_entry_def jget_coerce)

lemma is_entry_object: "is_entry i user e \<Longrightarrow> is_object e"
  by (cases e) (auto simp: is_entry_def)

lemma the_opt: "opt_truthy v \<Longrightarrow> Some (the v) = v" "is_num v \<Longrightarrow> Some (the v) = v"
  by (cases v; simp add: opt_truthy_def)+

lemma record_fields:
  "jget (record_entry prior now i relay user command method auto) k =
     (if k = fid then Some (JStr i) else if k = frelay then Some (JStr relay)
      else if k = fuser then Some (JStr user) else if k = fat then Some (JStr now)
      else if k = fname then (if opt_truthy (opt_get prior fname) then opt_get prior fname else None)
      else if k = ftools then (if opt_truthy (opt_get prior ftools) then opt_get prior ftools else None)
      else if k = ftoolsAt then (if opt_truthy (opt_get prior ftools) \<and> is_num (opt_get prior ftoolsAt)
        then opt_get prior ftoolsAt else None)
      else if k = fcommand then (if command = [] then None else Some (JStr command))
      else if k = fmethod then (if method = [] \<or> method = js ''auto'' then None else Some (JStr method))
      else if k = fauto then (if (case auto of None \<Rightarrow> is_true (opt_get prior fauto) | Some b \<Rightarrow> b)
        then Some (JBool True) else None)
      else None)"
  by (simp add: record_entry_def Let_def the_opt del: js_simps)

lemma record_entry_is_entry [simp]:
  "is_entry i' user' (record_entry prior now i relay user command method auto) \<longleftrightarrow> i' = i \<and> user' = user"
  by (auto simp: is_entry_def record_fields)

lemma record_entry_object [simp]: "is_object (record_entry prior now i relay user command method auto)"
  by (simp add: record_entry_def Let_def)

definition method_ok :: "jstr \<Rightarrow> bool" where
  "method_ok m \<longleftrightarrow> m = [] \<or> m \<in> set METHODS"

lemma record_entry_ok:
  assumes "prior = None \<or> entry_ok (the prior)" "method_ok method"
  shows "entry_ok (record_entry prior now i relay user command method auto)"
proof (cases prior)
  case None
  with assms(2) show ?thesis
    by (auto simp: entry_ok_def record_fields method_ok_def opt_get_def opt_truthy_def simp del: good_tools.simps)
next
  case (Some e)
  with assms have e: "entry_ok e" by simp
  then have g: "opt_truthy (jget e fname) \<Longrightarrow> good_name (jget e fname)"
    "opt_truthy (jget e ftools) \<Longrightarrow> good_tools (jget e ftools)"
    by (auto simp: entry_ok_def opt_truthy_def split: option.splits simp del: good_tools.simps)
  show ?thesis
    using g assms(2) by (auto simp: entry_ok_def record_fields method_ok_def opt_get_def Some simp del: good_tools.simps)
qed

lemma find_entry_ok: "find_entry st i user = None \<or> entry_ok (the (find_entry st i user))"
  using loadHistory_ok[of st]
  by (cases "find_entry st i user") (auto simp: find_entry_def list_all_iff dest: find_SomeD)

text \<open>At most one card for a connection.\<close>

definition one_card :: "jstr \<Rightarrow> jstr \<Rightarrow> json list \<Rightarrow> bool" where
  "one_card i user es \<longleftrightarrow> length (filter (is_entry i user) es) \<le> 1"

lemma length_filter_take: "length (filter P (take n xs)) \<le> length (filter P xs)"
  by (metis filter_append append_take_drop_id length_append le_add1)

lemma one_card_save:
  assumes "one_card i user es" "one_card i user (loadHistory st)"
  shows "one_card i user (loadHistory (saveHistory es st))"
proof (cases "storage_usable st")
  case True
  have "filter (is_entry i user) (map coerce_entry (filter is_object (take HISTORY_CAP es))) =
      map coerce_entry (filter (is_entry i user) (take HISTORY_CAP es))"
    by (auto simp: filter_map o_def intro!: arg_cong[where f = "map coerce_entry"] filter_cong dest: is_entry_object)
  with True assms(1) length_filter_take[of "is_entry i user" HISTORY_CAP es] show ?thesis
    by (simp add: one_card_def load_save_any)
qed (simp add: load_save_any assms)

text \<open>The operations on cards, as one type, and what they do to the store.\<close>

datatype card_op =
    RecordCard jstr jstr jstr jstr jstr jstr "bool option"
  | UpdateCard jstr jstr "(jstr \<times> json option) list"
  | ForgetCommand jstr jstr
  | ForgetCard jstr jstr

fun do_card :: "card_op \<Rightarrow> storage \<Rightarrow> storage" where
  "do_card (RecordCard now i relay user command method auto) st = recordConnection now i relay user command method auto st"
| "do_card (UpdateCard i user patch) st = updateConnection i user patch st"
| "do_card (ForgetCommand i user) st = clearStoredCommand i user st"
| "do_card (ForgetCard i user) st = removeConnection i user st"

text \<open>A patch is a background observation or a card-menu edit: it never names the key fields.\<close>

fun patch_plain :: "card_op \<Rightarrow> bool" where
  "patch_plain (UpdateCard i user patch) \<longleftrightarrow> list_all (\<lambda>p. fst p \<noteq> fid \<and> fst p \<noteq> fuser) patch"
| "patch_plain _ \<longleftrightarrow> True"

lemma jget_assign:
  "k \<notin> fst ` set patch \<Longrightarrow> jget (assign patch e) k = jget e k"
  unfolding assign_def
  by (induction patch arbitrary: e) (auto simp: jget_jset jget_jdel split: option.splits)

lemma is_object_assign: "is_object (assign patch e) = is_object e"
proof (induction patch arbitrary: e)
  case (Cons p patch)
  then show ?case by (cases p; cases "snd p") (simp_all add: assign_def)
qed (simp add: assign_def)

lemma is_entry_assign:
  "list_all (\<lambda>p. fst p \<noteq> fid \<and> fst p \<noteq> fuser) patch \<Longrightarrow> is_entry i user (assign patch e) = is_entry i user e"
  by (subst (1 2) is_entry_def, subst (1 2) jget_assign) (auto simp: list_all_iff)

lemma map_update_first: "(\<And>x. g (f x) = g x) \<Longrightarrow> map g (update_first P f xs) = map g xs"
  by (induction xs) auto

lemma length_update_first: "length (update_first P f xs) = length xs"
  by (induction xs) auto

lemma length_filter_update_first:
  "(\<And>x. Q (f x) = Q x) \<Longrightarrow> length (filter Q (update_first P f xs)) = length (filter Q xs)"
  by (induction xs) auto

lemma filter_map_same: "(\<And>x. Q (f x) = Q x) \<Longrightarrow> length (filter Q (map f xs)) = length (filter Q xs)"
  by (simp add: filter_map o_def)

lemma is_entry_jdel_command [simp]: "is_entry i user (jdel fcommand e) = is_entry i user e"
  by (simp add: is_entry_def jget_jdel)

lemma length_filter_filter: "length (filter P (filter Q xs)) \<le> length (filter P xs)"
  by (induction xs) auto

lemma one_card_do:
  assumes "patch_plain c" "one_card i user (loadHistory st)"
  shows "one_card i user (loadHistory (do_card c st))"
proof (cases c)
  case (RecordCard now j relay u command m resume)
  let ?r = "filter (\<lambda>e. \<not> is_entry j u e) (loadHistory st)"
  have "i = j \<and> user = u \<Longrightarrow> filter (is_entry i user) ?r = []" by (auto simp: filter_empty_conv)
  moreover have "length (filter (is_entry i user) ?r) \<le> 1"
    using length_filter_filter assms(2) le_trans unfolding one_card_def by blast
  ultimately show ?thesis
    unfolding RecordCard do_card.simps recordConnection_def Let_def
    using assms(2) by (intro one_card_save) (auto simp: one_card_def)
next
  case (UpdateCard j u patch)
  with assms(1) have "is_entry i user (assign patch e) = is_entry i user e" for e
    by (simp add: is_entry_assign)
  then have "one_card i user (update_first (is_entry j u) (assign patch) (loadHistory st))"
    using assms(2) by (simp add: one_card_def length_filter_update_first)
  from one_card_save[OF this assms(2)] show ?thesis
    using assms(2) by (simp add: UpdateCard updateConnection_def)
next
  case (ForgetCommand j u)
  have "one_card i user (map (\<lambda>e. if is_entry j u e then jdel fcommand e else e) (loadHistory st))"
    using assms(2) unfolding one_card_def by (subst filter_map_same) auto
  from one_card_save[OF this assms(2)] show ?thesis by (simp add: ForgetCommand clearStoredCommand_def)
next
  case (ForgetCard j u)
  have "one_card i user (filter (\<lambda>e. \<not> is_entry j u e) (loadHistory st))"
    using length_filter_filter assms(2) le_trans unfolding one_card_def by blast
  from one_card_save[OF this assms(2)] show ?thesis by (simp add: ForgetCard removeConnection_def)
qed

lemma length_save: "length (loadHistory st) \<le> HISTORY_CAP \<Longrightarrow> length (loadHistory (saveHistory es st)) \<le> HISTORY_CAP"
  by (auto simp: load_save_any intro: order_trans[OF length_filter_le])

lemma length_do: "length (loadHistory st) \<le> HISTORY_CAP \<Longrightarrow> length (loadHistory (do_card c st)) \<le> HISTORY_CAP"
  by (cases c) (auto simp: recordConnection_def updateConnection_def clearStoredCommand_def removeConnection_def
      Let_def intro: length_save)

lemma cards_run:
  "list_all patch_plain cs \<Longrightarrow> one_card i user (loadHistory st) \<Longrightarrow>
     one_card i user (loadHistory (foldl (\<lambda>st c. do_card c st) st cs))"
  by (induction cs arbitrary: st) (auto intro: one_card_do)

lemma length_run:
  "length (loadHistory st) \<le> HISTORY_CAP \<Longrightarrow>
     length (loadHistory (foldl (\<lambda>st c. do_card c st) st cs)) \<le> HISTORY_CAP"
  by (induction cs arbitrary: st) (auto intro: length_do)

lemma list_all_update_first:
  "list_all P es \<Longrightarrow> (\<And>e. P e \<Longrightarrow> P (f e)) \<Longrightarrow> list_all P (update_first Q f es)"
  by (induction es) auto

lemma record_load:
  assumes "storage_usable st" "method_ok method"
  shows "loadHistory (recordConnection now i relay user command method auto st) =
    record_entry (find_entry st i user) now i relay user command method auto #
      take (HISTORY_CAP - 1) (filter (\<lambda>e. \<not> is_entry i user e) (loadHistory st))"
proof -
  have "list_all entry_ok (record_entry (find_entry st i user) now i relay user command method auto #
      filter (\<lambda>e. \<not> is_entry i user e) (loadHistory st))"
    using record_entry_ok[OF find_entry_ok assms(2)] loadHistory_ok[of st] by (auto simp: list_all_iff)
  from load_save[OF assms(1) this] show ?thesis
    by (simp add: recordConnection_def Let_def HISTORY_CAP_def take_Cons')
qed

text \<open>Reconnecting never costs a card its name. After a connection is recorded its card is first,
  with the relay and user just used, the command it ran (none for a plain shell) and the method
  that worked, and it keeps the nickname and the detected session managers of the card it replaces;
  the other cards follow in their order, up to the cap.\<close>

theorem recordConnection_card:
  assumes "storage_usable st" "method_ok method"
  shows "\<exists>card. loadHistory (recordConnection now i relay user command method auto st) =
      card # take (HISTORY_CAP - 1) (filter (\<lambda>e. \<not> is_entry i user e) (loadHistory st)) \<and>
    is_entry i user card \<and> jget card frelay = Some (JStr relay) \<and>
    jget card fcommand = (if command = [] then None else Some (JStr command)) \<and>
    jget card fmethod = (if method = [] \<or> method = js ''auto'' then None else Some (JStr method)) \<and>
    jget card fname = opt_get (find_entry st i user) fname \<and>
    jget card ftools = opt_get (find_entry st i user) ftools"
proof -
  have "opt_truthy (opt_get (find_entry st i user) k) \<or> opt_get (find_entry st i user) k = None"
    if "k = fname \<or> k = ftools" for k
  proof (cases "find_entry st i user")
    case (Some e)
    then have "entry_ok e" using find_entry_ok[of st i user] by simp
    with Some that show ?thesis
      by (cases "jget e fname" rule: good_name.cases; cases "jget e ftools" rule: good_tools.cases)
        (auto simp: opt_get_def opt_truthy_def entry_ok_def)
  qed (simp add: opt_get_def)
  note kept = this[of fname, simplified] this[of ftools, simplified]
  show ?thesis
    unfolding record_load[OF assms]
    by (rule exI[of _ "record_entry (find_entry st i user) now i relay user command method auto"])
      (use kept in \<open>auto simp: record_fields simp del: js_simps\<close>)
qed

definition blank_storage :: storage where
  "blank_storage = \<lparr>can_read = True, can_write = True, items = (\<lambda>_. None)\<rparr>"

lemma blank_usable: "storage_usable blank_storage" "loadHistory blank_storage = []"
  by (simp_all add: blank_storage_def storage_usable_def loadHistory_def parseItem_def getItem_def)

lemma recordConnection_card_witness:
  "\<exists>card. loadHistory (recordConnection (js ''now'') (js ''aa'') (js ''r'') (js ''me'') [] (js ''passkey'') None blank_storage) =
     [card] \<and> jget card fmethod = Some (JStr (js ''passkey''))"
proof -
  have "method_ok (js ''passkey'')" by (simp add: method_ok_def METHODS_def)
  from recordConnection_card[OF blank_usable(1) this, of "js ''now''" "js ''aa''" "js ''r''" "js ''me''" "[]" None]
  show ?thesis by (auto simp: blank_usable)
qed

text \<open>C25: The card list stays a list of cards. Whatever sequence of recordings, updates, forgotten
  commands and forgotten cards runs, with storage refusing or not, a connection has at most one
  card and the list stays within its cap, and everything the reader returns is well-formed (a
  command is a non-empty string, a method one the page offers, tools a map of booleans).\<close>

theorem history_invariant:
  assumes "list_all patch_plain cs" and "one_card i user (loadHistory st)"
    and "length (loadHistory st) \<le> HISTORY_CAP"
  shows "one_card i user (loadHistory (foldl (\<lambda>st c. do_card c st) st cs)) \<and>
    length (loadHistory (foldl (\<lambda>st c. do_card c st) st cs)) \<le> HISTORY_CAP \<and>
    list_all entry_ok (loadHistory (foldl (\<lambda>st c. do_card c st) st cs))"
  using assms cards_run length_run loadHistory_ok by blast

lemma history_invariant_witness:
  "one_card (js ''a'') (js ''u'') (loadHistory (foldl (\<lambda>st c. do_card c st) blank_storage
     [RecordCard (js ''t'') (js ''a'') (js ''r'') (js ''u'') [] [] None, ForgetCommand (js ''a'') (js ''u'')]))"
  using history_invariant[of "[RecordCard (js ''t'') (js ''a'') (js ''r'') (js ''u'') [] [] None,
      ForgetCommand (js ''a'') (js ''u'')]" "js ''a''" "js ''u''" blank_storage]
  by (simp add: blank_usable one_card_def)

text \<open>Background observations resurrect nothing. Updating a connection leaves the list of who has
  a card exactly as it was, in order: it creates no card, even for a connection the user forgot.\<close>

theorem updateConnection_creates_nothing:
  assumes "list_all (\<lambda>p. fst p \<noteq> fid \<and> fst p \<noteq> fuser) patch" and "length (loadHistory st) \<le> HISTORY_CAP"
  shows "map (\<lambda>e. (jget e fid, jget e fuser)) (loadHistory (updateConnection i user patch st)) =
    map (\<lambda>e. (jget e fid, jget e fuser)) (loadHistory st)"
proof -
  let ?k = "\<lambda>e. (jget e fid, jget e fuser)"
  let ?es = "update_first (is_entry i user) (assign patch) (loadHistory st)"
  have "fid \<notin> fst ` set patch" "fuser \<notin> fst ` set patch" using assms(1) by (auto simp: list_all_iff)
  then have k: "?k (assign patch e) = ?k e" for e by (simp add: jget_assign)
  have "list_all is_object (loadHistory st)" using loadHistory_ok[of st] by (auto simp: list_all_iff entry_ok_def)
  then have "list_all is_object ?es" by (rule list_all_update_first) (simp add: is_object_assign)
  moreover have "length ?es \<le> HISTORY_CAP" using assms(2) by (simp add: length_update_first)
  ultimately have "map ?k (loadHistory (saveHistory ?es st)) = map ?k (loadHistory st)"
    using map_update_first[of ?k "assign patch" "is_entry i user" "loadHistory st"] k
    by (auto simp: load_save_any list_all_iff o_def jget_coerce)
  then show ?thesis by (simp add: updateConnection_def)
qed

lemma updateConnection_creates_nothing_witness:
  "map (\<lambda>e. (jget e fid, jget e fuser))
     (loadHistory (updateConnection (js ''a'') (js ''u'') [(fname, Some (JStr (js ''x'')))] blank_storage)) = []"
  using updateConnection_creates_nothing[of "[(fname, Some (JStr (js ''x'')))]" blank_storage "js ''a''" "js ''u''"]
  by (simp add: blank_usable)

end
