(* ===== verification/Idb.thy ===== *)
theory Idb
  imports Prelude
begin

text \<open>
  IndexedDB object stores as the page uses them: a list of entries in key order (the order a cursor
  visits them in), with one entry per key.
\<close>

type_synonym 'v idb = "(jstr \<times> 'v) list"

text \<open>Keys are strings, compared by code units.\<close>

fun key_less :: "jstr \<Rightarrow> jstr \<Rightarrow> bool" where
  "key_less _ [] \<longleftrightarrow> False"
| "key_less [] (y # ys) \<longleftrightarrow> True"
| "key_less (x # xs) (y # ys) \<longleftrightarrow> x < y \<or> x = y \<and> key_less xs ys"

definition idb_get :: "jstr \<Rightarrow> 'v idb \<Rightarrow> 'v option" where
  "idb_get k db = map_of db k"

primrec idb_put :: "jstr \<Rightarrow> 'v \<Rightarrow> 'v idb \<Rightarrow> 'v idb" where
  "idb_put k v [] = [(k, v)]"
| "idb_put k v (e # db) =
     (if fst e = k then (k, v) # db else if key_less k (fst e) then (k, v) # e # db
      else e # idb_put k v db)"

definition idb_del :: "jstr \<Rightarrow> 'v idb \<Rightarrow> 'v idb" where
  "idb_del k db = filter (\<lambda>e. fst e \<noteq> k) db"

text \<open>A store as the browser keeps it: strictly increasing keys.\<close>

definition idb_ok :: "'v idb \<Rightarrow> bool" where
  "idb_ok db \<longleftrightarrow> sorted_wrt key_less (map fst db)"

lemma key_less_irrefl [simp]: "\<not> key_less k k"
  by (induction k) auto

lemma key_less_trans: "key_less a b \<Longrightarrow> key_less b c \<Longrightarrow> key_less a c"
proof (induction a b arbitrary: c rule: key_less.induct)
  case (2 y ys)
  then show ?case by (cases c) auto
next
  case (3 x xs y ys)
  then show ?case by (cases c) auto
qed simp

lemma key_less_linear: "a = b \<or> key_less a b \<or> key_less b a"
proof (induction a b rule: key_less.induct)
  case (1 a)
  then show ?case by (cases a) auto
qed auto

lemma set_idb_put_keys: "fst ` set (idb_put k v db) = insert k (fst ` set db)"
  by (induction db) (auto simp: image_iff)

lemma idb_ok_put: "idb_ok db \<Longrightarrow> idb_ok (idb_put k v db)"
proof (induction db)
  case (Cons e db)
  have "key_less (fst e) k" if "fst e \<noteq> k" "\<not> key_less k (fst e)" using that key_less_linear by blast
  moreover have "fst e \<noteq> k \<Longrightarrow> key_less (fst e) k \<Longrightarrow> \<forall>x \<in> fst ` set (idb_put k v db). key_less (fst e) x"
    using Cons.prems unfolding set_idb_put_keys by (auto simp: idb_ok_def)
  ultimately show ?case
    using Cons by (auto simp: idb_ok_def dest: key_less_trans)
qed (simp add: idb_ok_def)

lemma idb_ok_distinct: "idb_ok db \<Longrightarrow> distinct (map fst db)"
  unfolding idb_ok_def by (induction db) auto

lemma idb_ok_filter: "idb_ok db \<Longrightarrow> idb_ok (filter P db)"
  unfolding idb_ok_def by (induction db) auto

lemma idb_get_put [page_simps]: "idb_ok db \<Longrightarrow> idb_get k' (idb_put k v db) = (if k' = k then Some v else idb_get k' db)"
proof (induction db)
  case (Cons e db)
  then show ?case by (cases e) (auto simp: idb_get_def idb_ok_def)
qed (simp add: idb_get_def)

lemma idb_get_del [page_simps]: "idb_get k' (idb_del k db) = (if k' = k then None else idb_get k' db)"
  unfolding idb_get_def idb_del_def by (induction db) auto

lemma idb_ok_del: "idb_ok db \<Longrightarrow> idb_ok (idb_del k db)"
  by (simp add: idb_del_def idb_ok_filter)

lemma idb_get_mem: "idb_ok db \<Longrightarrow> idb_get k db = Some v \<longleftrightarrow> (k, v) \<in> set db"
  unfolding idb_get_def by (rule map_of_eq_Some_iff) (rule idb_ok_distinct)

lemma length_idb_put: "length (idb_put k v db) \<le> Suc (length db)"
  by (induction db) auto

subsection \<open>Stores whose writers invent nothing\<close>

text \<open>
  The contract of a store that keeps values under keys but may drop or refuse some: what it gives
  back under a key after a write was there before, or is what the write put under that key.
\<close>

locale honest_store =
  fixes put :: "'op \<Rightarrow> 's \<Rightarrow> 's" and key :: "'op \<Rightarrow> 'k" and val :: "'op \<Rightarrow> 'v" and look :: "'k \<Rightarrow> 's \<Rightarrow> 'v option"
    and ok :: "'s \<Rightarrow> bool"
  assumes put_ok: "ok s \<Longrightarrow> ok (put x s)"
    and honest: "ok s \<Longrightarrow> look k (put x s) = Some v \<Longrightarrow> look k s = Some v \<or> key x = k \<and> val x = v"
begin

lemma provenance:
  "ok s \<Longrightarrow> look k (foldl (\<lambda>s x. put x s) s xs) = Some v \<Longrightarrow>
     look k s = Some v \<or> (\<exists>x \<in> set xs. key x = k \<and> val x = v)"
proof (induction xs arbitrary: s)
  case (Cons x xs)
  then show ?case using honest[of s k x v] put_ok[of s x] by fastforce
qed simp

end

end
