(* ===== verification/BufferStore.thy ===== *)
theory BufferStore
  imports Idb
begin

text \<open>
  \<^verbatim>\<open>site/buffer-store.mjs\<close>: the scrollback dumps kept in IndexedDB, at most \<open>CAP\<close> of them, and every
  operation's degradation when the database is unavailable. Where a step of an operation fails is
  an argument; a failed transaction changes nothing.
\<close>

definition CAP :: nat where "CAP = 8"

text \<open>A stored value: its text when \<open>typeof v.buf === "string"\<close>, its time when it has one.\<close>

datatype dump = Dump (d_buf: "jstr option") (d_at: "int option")

record buffer_store =
  buffers :: "dump idb"
  warned :: bool
  warnings :: nat

datatype buf_fail = NoFail | OpenFails | RequestFails | PruneReadFails | PruneWriteFails

definition degrade :: "buffer_store \<Rightarrow> buffer_store" where
  "degrade s = (if warned s then s else s\<lparr>warned := True, warnings := warnings s + 1\<rparr>)"

definition buf_get :: "buf_fail \<Rightarrow> jstr \<Rightarrow> buffer_store \<Rightarrow> dump option \<times> buffer_store" where
  "buf_get f key s =
     (if f \<noteq> NoFail then (None, degrade s)
      else (case idb_get key (buffers s) of
              Some v \<Rightarrow> if d_buf v \<noteq> None then Some v else None
            | None \<Rightarrow> None, s))"

text \<open>\<open>cursor.value?.at ?? 0\<close>, and the sort by it, newest first; \<open>sort\<close> is stable.\<close>

definition at_or_0 :: "dump \<Rightarrow> int" where
  "at_or_0 v = (case d_at v of None \<Rightarrow> 0 | Some t \<Rightarrow> t)"

definition by_age :: "dump idb \<Rightarrow> dump idb" where
  "by_age db = sort_key (\<lambda>e. - at_or_0 (snd e)) db"

definition prune_db :: "dump idb \<Rightarrow> dump idb" where
  "prune_db db =
     (if length db \<le> CAP then db
      else (let stale = map fst (drop CAP (by_age db)) in filter (\<lambda>e. fst e \<notin> set stale) db))"

definition buf_put :: "buf_fail \<Rightarrow> int \<Rightarrow> jstr \<Rightarrow> jstr \<Rightarrow> buffer_store \<Rightarrow> buffer_store" where
  "buf_put f now key buf s =
     (let saved = idb_put key (Dump (Some buf) (Some now)) (buffers s) in
      case f of
        OpenFails \<Rightarrow> degrade s
      | RequestFails \<Rightarrow> degrade s
      | PruneReadFails \<Rightarrow> degrade (s\<lparr>buffers := saved\<rparr>)
      | PruneWriteFails \<Rightarrow>
          if length saved \<le> CAP then s\<lparr>buffers := saved\<rparr> else degrade (s\<lparr>buffers := saved\<rparr>)
      | NoFail \<Rightarrow> s\<lparr>buffers := prune_db saved\<rparr>)"

definition buf_wipe :: "buf_fail \<Rightarrow> buffer_store \<Rightarrow> buffer_store" where
  "buf_wipe f s = (if f \<noteq> NoFail then degrade s else s\<lparr>buffers := []\<rparr>)"

subsection \<open>Pruning\<close>

lemma set_by_age [simp]: "set (by_age db) = set db"
  by (simp add: by_age_def)

lemma set_take_drop: "set db = set (take n (by_age db)) \<union> set (drop n (by_age db))"
  by (metis append_take_drop_id set_append set_by_age)

lemma prune_keeps:
  assumes "idb_ok db"
  shows "set (prune_db db) = set (take CAP (by_age db))"
proof (cases "length db \<le> CAP")
  case True
  then have "length (by_age db) \<le> CAP" by (simp add: by_age_def)
  with True show ?thesis by (simp add: prune_db_def)
next
  case False
  have d: "distinct (map fst (by_age db))"
    using idb_ok_distinct[OF assms] by (simp add: by_age_def distinct_map)
  have "map fst (by_age db) = map fst (take CAP (by_age db)) @ map fst (drop CAP (by_age db))"
    by (metis append_take_drop_id map_append)
  with d have dis: "fst ` set (take CAP (by_age db)) \<inter> fst ` set (drop CAP (by_age db)) = {}"
    by (metis distinct_append set_map)
  from set_take_drop[of db CAP] dis have "{e \<in> set db. fst e \<notin> fst ` set (drop CAP (by_age db))} = set (take CAP (by_age db))"
    by auto
  with False show ?thesis by (simp add: prune_db_def)
qed

lemma idb_ok_prune: "idb_ok db \<Longrightarrow> idb_ok (prune_db db)"
  by (simp add: prune_db_def Let_def idb_ok_filter)

lemma length_prune: "idb_ok db \<Longrightarrow> length (prune_db db) \<le> CAP"
proof -
  assume ok: "idb_ok db"
  have "distinct (prune_db db)" using idb_ok_distinct[OF idb_ok_prune[OF ok]] by (simp add: distinct_map)
  then have "length (prune_db db) = card (set (take CAP (by_age db)))"
    using prune_keeps[OF ok] distinct_card by metis
  also have "\<dots> \<le> CAP" using card_length[of "take CAP (by_age db)"] by simp
  finally show ?thesis .
qed

text \<open>What goes is no newer than what stays.\<close>

lemma prune_newest:
  assumes "idb_ok db" "e \<in> set (prune_db db)" "g \<in> set db" "g \<notin> set (prune_db db)"
  shows "at_or_0 (snd g) \<le> at_or_0 (snd e)"
proof -
  have s: "sorted (map (\<lambda>e. - at_or_0 (snd e)) (take CAP (by_age db) @ drop CAP (by_age db)))"
    by (simp add: by_age_def)
  have "g \<in> set (drop CAP (by_age db))" "e \<in> set (take CAP (by_age db))"
    using assms prune_keeps[OF assms(1)] set_take_drop[of db CAP] by blast+
  then have "- at_or_0 (snd e) \<le> - at_or_0 (snd g)"
    using s unfolding map_append sorted_append set_map by blast
  then show ?thesis by simp
qed

lemma prune_sub: "set (prune_db db) \<subseteq> set db"
  by (auto simp: prune_db_def Let_def)

text \<open>A dump newer than all others survives the pruning.\<close>

lemma prune_keeps_newest:
  assumes "idb_ok db" "e \<in> set db" "\<forall>g \<in> set db. g \<noteq> e \<longrightarrow> at_or_0 (snd g) < at_or_0 (snd e)"
  shows "e \<in> set (prune_db db)"
proof (rule ccontr)
  assume n: "e \<notin> set (prune_db db)"
  have "prune_db db \<noteq> []"
  proof
    assume "prune_db db = []"
    then have "take CAP (by_age db) = []" using prune_keeps[OF assms(1)] by simp
    moreover have "by_age db \<noteq> []" using assms(2) set_by_age by (metis empty_iff list.set(1))
    ultimately show False by (simp add: CAP_def)
  qed
  then obtain g where g: "g \<in> set (prune_db db)" by (cases "prune_db db") auto
  with prune_newest[OF assms(1) g assms(2) n] assms(3) n prune_sub show False by fastforce
qed

subsection \<open>The store\<close>

definition buf_ok :: "buffer_store \<Rightarrow> bool" where
  "buf_ok s \<longleftrightarrow> idb_ok (buffers s) \<and> (if warned s then warnings s \<le> 1 else warnings s = 0)"

lemma buffers_degrade [simp]: "buffers (degrade s) = buffers s"
  by (simp add: degrade_def)

lemma buf_ok_degrade: "buf_ok s \<Longrightarrow> buf_ok (degrade s)"
  by (auto simp: buf_ok_def degrade_def split: if_splits)

lemma buf_ok_put [page_inv]: "buf_ok s \<Longrightarrow> buf_ok (buf_put f now key buf s)"
  by (auto simp: buf_put_def Let_def buf_ok_def idb_ok_put idb_ok_prune degrade_def split: buf_fail.splits if_splits)

lemma buf_ok_wipe [page_inv]: "buf_ok s \<Longrightarrow> buf_ok (buf_wipe f s)"
  by (auto simp: buf_wipe_def buf_ok_def idb_ok_def degrade_def split: if_splits)

lemma buf_ok_get [page_inv]: "buf_ok s \<Longrightarrow> buf_ok (snd (buf_get f key s))"
  by (auto simp: buf_get_def buf_ok_degrade)

text \<open>What a read gives when the database answers.\<close>

definition dump_text :: "jstr \<Rightarrow> buffer_store \<Rightarrow> jstr option" where
  "dump_text k s = Option.bind (fst (buf_get NoFail k s)) d_buf"

lemma dump_text_get: "dump_text k s = Option.bind (idb_get k (buffers s)) d_buf"
  by (auto simp: dump_text_def buf_get_def split: option.splits)

type_synonym buf_write = "buf_fail \<times> int \<times> jstr \<times> jstr"

definition do_put :: "buf_write \<Rightarrow> buffer_store \<Rightarrow> buffer_store" where
  "do_put = (\<lambda>(f, now, key, buf). buf_put f now key buf)"

lemma idb_get_prune: "idb_ok db \<Longrightarrow> idb_get k (prune_db db) = Some v \<Longrightarrow> idb_get k db = Some v"
  using prune_sub by (auto simp: idb_get_mem idb_ok_prune)

interpretation dumps: honest_store do_put "\<lambda>w. fst (snd (snd w))" "\<lambda>w. snd (snd (snd w))" dump_text buf_ok
proof unfold_locales
  show "buf_ok s \<Longrightarrow> buf_ok (do_put x s)" for s x
    by (cases x) (simp add: do_put_def buf_ok_put)
  fix s k x v
  assume ok: "buf_ok s" and hit: "dump_text k (do_put x s) = Some v"
  obtain f now key buf where x: "x = (f, now, key, buf)" by (cases x)
  let ?saved = "idb_put key (Dump (Some buf) (Some now)) (buffers s)"
  have "idb_ok (buffers s)" using ok by (simp add: buf_ok_def)
  from hit have "Option.bind (idb_get k ?saved) d_buf = Some v \<or> dump_text k s = Some v"
    using idb_get_prune[OF idb_ok_put[OF \<open>idb_ok (buffers s)\<close>]]
    by (auto simp: x do_put_def buf_put_def Let_def dump_text_get bind_eq_Some_conv split: buf_fail.splits if_splits)
  then show "dump_text k s = Some v \<or> fst (snd (snd x)) = k \<and> snd (snd (snd x)) = v"
    using idb_get_put[OF \<open>idb_ok (buffers s)\<close>] by (auto simp: x dump_text_get split: if_splits)
qed

text \<open>A saved scrollback can be read back. When the database answers and the clock is past every
  other dump's time, a dump just saved is what the next read of its key gives, at most \<open>CAP\<close> dumps
  remain, and any dump the save pushed out is no newer than any that stayed.\<close>

theorem saved_dump_reads_back:
  assumes "buf_ok s" and "\<forall>e \<in> set (buffers s). at_or_0 (snd e) < now"
  shows "fst (buf_get NoFail key (buf_put NoFail now key buf s)) = Some (Dump (Some buf) (Some now)) \<and>
    length (buffers (buf_put NoFail now key buf s)) \<le> CAP \<and>
    (\<forall>e \<in> set (buffers (buf_put NoFail now key buf s)). \<forall>g \<in> set (buffers s).
       fst g \<noteq> key \<longrightarrow> g \<notin> set (buffers (buf_put NoFail now key buf s)) \<longrightarrow> at_or_0 (snd g) \<le> at_or_0 (snd e))"
proof -
  let ?v = "Dump (Some buf) (Some now)"
  let ?db = "idb_put key ?v (buffers s)"
  have ok: "idb_ok (buffers s)" using assms(1) by (simp add: buf_ok_def)
  then have okp: "idb_ok ?db" by (rule idb_ok_put)
  have mem: "(k, v) \<in> set ?db \<longleftrightarrow> (if k = key then v = ?v else (k, v) \<in> set (buffers s))" for k v
    using idb_get_put[OF ok] idb_get_mem[OF okp] idb_get_mem[OF ok] by (metis option.inject)
  have "(key, ?v) \<in> set (prune_db ?db)"
  proof (rule prune_keeps_newest[OF okp])
    show "\<forall>g \<in> set ?db. g \<noteq> (key, ?v) \<longrightarrow> at_or_0 (snd g) < at_or_0 (snd (key, ?v))"
    proof (intro ballI impI)
      fix g assume g: "g \<in> set ?db" "g \<noteq> (key, ?v)"
      obtain k v where "g = (k, v)" by (cases g)
      with g mem[of k v] have "g \<in> set (buffers s)" by (auto split: if_splits)
      with assms(2) show "at_or_0 (snd g) < at_or_0 (snd (key, ?v))" by (simp add: at_or_0_def)
    qed
  qed (simp add: mem)
  then have "idb_get key (prune_db ?db) = Some ?v" by (simp add: idb_get_mem idb_ok_prune okp)
  moreover have "at_or_0 (snd g) \<le> at_or_0 (snd e)"
    if "e \<in> set (prune_db ?db)" "g \<in> set (buffers s)" "fst g \<noteq> key" "g \<notin> set (prune_db ?db)" for e g
    using prune_newest[OF okp that(1) _ that(4)] that(2,3) mem by (cases g) auto
  ultimately show ?thesis
    using length_prune[OF okp] by (auto simp: buf_put_def buf_get_def)
qed

lemma saved_dump_reads_back_witness:
  "fst (buf_get NoFail (js ''k'') (buf_put NoFail 5 (js ''k'') (js ''text'') \<lparr>buffers = [(js ''a'', Dump None (Some 3))], warned = False, warnings = 0\<rparr>)) =
     Some (Dump (Some (js ''text'')) (Some 5))"
  by (rule saved_dump_reads_back[THEN conjunct1]) (simp_all add: buf_ok_def idb_ok_def at_or_0_def)

text \<open>The store never mixes sessions. After any sequence of saves, with any of them failing at any
  step, what is read under a key is what was there before or a text saved under that same key; and
  the page warns at most once.\<close>

theorem dumps_never_mix:
  assumes "buf_ok s" and "dump_text k (foldl (\<lambda>s x. do_put x s) s ws) = Some t"
  shows "dump_text k s = Some t \<or> (\<exists>x \<in> set ws. fst (snd (snd x)) = k \<and> snd (snd (snd x)) = t)"
  by (rule dumps.provenance[OF assms])

lemma dumps_never_mix_witness:
  "\<exists>x \<in> set [(NoFail, 1, js ''k'', js ''t''), (OpenFails, 2, js ''k'', js ''u'')].
     fst (snd (snd x)) = js ''k'' \<and> snd (snd (snd x)) = js ''t''"
  using dumps_never_mix[of "\<lparr>buffers = [], warned = False, warnings = 0\<rparr>" "js ''k''"
      "[(NoFail, 1, js ''k'', js ''t''), (OpenFails, 2, js ''k'', js ''u'')]" "js ''t''"]
  by (simp add: buf_ok_def idb_ok_def do_put_def buf_put_def prune_db_def CAP_def dump_text_def buf_get_def
      degrade_def idb_get_def)

end
