(* ===== verification/Links.thy ===== *)
theory Links
  imports WebStorage
begin

text \<open>
  \<^verbatim>\<open>site/links.mjs\<close>: what a click on a link in the terminal does. The page's state is the last press,
  the confirmation dialog and the stored preference; what leaves the page is the list of opened
  addresses. \<open>new URL(uri).protocol\<close> is the browser's and is a parameter.
\<close>

record press =
  press_x :: rat
  press_y :: rat
  hadSelection :: bool

record link_dialog =
  shown_uri :: jstr
  remember_checked :: bool

record link_page =
  pressedAt :: "press option"
  link_dialog :: "link_dialog option"
  close_listeners :: nat
  prefs :: storage
  opened :: "jstr list"
  refocused :: nat

datatype link_event =
    PointerDown rat rat bool
  | Activate bool "(rat \<times> rat) option" jstr
  | ToggleRemember
  | ClickOpen
  | ClickCancel
  | Escape

definition DRAG_SLOP :: rat where "DRAG_SLOP = 6"

definition prefersDirect :: "storage \<Rightarrow> bool" where
  "prefersDirect st =
     (case getItem st LINKS_KEY of None \<Rightarrow> False | Some v \<Rightarrow> v = Some (Text (js ''open'')))"

definition rememberDirect :: "storage \<Rightarrow> storage" where
  "rememberDirect st = attempt st (setItem LINKS_KEY (Text (js ''open'')) st)"

definition open_uri :: "jstr \<Rightarrow> link_page \<Rightarrow> link_page" where
  "open_uri uri s = s\<lparr>opened := opened s @ [uri]\<rparr>"

text \<open>\<open>Math.hypot(dx, dy) > DRAG_SLOP\<close>, squared.\<close>

definition dragged :: "press \<Rightarrow> rat \<times> rat \<Rightarrow> bool" where
  "dragged p pos \<longleftrightarrow>
     (fst pos - press_x p) * (fst pos - press_x p) + (snd pos - press_y p) * (snd pos - press_y p)
       > DRAG_SLOP * DRAG_SLOP"

definition web_scheme :: "(jstr \<Rightarrow> jstr option) \<Rightarrow> jstr \<Rightarrow> bool" where
  "web_scheme protocol uri \<longleftrightarrow>
     protocol uri = Some (js ''http:'') \<or> protocol uri = Some (js ''https:'')"

definition show_dialog :: "jstr \<Rightarrow> link_page \<Rightarrow> link_page" where
  "show_dialog uri s =
     s\<lparr>link_dialog := Some \<lparr>shown_uri = uri, remember_checked = False\<rparr>,
       close_listeners := close_listeners s + 1\<rparr>"

text \<open>The handler \<open>linkHandler\<close> returns.\<close>

definition activate :: "(jstr \<Rightarrow> jstr option) \<Rightarrow> bool \<Rightarrow> (rat \<times> rat) option \<Rightarrow> jstr \<Rightarrow> link_page \<Rightarrow> link_page" where
  "activate protocol hasSelection pos uri s =
     (if hasSelection then s
      else if (case pressedAt s of None \<Rightarrow> False | Some p \<Rightarrow> hadSelection p) then s
      else if (case (pressedAt s, pos) of (Some p, Some xy) \<Rightarrow> dragged p xy | _ \<Rightarrow> False) then s
      else if \<not> web_scheme protocol uri then s
      else if prefersDirect (prefs s) then open_uri uri s
      else show_dialog uri s)"

text \<open>\<open>dialog.close()\<close>: the \<open>once\<close> listeners give the keyboard back.\<close>

definition close_dialog :: "link_page \<Rightarrow> link_page" where
  "close_dialog s =
     s\<lparr>link_dialog := None, refocused := refocused s + close_listeners s, close_listeners := 0\<rparr>"

fun link_step :: "(jstr \<Rightarrow> jstr option) \<Rightarrow> link_event \<Rightarrow> link_page \<Rightarrow> link_page" where
  "link_step protocol (PointerDown x y sel) s =
     s\<lparr>pressedAt := Some \<lparr>press_x = x, press_y = y, hadSelection = sel\<rparr>\<rparr>"
| "link_step protocol (Activate sel pos uri) s = activate protocol sel pos uri s"
| "link_step protocol ToggleRemember s =
     (case link_dialog s of
        None \<Rightarrow> s
      | Some d \<Rightarrow> s\<lparr>link_dialog := Some (d\<lparr>remember_checked := \<not> remember_checked d\<rparr>)\<rparr>)"
| "link_step protocol ClickOpen s =
     (case link_dialog s of
        None \<Rightarrow> s
      | Some d \<Rightarrow>
          open_uri (shown_uri d)
            (close_dialog (if remember_checked d then s\<lparr>prefs := rememberDirect (prefs s)\<rparr> else s)))"
| "link_step protocol ClickCancel s = (if link_dialog s = None then s else close_dialog s)"
| "link_step protocol Escape s = (if link_dialog s = None then s else close_dialog s)"

subsection \<open>Nothing but a web link leaves the page\<close>

definition links_inv :: "(jstr \<Rightarrow> jstr option) \<Rightarrow> link_page \<Rightarrow> bool" where
  "links_inv protocol s \<longleftrightarrow>
     list_all (web_scheme protocol) (opened s) \<and>
     (case link_dialog s of None \<Rightarrow> True | Some d \<Rightarrow> web_scheme protocol (shown_uri d))"

lemma links_inv_step [page_inv]: "links_inv protocol s \<Longrightarrow> links_inv protocol (link_step protocol e s)"
  by (cases e) (auto simp: links_inv_def activate_def open_uri_def close_dialog_def show_dialog_def
      split: option.splits if_splits)

interpretation clicks: machine "\<lambda>s e. link_step protocol e s" "links_inv protocol"
  by unfold_locales (rule links_inv_step)

text \<open>What a step can add to the opened addresses, and to the preference.\<close>

lemma opened_step:
  "opened (link_step protocol e s) = opened s \<or>
   (\<exists>uri. opened (link_step protocol e s) = opened s @ [uri] \<and>
      (e = ClickOpen \<and> map_option shown_uri (link_dialog s) = Some uri \<or>
       prefersDirect (prefs s) \<and> (\<exists>pos. e = Activate False pos uri)))"
  by (cases e) (auto simp: activate_def open_uri_def close_dialog_def show_dialog_def split: option.splits)

lemma prefs_step:
  "prefs (link_step protocol e s) = prefs s \<or>
   e = ClickOpen \<and> (case link_dialog s of Some d \<Rightarrow> remember_checked d | None \<Rightarrow> False)"
  by (cases e) (auto simp: activate_def open_uri_def close_dialog_def show_dialog_def split: option.splits)

text \<open>Without the preference, what is opened was confirmed: the events that confirm, with the state
  each happened in.\<close>

fun confirmed :: "(jstr \<Rightarrow> jstr option) \<Rightarrow> link_event list \<Rightarrow> link_page \<Rightarrow> jstr list" where
  "confirmed protocol [] s = []"
| "confirmed protocol (e # es) s =
     (case (e, link_dialog s) of (ClickOpen, Some d) \<Rightarrow> [shown_uri d] | _ \<Rightarrow> []) @
     confirmed protocol es (link_step protocol e s)"

fun never_remembered :: "(jstr \<Rightarrow> jstr option) \<Rightarrow> link_event list \<Rightarrow> link_page \<Rightarrow> bool" where
  "never_remembered protocol [] s \<longleftrightarrow> True"
| "never_remembered protocol (e # es) s \<longleftrightarrow>
     (case (e, link_dialog s) of (ClickOpen, Some d) \<Rightarrow> \<not> remember_checked d | _ \<Rightarrow> True) \<and>
     never_remembered protocol es (link_step protocol e s)"

lemma opened_confirmed:
  "\<not> prefersDirect (prefs s) \<Longrightarrow> never_remembered protocol es s \<Longrightarrow>
     opened (foldl (\<lambda>s e. link_step protocol e s) s es) = opened s @ confirmed protocol es s"
proof (induction es arbitrary: s)
  case (Cons e es)
  have "prefs (link_step protocol e s) = prefs s"
    using Cons.prems prefs_step[of protocol e s] by (auto split: option.splits)
  moreover have "opened (link_step protocol e s) =
      opened s @ (case (e, link_dialog s) of (ClickOpen, Some d) \<Rightarrow> [shown_uri d] | _ \<Rightarrow> [])"
    using Cons.prems(1)
    by (cases e) (auto simp: activate_def open_uri_def close_dialog_def show_dialog_def split: option.splits)
  ultimately show ?case using Cons by simp
qed simp

text \<open>C39: Only web links open. Whatever the user and the terminal do, with any stored preference, every
  address the page ever opens parses to \<open>http:\<close> or \<open>https:\<close>.\<close>

theorem only_web_links_open:
  assumes "opened s = []" and "link_dialog s = None"
  shows "list_all (web_scheme protocol) (opened (foldl (\<lambda>s e. link_step protocol e s) s es))"
  using clicks.ok_run[of protocol s es] assms by (simp add: links_inv_def)

definition demo_protocol :: "jstr \<Rightarrow> jstr option" where
  "demo_protocol uri = (if starts_with (js ''https:'') uri then Some (js ''https:'') else None)"

definition demo_page :: link_page where
  "demo_page = \<lparr>pressedAt = None, link_dialog = None, close_listeners = 0,
     prefs = \<lparr>can_read = True, can_write = True, items = (\<lambda>_. None)\<rparr>, opened = [], refocused = 0\<rparr>"

lemma only_web_links_open_witness:
  "list_all (web_scheme demo_protocol) (opened (foldl (\<lambda>s e. link_step demo_protocol e s) demo_page
     [Activate False None (js ''https://x''), ToggleRemember, ClickOpen, Activate False None (js ''ftp:y'')]))"
  by (rule only_web_links_open) (simp_all add: demo_page_def)

text \<open>No link opens unasked. Until an open is confirmed with the box checked, the addresses opened
  are exactly the ones the dialog showed when its open button was pressed, in that order.\<close>

theorem opens_are_confirmed:
  assumes "\<not> prefersDirect (prefs s)" and "never_remembered protocol es s"
  shows "opened (foldl (\<lambda>s e. link_step protocol e s) s es) = opened s @ confirmed protocol es s"
  by (rule opened_confirmed[OF assms])

lemma opens_are_confirmed_witness:
  "opened (foldl (\<lambda>s e. link_step demo_protocol e s) demo_page
     [Activate False None (js ''https://x''), ClickOpen, Activate False None (js ''https://y'')]) = [js ''https://x'']"
  using opens_are_confirmed[of demo_page demo_protocol
      "[Activate False None (js ''https://x''), ClickOpen, Activate False None (js ''https://y'')]"]
  by (simp add: demo_page_def prefersDirect_def getItem_def activate_def web_scheme_def demo_protocol_def
      starts_with_def show_dialog_def close_dialog_def open_uri_def)

end
