(* ===== verification/EscWatch.thy ===== *)
theory EscWatch
  imports WebStorage
begin

text \<open>
  \<^verbatim>\<open>site/esc-watch.mjs\<close>: the detector of browser extensions that swallow Esc. Its state is the four
  times it remembers (\<open>None\<close> is minus infinity), its two stages, and the banner; an event carries the
  time \<open>performance.now()\<close> gives it.
\<close>

definition KEY :: jstr where "KEY = js ''wosh.eschint.v1''"
definition EXPLAIN_WINDOW_MS :: rat where "EXPLAIN_WINDOW_MS = 300"
definition INPUT_WINDOW_MS :: rat where "INPUT_WINDOW_MS = 5000"
definition RETRY_WINDOW_MS :: rat where "RETRY_WINDOW_MS = 30000"

record esc_watch =
  installed :: bool
  lastExplainedAt :: "rat option"
  lastInputAt :: "rat option"
  lastShapeBlurAt :: "rat option"
  detecting :: bool
  armed :: bool
  banner_hidden :: bool
  refocuses :: nat
  esc_prefs :: storage

text \<open>A blur: whether the terminal's text area lost focus, whether \<open>relatedTarget\<close> is null, and
  whether the document still has focus.\<close>

datatype esc_event =
    Pointer rat
  | KeyDown rat jstr bool
  | Input rat
  | Blur rat bool bool bool
  | Dismiss
  | Never

definition initEscWatch :: "bool \<Rightarrow> storage \<Rightarrow> esc_watch" where
  "initEscWatch coarse st =
     (let off = (case getItem st KEY of None \<Rightarrow> False | Some v \<Rightarrow> v = Some (Text (js ''off''))) in
      \<lparr>installed = (\<not> coarse \<and> \<not> off), lastExplainedAt = None, lastInputAt = None, lastShapeBlurAt = None,
       detecting = True, armed = False, banner_hidden = True, refocuses = 0, esc_prefs = st\<rparr>)"

definition recent :: "rat \<Rightarrow> rat option \<Rightarrow> rat \<Rightarrow> bool" where
  "recent w since t = (case since of None \<Rightarrow> False | Some u \<Rightarrow> t - u < w)"

text \<open>The shape of an unattributed blur, and what it does.\<close>

definition shape_blur :: "esc_event \<Rightarrow> esc_watch \<Rightarrow> bool" where
  "shape_blur e s =
     (case e of
        Blur t on_term related_null has_focus \<Rightarrow>
          installed s \<and> detecting s \<and> on_term \<and> related_null \<and> has_focus \<and>
          \<not> recent EXPLAIN_WINDOW_MS (lastExplainedAt s) t
      | _ \<Rightarrow> False)"

definition typing_correlated :: "rat \<Rightarrow> esc_watch \<Rightarrow> bool" where
  "typing_correlated t s = recent INPUT_WINDOW_MS (lastInputAt s) t"

definition on_shape_blur :: "rat \<Rightarrow> esc_watch \<Rightarrow> esc_watch" where
  "on_shape_blur t s =
     (let typing = typing_correlated t s in
      if armed s \<and> (typing \<or> recent RETRY_WINDOW_MS (lastShapeBlurAt s) t)
      then s\<lparr>detecting := False, banner_hidden := False, lastShapeBlurAt := Some t\<rparr>
      else if typing then s\<lparr>armed := True, lastShapeBlurAt := Some t\<rparr>
      else s\<lparr>lastShapeBlurAt := Some t\<rparr>)"

definition dismiss :: "esc_watch \<Rightarrow> esc_watch" where
  "dismiss s = s\<lparr>banner_hidden := True, refocuses := refocuses s + 1\<rparr>"

fun esc_step :: "esc_event \<Rightarrow> esc_watch \<Rightarrow> esc_watch" where
  "esc_step (Pointer t) s = (if installed s then s\<lparr>lastExplainedAt := Some t\<rparr> else s)"
| "esc_step (KeyDown t key in_terminal) s =
     (if \<not> installed s then s
      else let s1 = (if key = js ''Tab'' then s\<lparr>lastExplainedAt := Some t\<rparr> else s)
           in if key = js ''Escape'' \<and> in_terminal
              then s1\<lparr>detecting := False, banner_hidden := True\<rparr> else s1)"
| "esc_step (Input t) s = (if installed s then s\<lparr>lastInputAt := Some t\<rparr> else s)"
| "esc_step (Blur t a b c) s = (if shape_blur (Blur t a b c) s then on_shape_blur t s else s)"
| "esc_step Dismiss s = (if installed s then dismiss s else s)"
| "esc_step Never s =
     (if installed s
      then dismiss (s\<lparr>esc_prefs := attempt (esc_prefs s) (setItem KEY (Text (js ''off'')) (esc_prefs s))\<rparr>) else s)"

abbreviation esc_run :: "esc_event list \<Rightarrow> esc_watch \<Rightarrow> esc_watch" where
  "esc_run es s \<equiv> foldl (\<lambda>s e. esc_step e s) s es"

text \<open>The unattributed blurs of a run, each with whether it interrupted typing.\<close>

fun blur_log :: "esc_event list \<Rightarrow> esc_watch \<Rightarrow> bool list" where
  "blur_log [] s = []"
| "blur_log (e # es) s =
     (case e of
        Blur t _ _ _ \<Rightarrow> if shape_blur e s then [typing_correlated t s] else []
      | _ \<Rightarrow> []) @ blur_log es (esc_step e s)"

subsection \<open>The two stages\<close>

definition log_inv :: "bool list \<Rightarrow> esc_watch \<Rightarrow> bool" where
  "log_inv l s \<longleftrightarrow> (armed s \<longrightarrow> True \<in> set l) \<and>
     (\<not> banner_hidden s \<longrightarrow> True \<in> set (butlast l))"

lemma log_inv_step:
  assumes "log_inv l s"
  shows "log_inv (l @ blur_log [e] s) (esc_step e s)"
proof (cases "shape_blur e s")
  case True
  then obtain t a b c where e: "e = Blur t a b c" by (auto simp: shape_blur_def split: esc_event.splits)
  have "True \<in> set l" if "\<not> banner_hidden s"
    using assms that by (auto simp: log_inv_def dest: in_set_butlastD)
  with assms True show ?thesis
    by (auto simp: e log_inv_def on_shape_blur_def Let_def)
next
  case False
  then have "blur_log [e] s = []" by (cases e) auto
  with False assms show ?thesis
    by (cases e) (auto simp: log_inv_def dismiss_def Let_def)
qed

lemma blur_log_Cons: "blur_log (e # es) s = blur_log [e] s @ blur_log es (esc_step e s)"
  by simp

lemma log_inv_run: "log_inv l s \<Longrightarrow> log_inv (l @ blur_log es s) (esc_run es s)"
proof (induction es arbitrary: l s)
  case (Cons e es)
  from Cons.IH[OF log_inv_step[OF Cons.prems, of e]] show ?case
    by (subst blur_log_Cons) (simp only: append_assoc foldl_Cons)
qed simp

lemma muted_run:
  "\<not> detecting s \<Longrightarrow> banner_hidden s \<Longrightarrow> banner_hidden (esc_run es s) \<and> \<not> detecting (esc_run es s)"
proof (induction es arbitrary: s)
  case (Cons e es)
  then have "\<not> detecting (esc_step e s)" "banner_hidden (esc_step e s)"
    by (cases e; auto simp: shape_blur_def dismiss_def Let_def)+
  then show ?case using Cons.IH by simp
qed simp

lemma off_run: "\<not> installed s \<Longrightarrow> esc_run es s = s"
proof (induction es)
  case (Cons e es)
  then have "esc_step e s = s" by (cases e) (auto simp: shape_blur_def)
  with Cons show ?case by simp
qed simp

lemma installed_step: "installed (esc_step e s) = installed s"
  by (cases e) (auto simp: dismiss_def on_shape_blur_def Let_def)

lemma installed_run: "installed (esc_run es s) = installed s"
  by (induction es arbitrary: s) (auto simp: installed_step)

text \<open>One odd blur is never evidence. If the banner is up, then the run held at least two unattributed
  blurs, and one before the last had interrupted typing. A click or Tab just before, a focus that went
  elsewhere or a window that lost focus does not count.\<close>

theorem banner_needs_pattern:
  assumes "\<not> banner_hidden (esc_run es (initEscWatch coarse st))"
  shows "True \<in> set (butlast (blur_log es (initEscWatch coarse st)))"
proof -
  have "log_inv [] (initEscWatch coarse st)" by (simp add: log_inv_def initEscWatch_def Let_def)
  from log_inv_run[OF this, of es] assms show ?thesis by (simp add: log_inv_def)
qed

lemma banner_needs_pattern_witness:
  "True \<in> set (butlast (blur_log [Input 0, Blur 1000 True True True, Blur 2000 True True True]
     (initEscWatch False \<lparr>can_read = False, can_write = False, items = (\<lambda>_. None)\<rparr>)))"
  by (rule banner_needs_pattern)
    (simp add: initEscWatch_def getItem_def shape_blur_def recent_def on_shape_blur_def typing_correlated_def
      INPUT_WINDOW_MS_def RETRY_WINDOW_MS_def)

text \<open>An Esc that gets through silences the hint. After an Escape keydown reaches the page in the
  terminal the banner is hidden and stays hidden for the rest of the load, and on a coarse pointer or
  after the opt-out it never shows at all.\<close>

theorem escape_mutes:
  assumes "t = KeyDown now (js ''Escape'') True"
  shows "banner_hidden (esc_run (es @ t # es') (initEscWatch coarse st)) \<and>
    (coarse \<or> getItem st KEY = Some (Some (Text (js ''off''))) \<longrightarrow>
       banner_hidden (esc_run es (initEscWatch coarse st)))"
proof -
  let ?s = "initEscWatch coarse st"
  have off: "banner_hidden (esc_run xs ?s)" if "\<not> installed ?s" for xs
    using off_run[OF that] by (simp add: initEscWatch_def Let_def)
  have "banner_hidden (esc_run es' (esc_step t (esc_run es ?s)))" if "installed ?s"
    using muted_run[of "esc_step t (esc_run es ?s)" es'] that
    by (simp add: assms installed_run Let_def)
  moreover have "banner_hidden (esc_run es ?s)" if "coarse \<or> getItem st KEY = Some (Some (Text (js ''off'')))"
    by (rule off) (use that in \<open>auto simp: initEscWatch_def Let_def\<close>)
  ultimately show ?thesis using off[of "es @ t # es'"] by (cases "installed ?s") auto
qed

lemma escape_mutes_witness:
  "banner_hidden (esc_run ([Input 0, Blur 1000 True True True, Blur 2000 True True True] @
     KeyDown 3000 (js ''Escape'') True # [Input 4000, Blur 5000 True True True, Blur 6000 True True True])
     (initEscWatch False \<lparr>can_read = False, can_write = False, items = (\<lambda>_. None)\<rparr>))"
  by (rule escape_mutes[OF refl, THEN conjunct1])

end
