(* ===== verification/TransferWorker.thy ===== *)
theory TransferWorker
  imports Prelude
begin

text \<open>
  \<^verbatim>\<open>site/transfer-worker.mjs\<close>: the worker that owns the staged files of downloads. The origin's private
  file system is the browser's: a file has its bytes and the part of them that is safe (flushed, or
  handed over by closing), and what survives a reload is some prefix that includes the safe part.
  Opening and to_remove wait for the browser, so messages interleave with them: a message only starts
  them and a later event completes them. Every answer is appended to the replies.
\<close>

record staged =
  f_data :: bytes
  f_safe :: bytes

text \<open>An entry of the \<open>open\<close> map.\<close>

record handle_state =
  h_offset :: nat
  h_flushed :: nat

datatype reply = RNum nat | RDone | RErr jstr

record worker =
  files :: "jstr \<Rightarrow> staged option"
  open_map :: "jstr \<Rightarrow> handle_state option"
  to_open :: "(nat \<times> jstr \<times> bool) list"
  to_remove :: "(nat \<times> jstr) list"
  replies :: "(nat \<times> reply) list"

datatype wmsg =
    MOpen jstr bool | MWrite jstr bytes | MFlush jstr | MCommitted jstr | MClose jstr | MRemove jstr
  | MOther jstr

text \<open>What the handle does with a call: it may throw, or write fewer bytes than asked.\<close>

datatype handle_result = Throws jstr | Does nat

definition not_open :: "jstr \<Rightarrow> jstr" where
  "not_open i = js ''transfer sink '' @ i @ js '': not open''"

definition answer :: "nat \<Rightarrow> reply \<Rightarrow> worker \<Rightarrow> worker" where
  "answer req r s = s\<lparr>replies := replies s @ [(req, r)]\<rparr>"

text \<open>\<open>handle.write(bytes, { at })\<close>: a hole before \<open>at\<close> reads as zeros.\<close>

definition write_at :: "nat \<Rightarrow> bytes \<Rightarrow> bytes \<Rightarrow> bytes" where
  "write_at n bs d = take n (d @ replicate (n - length d) 0) @ bs @ drop (n + length bs) d"

definition on_file :: "jstr \<Rightarrow> (staged \<Rightarrow> staged) \<Rightarrow> worker \<Rightarrow> worker" where
  "on_file i g s = s\<lparr>files := (files s)(i := map_option g (files s i))\<rparr>"

definition doWrite :: "handle_result \<Rightarrow> nat \<Rightarrow> jstr \<Rightarrow> bytes \<Rightarrow> worker \<Rightarrow> worker" where
  "doWrite w req i bs s =
     (case open_map s i of
        None \<Rightarrow> answer req (RErr (not_open i)) s
      | Some h \<Rightarrow>
         (case w of
            Throws e \<Rightarrow> answer req (RErr e) s
          | Does n \<Rightarrow>
             answer req RDone
               (on_file i (\<lambda>f. f\<lparr>f_data := write_at (h_offset h) (take n bs) (f_data f)\<rparr>)
                 (s\<lparr>open_map := (open_map s)(i \<mapsto> h\<lparr>h_offset := h_offset h + length bs\<rparr>)\<rparr>))))"

definition doFlush :: "handle_result \<Rightarrow> nat \<Rightarrow> jstr \<Rightarrow> worker \<Rightarrow> worker" where
  "doFlush w req i s =
     (case open_map s i of
        None \<Rightarrow> answer req (RErr (not_open i)) s
      | Some h \<Rightarrow>
         (case w of
            Throws e \<Rightarrow> answer req (RErr e) s
          | Does _ \<Rightarrow>
             answer req (RNum (h_offset h))
               (on_file i (\<lambda>f. f\<lparr>f_safe := f_data f\<rparr>)
                 (s\<lparr>open_map := (open_map s)(i \<mapsto> h\<lparr>h_flushed := h_offset h\<rparr>)\<rparr>))))"

definition doCommitted :: "nat \<Rightarrow> jstr \<Rightarrow> worker \<Rightarrow> worker" where
  "doCommitted req i s =
     (case open_map s i of
        None \<Rightarrow> answer req (RErr (not_open i)) s
      | Some h \<Rightarrow> answer req (RNum (h_flushed h)) s)"

definition doClose :: "jstr \<Rightarrow> worker \<Rightarrow> worker" where
  "doClose i s =
     (case open_map s i of
        None \<Rightarrow> s
      | Some h \<Rightarrow> on_file i (\<lambda>f. f\<lparr>f_safe := f_data f\<rparr>) (s\<lparr>open_map := (open_map s)(i := None)\<rparr>))"

definition doOpen :: "nat \<Rightarrow> jstr \<Rightarrow> bool \<Rightarrow> worker \<Rightarrow> worker" where
  "doOpen req i create s =
     (case open_map s i of
        Some h \<Rightarrow> answer req (RNum (h_flushed h)) s
      | None \<Rightarrow> s\<lparr>to_open := to_open s @ [(req, i, create)]\<rparr>)"

text \<open>The rest of \<open>doOpen\<close>: the file must exist or be created, and a file has one handle at a time.\<close>

definition doOpen_rest :: "jstr option \<Rightarrow> nat \<Rightarrow> jstr \<Rightarrow> bool \<Rightarrow> worker \<Rightarrow> worker" where
  "doOpen_rest refusal req i create s =
     (case refusal of
        Some e \<Rightarrow> answer req (RErr e) s
      | None \<Rightarrow>
         if files s i = None \<and> \<not> create then answer req (RErr (js ''NotFoundError'')) s
         else if open_map s i \<noteq> None then answer req (RErr (js ''NoModificationAllowedError'')) s
         else (let f = (case files s i of Some f \<Rightarrow> f | None \<Rightarrow> \<lparr>f_data = [], f_safe = []\<rparr>);
                   size = length (f_data f)
               in answer req (RNum size)
                    (s\<lparr>files := (files s)(i \<mapsto> f),
                       open_map := (open_map s)(i \<mapsto> \<lparr>h_offset = size, h_flushed = size\<rparr>)\<rparr>)))"

definition doRemove :: "nat \<Rightarrow> jstr \<Rightarrow> worker \<Rightarrow> worker" where
  "doRemove req i s = (let s1 = doClose i s in s1\<lparr>to_remove := to_remove s1 @ [(req, i)]\<rparr>)"

text \<open>The rest of \<open>doRemove\<close>: the entry is not removed while a handle holds it, and no failure shows.\<close>

definition doRemove_rest :: "nat \<Rightarrow> jstr \<Rightarrow> worker \<Rightarrow> worker" where
  "doRemove_rest req i s =
     answer req RDone (if open_map s i = None then s\<lparr>files := (files s)(i := None)\<rparr> else s)"

fun onmessage :: "handle_result \<Rightarrow> nat \<Rightarrow> wmsg \<Rightarrow> worker \<Rightarrow> worker" where
  "onmessage w req (MOpen i create) s = doOpen req i create s"
| "onmessage w req (MWrite i bs) s = doWrite w req i bs s"
| "onmessage w req (MFlush i) s = doFlush w req i s"
| "onmessage w req (MCommitted i) s = doCommitted req i s"
| "onmessage w req (MClose i) s = answer req RDone (doClose i s)"
| "onmessage w req (MRemove i) s = doRemove req i s"
| "onmessage w req (MOther op) s = answer req (RErr (js ''transfer worker: unknown op '' @ op)) s"

text \<open>A reload: no handle and nothing pending is left, and of every file a prefix.\<close>

definition reload :: "(jstr \<Rightarrow> nat) \<Rightarrow> worker \<Rightarrow> worker" where
  "reload kept s =
     \<lparr>files = (\<lambda>i. map_option (\<lambda>f. let d = take (max (kept i) (length (f_safe f))) (f_data f)
                                  in \<lparr>f_data = d, f_safe = d\<rparr>) (files s i)),
      open_map = (\<lambda>_. None), to_open = [], to_remove = [], replies = []\<rparr>"

datatype wevent =
    Recv handle_result nat wmsg
  | OpenDone "jstr option"
  | RemoveDone
  | Reload "jstr \<Rightarrow> nat"

text \<open>The browser completes what waits in the order it was asked.\<close>

fun wstep :: "wevent \<Rightarrow> worker \<Rightarrow> worker" where
  "wstep (Recv w req m) s = onmessage w req m s"
| "wstep (OpenDone refusal) s =
     (case to_open s of
        [] \<Rightarrow> s
      | (req, i, create) # os \<Rightarrow> doOpen_rest refusal req i create (s\<lparr>to_open := os\<rparr>))"
| "wstep RemoveDone s =
     (case to_remove s of
        [] \<Rightarrow> s
      | (req, i) # rs \<Rightarrow> doRemove_rest req i (s\<lparr>to_remove := rs\<rparr>))"
| "wstep (Reload kept) s = reload kept s"

abbreviation wrun :: "wevent list \<Rightarrow> worker \<Rightarrow> worker" where
  "wrun es s \<equiv> foldl (\<lambda>s e. wstep e s) s es"

subsection \<open>Handles and files agree\<close>

text \<open>The handle writes all it is given or throws.\<close>

fun full_write :: "wevent \<Rightarrow> bool" where
  "full_write (Recv (Does n) req (MWrite i bs)) \<longleftrightarrow> n = length bs"
| "full_write _ \<longleftrightarrow> True"

definition handle_ok :: "handle_state \<Rightarrow> staged \<Rightarrow> bool" where
  "handle_ok h f \<longleftrightarrow> h_offset h = length (f_data f) \<and> h_flushed h = length (f_safe f)"

definition slot_ok :: "staged option \<Rightarrow> handle_state option \<Rightarrow> bool" where
  "slot_ok f h \<longleftrightarrow>
     (case f of
        None \<Rightarrow> h = None
      | Some f \<Rightarrow> prefix (f_safe f) (f_data f) \<and>
          (case h of None \<Rightarrow> f_safe f = f_data f | Some h \<Rightarrow> handle_ok h f))"

definition worker_ok :: "worker \<Rightarrow> bool" where
  "worker_ok s \<longleftrightarrow> (\<forall>i. slot_ok (files s i) (open_map s i))"

lemma worker_okD: "worker_ok s \<Longrightarrow> slot_ok (files s i) (open_map s i)"
  by (simp add: worker_ok_def)

lemma worker_ok_answer [simp]: "worker_ok (answer req r s) = worker_ok s"
  by (simp add: worker_ok_def answer_def)

lemma write_at_end: "write_at (length d) bs d = d @ bs"
  by (simp add: write_at_def)

lemma worker_ok_upd:
  assumes "worker_ok s" "\<And>j. j \<noteq> i \<Longrightarrow> files s' j = files s j \<and> open_map s' j = open_map s j"
    and "slot_ok (files s' i) (open_map s' i)"
  shows "worker_ok s'"
  using assms unfolding worker_ok_def by metis

lemma worker_ok_write:
  assumes "worker_ok s" "full_write (Recv w req (MWrite i bs))"
  shows "worker_ok (doWrite w req i bs s)"
proof (cases "open_map s i")
  case (Some h)
  then obtain f where f: "files s i = Some f" "handle_ok h f" "prefix (f_safe f) (f_data f)"
    using worker_okD[OF assms(1), of i] by (auto simp: slot_ok_def split: option.splits)
  show ?thesis
  proof (cases w)
    case (Does n)
    with assms(2) have "n = length bs" by simp
    with Does Some f show ?thesis
      by (auto simp: doWrite_def on_file_def handle_ok_def slot_ok_def write_at_end prefix_append
          intro!: worker_ok_upd[OF assms(1), of i])
  qed (simp add: doWrite_def Some assms(1))
qed (simp add: doWrite_def assms(1))

lemma worker_ok_flush: "worker_ok s \<Longrightarrow> worker_ok (doFlush w req i s)"
proof -
  assume ok: "worker_ok s"
  show ?thesis
  proof (cases "open_map s i")
    case (Some h)
    then obtain f where f: "files s i = Some f" "handle_ok h f"
      using worker_okD[OF ok, of i] by (auto simp: slot_ok_def split: option.splits)
    with Some ok show ?thesis
      by (cases w) (auto simp: doFlush_def on_file_def handle_ok_def slot_ok_def intro!: worker_ok_upd[OF ok, of i])
  qed (simp add: doFlush_def ok)
qed

lemma worker_ok_close: "worker_ok s \<Longrightarrow> worker_ok (doClose i s)"
proof -
  assume ok: "worker_ok s"
  show ?thesis
  proof (cases "open_map s i")
    case (Some h)
    then obtain f where f: "files s i = Some f"
      using worker_okD[OF ok, of i] by (auto simp: slot_ok_def split: option.splits)
    with Some ok show ?thesis
      by (auto simp: doClose_def on_file_def slot_ok_def intro!: worker_ok_upd[OF ok, of i])
  qed (simp add: doClose_def ok)
qed

lemma worker_ok_open_rest: "worker_ok s \<Longrightarrow> worker_ok (doOpen_rest r req i create s)"
  using worker_okD[of s i]
  by (auto simp: doOpen_rest_def Let_def slot_ok_def handle_ok_def split: option.splits
      intro!: worker_ok_upd[of s i])

lemma worker_ok_remove_rest: "worker_ok s \<Longrightarrow> worker_ok (doRemove_rest req i s)"
  by (auto simp: doRemove_rest_def slot_ok_def intro!: worker_ok_upd[of s i])

lemma worker_ok_queues [simp]:
  "worker_ok (s\<lparr>to_open := os\<rparr>) = worker_ok s" "worker_ok (s\<lparr>to_remove := rs\<rparr>) = worker_ok s"
  by (simp_all add: worker_ok_def)

lemma worker_ok_reload: "worker_ok s \<Longrightarrow> worker_ok (reload kept s)"
  by (auto simp: worker_ok_def reload_def slot_ok_def Let_def split: option.splits)

lemma worker_ok_step [page_inv]: "worker_ok s \<Longrightarrow> full_write e \<Longrightarrow> worker_ok (wstep e s)"
proof (cases e)
  case (Recv w req m)
  assume "worker_ok s" "full_write e"
  with Recv show ?thesis
    by (cases m) (auto simp: worker_ok_write worker_ok_flush worker_ok_close doCommitted_def doOpen_def doRemove_def
        Let_def split: option.splits)
qed (auto simp: worker_ok_open_rest worker_ok_remove_rest worker_ok_reload split: list.splits)

lemma worker_ok_run: "worker_ok s \<Longrightarrow> list_all full_write es \<Longrightarrow> worker_ok (wrun es s)"
  by (induction es arbitrary: s) (auto intro: worker_ok_step)

definition empty_worker :: worker where
  "empty_worker = \<lparr>files = (\<lambda>_. None), open_map = (\<lambda>_. None), to_open = [], to_remove = [], replies = []\<rparr>"

lemma worker_ok_empty: "worker_ok empty_worker"
  by (simp add: worker_ok_def empty_worker_def slot_ok_def)

subsection \<open>The log a download is written to\<close>

text \<open>
  What a sink promises its writer: bytes are appended, a flush makes all of them safe, and the
  committed length never exceeds what is safe.
\<close>

datatype log_op = Append bytes | Flush

locale append_log =
  fixes app :: "bytes \<Rightarrow> 's \<Rightarrow> 's" and flush :: "'s \<Rightarrow> 's" and committed :: "'s \<Rightarrow> nat"
    and contents :: "'s \<Rightarrow> bytes" and safe :: "'s \<Rightarrow> bytes" and good :: "'s \<Rightarrow> bool"
  assumes good_app: "good s \<Longrightarrow> good (app b s)" and good_flush: "good s \<Longrightarrow> good (flush s)"
    and contents_app: "good s \<Longrightarrow> contents (app b s) = contents s @ b"
    and contents_flush: "good s \<Longrightarrow> contents (flush s) = contents s"
    and committed_flush: "good s \<Longrightarrow> committed (flush s) = length (contents s)"
    and safe_prefix: "good s \<Longrightarrow> prefix (safe s) (contents s)"
    and committed_safe: "good s \<Longrightarrow> committed s \<le> length (safe s)"
begin

fun log_do :: "log_op \<Rightarrow> 's \<Rightarrow> 's" where
  "log_do (Append b) s = app b s"
| "log_do Flush s = flush s"

lemma good_run: "good s \<Longrightarrow> good (foldl (\<lambda>s x. log_do x s) s xs)"
proof (induction xs arbitrary: s)
  case (Cons x xs)
  then show ?case by (cases x) (auto simp: good_app good_flush)
qed simp

lemma contents_run:
  "good s \<Longrightarrow> contents (foldl (\<lambda>s x. log_do x s) s xs) =
     contents s @ concat (map (\<lambda>x. case x of Append b \<Rightarrow> b | Flush \<Rightarrow> []) xs)"
proof (induction xs arbitrary: s)
  case (Cons x xs)
  then show ?case by (cases x) (auto simp: good_app good_flush contents_app contents_flush)
qed simp

text \<open>Resuming from the committed length with the rest of the stream rebuilds the stream.\<close>

lemma committed_prefix: "good s \<Longrightarrow> take (committed s) (contents s) = take (committed s) (safe s)"
  using safe_prefix[of s] committed_safe[of s] by (auto simp: prefix_def)

end

definition staged_bytes :: "jstr \<Rightarrow> worker \<Rightarrow> bytes" where
  "staged_bytes i s = (case files s i of None \<Rightarrow> [] | Some f \<Rightarrow> f_data f)"

definition safe_bytes :: "jstr \<Rightarrow> worker \<Rightarrow> bytes" where
  "safe_bytes i s = (case files s i of None \<Rightarrow> [] | Some f \<Rightarrow> f_safe f)"

definition committed_len :: "jstr \<Rightarrow> worker \<Rightarrow> nat" where
  "committed_len i s = (case open_map s i of None \<Rightarrow> 0 | Some h \<Rightarrow> h_flushed h)"

definition is_open :: "jstr \<Rightarrow> worker \<Rightarrow> bool" where
  "is_open i s \<longleftrightarrow> worker_ok s \<and> open_map s i \<noteq> None"

lemma is_openD: "is_open i s \<Longrightarrow> \<exists>h f. open_map s i = Some h \<and> files s i = Some f \<and> handle_ok h f \<and> prefix (f_safe f) (f_data f)"
  using worker_okD[of s i] by (auto simp: is_open_def slot_ok_def split: option.splits)

interpretation sink: append_log "\<lambda>b. doWrite (Does (length b)) 0 i b" "doFlush (Does 0) 0 i" "committed_len i"
  "staged_bytes i" "safe_bytes i" "is_open i" for i
proof unfold_locales
  fix s b assume o: "is_open i s"
  then obtain h f where hf: "open_map s i = Some h" "files s i = Some f" "handle_ok h f" "prefix (f_safe f) (f_data f)"
    using is_openD by blast
  have ok: "worker_ok s" using o by (simp add: is_open_def)
  have m: "open_map (doWrite (Does (length b)) 0 i b s) i \<noteq> None" "open_map (doFlush (Does 0) 0 i s) i \<noteq> None"
    by (simp_all add: doWrite_def doFlush_def hf answer_def on_file_def)
  show "is_open i (doWrite (Does (length b)) 0 i b s)" "is_open i (doFlush (Does 0) 0 i s)"
    using worker_ok_write[OF ok, of "Does (length b)" 0 i b] worker_ok_flush[OF ok] m by (auto simp: is_open_def)
  show "staged_bytes i (doWrite (Does (length b)) 0 i b s) = staged_bytes i s @ b"
    "staged_bytes i (doFlush (Does 0) 0 i s) = staged_bytes i s"
    "committed_len i (doFlush (Does 0) 0 i s) = length (staged_bytes i s)"
    using hf(3) by (simp_all add: doWrite_def doFlush_def hf answer_def on_file_def staged_bytes_def committed_len_def
        handle_ok_def write_at_end)
  show "prefix (safe_bytes i s) (staged_bytes i s)" "committed_len i s \<le> length (safe_bytes i s)"
    using hf by (simp_all add: staged_bytes_def safe_bytes_def committed_len_def handle_ok_def)
qed

definition write_all :: "jstr \<Rightarrow> bytes list \<Rightarrow> worker \<Rightarrow> worker" where
  "write_all i cs s = foldl (\<lambda>s b. doWrite (Does (length b)) 0 i b s) s cs"

lemma write_all_bytes: "is_open i s \<Longrightarrow> staged_bytes i (write_all i cs s) = staged_bytes i s @ concat cs"
proof -
  assume o: "is_open i s"
  have "write_all i cs s = foldl (\<lambda>s x. sink.log_do i x s) s (map Append cs)"
    unfolding write_all_def by (induction cs arbitrary: s) auto
  with sink.contents_run[OF o, of "map Append cs"] show ?thesis by (simp add: o_def)
qed

text \<open>C5: The committed length is never overstated. At any point of any exchange with the worker (any
  messages in any order, opens and removals completing late, reloads), as long as writes are whole,
  the length it reports as committed for a staged file is of bytes that survive a reload.\<close>

theorem committed_survives:
  assumes "list_all full_write es" and "open_map (wrun es empty_worker) i \<noteq> None"
  shows "replies (onmessage w req (MCommitted i) (wrun es empty_worker)) =
      replies (wrun es empty_worker) @ [(req, RNum (committed_len i (wrun es empty_worker)))] \<and>
    committed_len i (wrun es empty_worker) \<le> length (staged_bytes i (wrun es empty_worker)) \<and>
    prefix (take (committed_len i (wrun es empty_worker)) (staged_bytes i (wrun es empty_worker)))
      (staged_bytes i (reload kept (wrun es empty_worker)))"
proof -
  let ?s = "wrun es empty_worker"
  have o: "is_open i ?s" using worker_ok_run[OF worker_ok_empty assms(1)] assms(2) by (simp add: is_open_def)
  then obtain h f where hf: "open_map ?s i = Some h" "files ?s i = Some f" "handle_ok h f" "prefix (f_safe f) (f_data f)"
    using is_openD by blast
  then have "take (h_flushed h) (f_data f) = take (h_flushed h) (take (max (kept i) (length (f_safe f))) (f_data f))"
    by (simp add: handle_ok_def min_def)
  then have "prefix (take (h_flushed h) (f_data f)) (take (max (kept i) (length (f_safe f))) (f_data f))"
    by (metis take_is_prefix)
  then show ?thesis using hf prefix_length_le[OF hf(4)]
    by (simp add: doCommitted_def answer_def committed_len_def staged_bytes_def reload_def Let_def handle_ok_def)
qed

definition demo_events :: "wevent list" where
  "demo_events = [Recv (Does 0) 1 (MOpen (js ''x'') True), OpenDone None, Recv (Does 2) 2 (MWrite (js ''x'') [7, 8]),
     Recv (Does 0) 3 (MFlush (js ''x'')), Recv (Does 1) 4 (MWrite (js ''x'') [9])]"

lemmas worker_eval = empty_worker_def doOpen_def doOpen_rest_def doWrite_def doFlush_def doCommitted_def answer_def
  on_file_def write_at_def staged_bytes_def committed_len_def

lemma committed_survives_witness:
  "prefix [7, 8] (staged_bytes (js ''x'') (reload (\<lambda>_. 0) (wrun demo_events empty_worker)))"
  using committed_survives[of demo_events "js ''x''" "Does 0" 5 "\<lambda>_. 0"]
  by (simp add: demo_events_def worker_eval)

text \<open>C6: An interrupted download resumes byte for byte, where writes are whole. Take any exchange in which every
  write took its whole chunk (\<open>doWrite\<close> never looks at the count that \<open>write\<close> answers), and that left a staged
  file holding a beginning of the stream being downloaded; reload the page at that point, losing any unsafe tail;
  reopen the file. The length the worker answers is where to go on: writing the rest of the stream
  from there, in whatever pieces that are again written whole, leaves exactly the stream.\<close>

theorem resume_rebuilds_stream:
  assumes "list_all full_write es" and "files (wrun es empty_worker) i = Some f" and "prefix (f_data f) stream"
    and "s' = wrun [Reload kept, Recv w req (MOpen i create), OpenDone None] (wrun es empty_worker)"
  shows "\<exists>n \<le> length (f_data f). replies s' = [(req, RNum n)] \<and>
    (\<forall>cs. concat cs = drop n stream \<longrightarrow> staged_bytes i (write_all i cs s') = stream)"
proof -
  let ?s = "wrun es empty_worker"
  define d where "d = take (max (kept i) (length (f_safe f))) (f_data f)"
  have "worker_ok ?s" by (rule worker_ok_run[OF worker_ok_empty assms(1)])
  then have ok: "worker_ok s'" unfolding assms(4) by (rule worker_ok_run) simp
  have s': "files s' i = Some \<lparr>f_data = d, f_safe = d\<rparr>" "open_map s' i = Some \<lparr>h_offset = length d, h_flushed = length d\<rparr>"
    "replies s' = [(req, RNum (length d))]"
    using assms(2) by (simp_all add: assms(4) reload_def doOpen_def doOpen_rest_def answer_def d_def Let_def)
  then have o: "is_open i s'" using ok by (simp add: is_open_def)
  have "prefix d stream" using assms(3) unfolding d_def by (meson prefix_order.trans take_is_prefix)
  then have "d @ drop (length d) stream = stream" by (auto simp: prefix_def)
  moreover have "length d \<le> length (f_data f)" by (simp add: d_def)
  ultimately show ?thesis
    using write_all_bytes[OF o] s' by (intro exI[of _ "length d"]) (auto simp: staged_bytes_def)
qed

lemma resume_rebuilds_stream_witness:
  "\<exists>n \<le> 3. staged_bytes (js ''x'') (write_all (js ''x'') [drop n [7, 8, 9, 10]]
     (wrun [Reload (\<lambda>_. 0), Recv (Does 0) 5 (MOpen (js ''x'') False), OpenDone None] (wrun demo_events empty_worker))) = [7, 8, 9, 10]"
proof -
  have "list_all full_write demo_events" by (simp add: demo_events_def)
  moreover have "files (wrun demo_events empty_worker) (js ''x'') = Some \<lparr>f_data = [7, 8, 9], f_safe = [7, 8]\<rparr>"
    by (simp add: demo_events_def worker_eval)
  moreover have "prefix (f_data \<lparr>f_data = [7, 8, 9], f_safe = [7, 8]\<rparr>) [7, 8, 9, 10]" by simp
  ultimately obtain n where "n \<le> length (f_data \<lparr>f_data = [7, 8, 9::8 word], f_safe = [7, 8]\<rparr>)"
    and n: "\<forall>cs. concat cs = drop n [7, 8, 9, 10] \<longrightarrow> staged_bytes (js ''x'') (write_all (js ''x'') cs
      (wrun [Reload (\<lambda>_. 0), Recv (Does 0) 5 (MOpen (js ''x'') False), OpenDone None] (wrun demo_events empty_worker))) = [7, 8, 9, 10]"
    using resume_rebuilds_stream[OF _ _ _ refl] by blast
  then have "n \<le> 3" by simp
  with n show ?thesis by (intro exI[of _ n]) simp
qed

text \<open>A short write breaks the promise. The worker ignores how many bytes the handle took: when the
  handle writes one byte of two, the flushed length it then reports is one more than the file has.\<close>

theorem short_write_overstates:
  "let s = wrun [Recv (Does 0) 1 (MOpen (js ''x'') True), OpenDone None, Recv (Does 1) 2 (MWrite (js ''x'') [7, 8]),
       Recv (Does 0) 3 (MFlush (js ''x''))] empty_worker
   in replies s = [(1, RNum 0), (2, RDone), (3, RNum 2)] \<and> staged_bytes (js ''x'') s = [7]"
  by (simp add: worker_eval)

end
