(* ===== verification/TransferIo.thy ===== *)
theory TransferIo
  imports TransferWorker "HOL-Library.Multiset"
begin

text \<open>
  \<^verbatim>\<open>site/transfer-io.ts\<close>: the page's side of a transfer. The sink talks to the worker of
  TransferWorker by numbered requests over a message channel, and a table of pending promises turns
  replies back into results; the source reads slices of a picked file.
\<close>

subsection \<open>The remote calls\<close>

text \<open>\<open>nextReqId\<close>, \<open>pending\<close> and what became of the promises, in order; the requests on their way to the
  worker; the worker; and how many of its replies have arrived.\<close>

record rpc =
  nextReqId :: nat
  pending :: "nat list"
  settled :: "(nat \<times> reply) list"
  sent :: "(nat \<times> wmsg) list"
  worker_side :: worker
  arrived :: nat

definition rpc_call :: "wmsg \<Rightarrow> rpc \<Rightarrow> rpc" where
  "rpc_call m s =
     (let reqId = nextReqId s + 1 in
      s\<lparr>nextReqId := reqId, pending := reqId # pending s, sent := sent s @ [(reqId, m)]\<rparr>)"

text \<open>The \<open>onmessage\<close> of \<open>rpcWorker\<close>: an unknown id settles nothing.\<close>

definition rpc_reply :: "nat \<times> reply \<Rightarrow> rpc \<Rightarrow> rpc" where
  "rpc_reply = (\<lambda>(reqId, r) s.
     if reqId \<in> set (pending s)
     then s\<lparr>pending := removeAll reqId (pending s), settled := settled s @ [(reqId, r)]\<rparr> else s)"

inductive rpc_step :: "rpc \<Rightarrow> rpc \<Rightarrow> bool" where
  Call: "rpc_step s (rpc_call m s)"
| Receive: "sent s = (req, m) # rest \<Longrightarrow>
     rpc_step s (s\<lparr>sent := rest, worker_side := onmessage w req m (worker_side s)\<rparr>)"
| Complete_open: "rpc_step s (s\<lparr>worker_side := wstep (OpenDone refusal) (worker_side s)\<rparr>)"
| Complete_remove: "rpc_step s (s\<lparr>worker_side := wstep RemoveDone (worker_side s)\<rparr>)"
| Arrive: "arrived s < length (replies (worker_side s)) \<Longrightarrow>
     rpc_step s (rpc_reply (replies (worker_side s) ! arrived s) (s\<lparr>arrived := arrived s + 1\<rparr>))"


definition rpc_start :: rpc where
  "rpc_start = \<lparr>nextReqId = 0, pending = [], settled = [], sent = [], worker_side = empty_worker, arrived = 0\<rparr>"

definition rpc_reachable :: "rpc \<Rightarrow> bool" where
  "rpc_reachable s \<longleftrightarrow> rpc_step\<^sup>*\<^sup>* rpc_start s"

subsection \<open>Sink and source\<close>

datatype 'a result = Value 'a | Exception jstr

text \<open>\<open>errArm\<close>, and the shape all sink operations share: wait for the open, then call, and name the
  operation in the error of the call (an open that failed is reported as it is).\<close>

definition errArm :: "jstr \<Rightarrow> jstr \<Rightarrow> jstr" where
  "errArm what message = what @ js '': '' @ message"

definition sink_call :: "jstr \<Rightarrow> reply \<Rightarrow> reply \<Rightarrow> nat result" where
  "sink_call what opened r =
     (case opened of
        RErr e \<Rightarrow> Exception e
      | _ \<Rightarrow> (case r of
               RErr e \<Rightarrow> Exception (errArm (js ''transfer sink '' @ what) e)
             | RNum n \<Rightarrow> Value n
             | RDone \<Rightarrow> Value 0))"

definition sink_write :: "reply \<Rightarrow> reply \<Rightarrow> nat result" where
  "sink_write = sink_call (js ''write'')"

definition sink_committed :: "reply \<Rightarrow> reply \<Rightarrow> nat result" where
  "sink_committed = sink_call (js ''committed'')"

definition sink_flush :: "reply \<Rightarrow> reply \<Rightarrow> nat result" where
  "sink_flush = sink_call (js ''flush'')"

text \<open>The requests of the sink's operations, of \<open>closeStaged\<close> and of \<open>removeStaged\<close>.\<close>

definition sink_new :: "jstr \<Rightarrow> bool \<Rightarrow> wmsg" where "sink_new i create = MOpen i create"
definition sink_dispose :: "jstr \<Rightarrow> wmsg" where "sink_dispose i = MClose i"
definition closeStaged :: "jstr \<Rightarrow> wmsg" where "closeStaged i = MClose i"
definition removeStaged :: "jstr \<Rightarrow> wmsg" where "removeStaged i = MRemove i"

text \<open>\<open>stagedBlob\<close>: the file's bytes, re-tagged; missing files are an error.\<close>

definition stagedBlob :: "jstr \<Rightarrow> worker \<Rightarrow> (bytes \<times> jstr) option" where
  "stagedBlob i s = map_option (\<lambda>f. (f_data f, js ''application/octet-stream'')) (files s i)"

definition source_size :: "bytes \<Rightarrow> nat" where "source_size file = length file"

definition source_read :: "jstr option \<Rightarrow> bytes \<Rightarrow> nat \<Rightarrow> nat \<Rightarrow> bytes result" where
  "source_read failure file offset len =
     (case failure of
        Some e \<Rightarrow> Exception (errArm (js ''transfer source read'') e)
      | None \<Rightarrow> Value (take len (drop offset file)))"

subsection \<open>No promise is lost\<close>

definition waiting :: "worker \<Rightarrow> nat multiset" where
  "waiting s = mset (map fst (to_open s)) + mset (map fst (to_remove s)) + mset (map fst (replies s))"

lemma waiting_answer [simp]: "waiting (answer req r s) = waiting s + {#req#}"
  by (simp add: waiting_def answer_def)

lemma waiting_upd [simp]:
  "waiting (s\<lparr>files := f\<rparr>) = waiting s" "waiting (s\<lparr>open_map := m\<rparr>) = waiting s"
  "waiting (on_file i g s) = waiting s" "waiting (doClose i s) = waiting s"
  by (simp_all add: waiting_def on_file_def doClose_def split: option.splits)

lemma waiting_onmessage: "waiting (onmessage w req m s) = waiting s + {#req#}"
proof (cases m)
  case (MRemove i)
  have "to_open (doClose i s) = to_open s" "to_remove (doClose i s) = to_remove s" "replies (doClose i s) = replies s"
    by (simp_all add: doClose_def on_file_def split: option.splits)
  then show ?thesis by (simp add: MRemove doRemove_def Let_def waiting_def)
next
  case (MOpen i c)
  then show ?thesis by (auto simp: doOpen_def waiting_def answer_def split: option.splits)
qed (auto simp: doWrite_def doFlush_def doCommitted_def split: option.splits handle_result.splits)

lemma waiting_open_done: "waiting (wstep (OpenDone r) s) = waiting s"
proof (cases "to_open s")
  case (Cons p os)
  obtain req i c where p: "p = (req, i, c)" by (cases p)
  have "waiting (doOpen_rest r req i c t) = waiting t + {#req#}" for t
    by (auto simp: doOpen_rest_def Let_def waiting_def answer_def split: option.splits)
  moreover have "waiting (s\<lparr>to_open := os\<rparr>) + {#req#} = waiting s" by (simp add: waiting_def Cons p)
  ultimately show ?thesis by (simp add: Cons p)
qed simp

lemma waiting_remove_done: "waiting (wstep RemoveDone s) = waiting s"
proof (cases "to_remove s")
  case (Cons p os)
  obtain req i where p: "p = (req, i)" by (cases p)
  have "waiting (doRemove_rest req i t) = waiting t + {#req#}" for t by (simp add: doRemove_rest_def)
  moreover have "waiting (s\<lparr>to_remove := os\<rparr>) + {#req#} = waiting s" by (simp add: waiting_def Cons p)
  ultimately show ?thesis by (simp add: Cons p)
qed simp

lemma replies_grow:
  "prefix (replies s) (replies (onmessage w req m s))"
  "prefix (replies s) (replies (wstep (OpenDone r) s))"
  "prefix (replies s) (replies (wstep RemoveDone s))"
  by (cases m; auto simp: doOpen_def doWrite_def doFlush_def doCommitted_def doRemove_def doClose_def answer_def
      on_file_def Let_def split: option.splits handle_result.splits)
    (auto simp: doOpen_rest_def doRemove_rest_def answer_def Let_def split: list.splits option.splits)

text \<open>Every id ever given out is in exactly one place: on the way, waiting in the worker, or answered;
  the promises settled are the replies that arrived, and the pending ones are the rest.\<close>

definition rpc_inv :: "rpc \<Rightarrow> bool" where
  "rpc_inv s \<longleftrightarrow>
     mset (map fst (sent s)) + waiting (worker_side s) = mset [1..<nextReqId s + 1] \<and>
     arrived s \<le> length (replies (worker_side s)) \<and>
     settled s = take (arrived s) (replies (worker_side s)) \<and>
     set (pending s) = {1..<nextReqId s + 1} - fst ` set (settled s)"

lemma rpc_inv_worker:
  assumes "rpc_inv s" "mset (map fst rest) + waiting w' = mset (map fst (sent s)) + waiting (worker_side s)"
    and "prefix (replies (worker_side s)) (replies w')"
  shows "rpc_inv (s\<lparr>sent := rest, worker_side := w'\<rparr>)"
  using assms by (auto simp: rpc_inv_def prefix_def)

definition all_ids :: "rpc \<Rightarrow> nat list" where
  "all_ids s = map fst (sent s) @ map fst (to_open (worker_side s)) @ map fst (to_remove (worker_side s)) @
     map fst (replies (worker_side s))"

lemma all_ids_once: "rpc_inv s \<Longrightarrow> distinct (all_ids s) \<and> set (all_ids s) = {1..<nextReqId s + 1}"
proof -
  assume "rpc_inv s"
  then have m: "mset (all_ids s) = mset [1..<nextReqId s + 1]"
    by (simp add: rpc_inv_def waiting_def all_ids_def add.assoc)
  from mset_eq_imp_distinct_iff[OF m] mset_eq_setD[OF m] show ?thesis
    by (simp only: distinct_upt set_upt simp_thms)
qed

lemma distinct_ids: "rpc_inv s \<Longrightarrow> distinct (map fst (replies (worker_side s)))"
  using all_ids_once by (simp add: all_ids_def)

lemma rpc_inv_step: "rpc_step s t \<Longrightarrow> rpc_inv s \<Longrightarrow> rpc_inv t"
proof (induction rule: rpc_step.induct)
  case (Call s m)
  have "fst ` set (replies (worker_side s)) \<subseteq> {1..<nextReqId s + 1}"
    using all_ids_once[OF Call] by (auto simp: all_ids_def)
  then have "Suc (nextReqId s) \<notin> fst ` set (settled s)"
    using Call by (force simp: rpc_inv_def dest: in_set_takeD)
  with Call show ?case by (auto simp: rpc_inv_def rpc_call_def Let_def)
next
  case (Receive s req m rest w)
  then show ?case
    by (intro rpc_inv_worker) (simp_all add: waiting_onmessage replies_grow)
next
  case (Complete_open s refusal)
  then have "rpc_inv (s\<lparr>sent := sent s, worker_side := wstep (OpenDone refusal) (worker_side s)\<rparr>)"
    by (intro rpc_inv_worker) (simp_all only: waiting_open_done replies_grow)
  then show ?case by simp
next
  case (Complete_remove s)
  then have "rpc_inv (s\<lparr>sent := sent s, worker_side := wstep RemoveDone (worker_side s)\<rparr>)"
    by (intro rpc_inv_worker) (simp_all only: waiting_remove_done replies_grow)
  then show ?case by simp
next
  case (Arrive s)
  let ?rs = "replies (worker_side s)" and ?n = "arrived s"
  obtain req r where rr: "?rs ! ?n = (req, r)" by (cases "?rs ! ?n")
  have d: "distinct (map fst ?rs)" using distinct_ids Arrive by blast
  have "take (Suc ?n) ?rs = take ?n ?rs @ [(req, r)]" using Arrive(1) rr by (simp add: take_Suc_conv_app_nth)
  then have new: "req \<notin> fst ` set (take ?n ?rs)"
  proof -
    have "distinct (map fst (take (Suc ?n) ?rs))" using distinct_take[OF d, of "Suc ?n"] by (simp add: take_map)
    then show ?thesis by (simp add: \<open>take (Suc ?n) ?rs = _\<close>)
  qed
  have "(req, r) \<in> set ?rs" using Arrive(1) rr by (metis nth_mem)
  then have "req \<in> set (all_ids s)" by (force simp: all_ids_def)
  then have "req \<in> {1..<nextReqId s + 1}" using all_ids_once[OF Arrive(2)] by simp
  then have "req \<in> set (pending s)" using Arrive(2) new by (auto simp: rpc_inv_def)
  then show ?case
    using Arrive rr new \<open>take (Suc ?n) ?rs = take ?n ?rs @ [(req, r)]\<close>
    by (auto simp: rpc_inv_def rpc_reply_def)
qed

lemma rpc_inv_reachable: "rpc_reachable s \<Longrightarrow> rpc_inv s"
proof -
  have s0: "rpc_inv rpc_start" by (simp add: rpc_inv_def rpc_start_def waiting_def empty_worker_def)
  show "rpc_reachable s \<Longrightarrow> rpc_inv s"
    unfolding rpc_reachable_def by (induction rule: rtranclp_induct) (auto intro: s0 rpc_inv_step)
qed

text \<open>The steps, spelled out for the case splits of a trace.\<close>

inductive_simps rpc_step_simps: "rpc_step s t"

text \<open>C28: Every remote call settles once, with its own answer. In any reachable state of page and worker the
  promises settled so far are, in order, exactly the replies that arrived (none is dropped, none
  settles twice), and when nothing is on the way or waiting no promise is left pending.\<close>

theorem calls_settle_once:
  assumes "rpc_reachable s"
  shows "settled s = take (arrived s) (replies (worker_side s)) \<and> distinct (map fst (settled s)) \<and>
    set (pending s) \<union> fst ` set (settled s) = {1..<nextReqId s + 1} \<and>
    (sent s = [] \<and> to_open (worker_side s) = [] \<and> to_remove (worker_side s) = [] \<and>
       arrived s = length (replies (worker_side s)) \<longrightarrow> pending s = [])"
proof -
  have inv: "rpc_inv s" by (rule rpc_inv_reachable[OF assms])
  let ?rs = "replies (worker_side s)"
  have se: "settled s = take (arrived s) ?rs" and pe: "set (pending s) = {1..<nextReqId s + 1} - fst ` set (settled s)"
    using inv by (simp_all add: rpc_inv_def)
  have "distinct (map fst (settled s))" using distinct_ids[OF inv] by (simp add: se take_map[symmetric] distinct_take)
  moreover have "fst ` set (settled s) \<subseteq> {1..<nextReqId s + 1}"
    using all_ids_once[OF inv] by (auto simp: all_ids_def se dest!: in_set_takeD)
  moreover have "pending s = []" if "sent s = []" "to_open (worker_side s) = []" "to_remove (worker_side s) = []"
    "arrived s = length ?rs"
  proof -
    have "set (map fst ?rs) = {1..<nextReqId s + 1}" using all_ids_once[OF inv] that by (simp add: all_ids_def)
    then show ?thesis using that pe se by auto
  qed
  ultimately show ?thesis using se pe by auto
qed

lemma calls_settle_once_witness:
  "settled (rpc_reply (1, RErr (js ''transfer worker: unknown op x'')) ((rpc_call (MOther (js ''x'')) rpc_start)
     \<lparr>sent := [], worker_side := onmessage (Does 0) 1 (MOther (js ''x'')) empty_worker, arrived := 1\<rparr>)) =
   [(1, RErr (js ''transfer worker: unknown op x''))]"
proof -
  let ?m = "MOther (js ''x'')"
  let ?a = "rpc_call ?m rpc_start"
  let ?b = "?a\<lparr>sent := [], worker_side := onmessage (Does 0) 1 ?m (worker_side ?a)\<rparr>"
  let ?c = "rpc_reply (replies (worker_side ?b) ! arrived ?b) (?b\<lparr>arrived := arrived ?b + 1\<rparr>)"
  have "sent ?a = [(1, ?m)]" by (simp add: rpc_call_def rpc_start_def)
  from Receive[OF this] have "rpc_step ?a ?b" .
  with Call[of rpc_start ?m] have "rpc_step\<^sup>*\<^sup>* rpc_start ?b"
    by (meson converse_rtranclp_into_rtranclp r_into_rtranclp)
  moreover have "rpc_step ?b ?c"
    by (rule Arrive) (simp add: rpc_call_def rpc_start_def empty_worker_def answer_def)
  ultimately have "rpc_reachable ?c" unfolding rpc_reachable_def by (rule rtranclp.rtrancl_into_rtrancl)
  from calls_settle_once[OF this, THEN conjunct1] show ?thesis
    by (simp add: rpc_call_def rpc_start_def empty_worker_def answer_def rpc_reply_def)
qed

text \<open>Reading a file in slices of one length gives its beginning, so all of it once past the end.\<close>

lemma source_reads:
  "concat (map (\<lambda>k. case source_read None file (k * n) n of Value b \<Rightarrow> b | Exception _ \<Rightarrow> []) [0..<m]) = take (m * n) file"
proof (induction m)
  case (Suc m)
  have "take (m * n) file @ take n (drop (m * n) file) = take (m * n + n) file" by (simp add: take_add)
  with Suc show ?case by (simp add: source_read_def add.commute)
qed simp

end
