(* ===== verification/Identity.thy ===== *)
theory Identity
  imports Idb
begin

text \<open>
  \<^verbatim>\<open>site/identity-store.ts\<close> and \<^verbatim>\<open>site/pairing-store.ts\<close>: this browser's SSH key pair and its pairing
  blob, both in one IndexedDB store shared by every tab. A key pair is a number, fresh for every
  \<open>mint\<close>. Tabs interleave between the awaits of \<open>loadOrMint\<close>; its last transaction, which looks again and
  puts, is one step, because the database runs one readwrite transaction at a time.
\<close>

subsection \<open>The SSH identity\<close>

text \<open>What \<open>usable\<close> makes of a stored value: a pair as \<open>mint\<close> makes them, or anything else.\<close>

datatype stored_identity = Nothing | Junk | Pair nat

fun usable :: "stored_identity \<Rightarrow> nat option" where
  "usable (Pair k) = Some k"
| "usable _ = None"

text \<open>A page's \<open>pairPromise\<close>: not asked for yet, at one of the awaits of \<open>loadOrMint\<close>, resolved (with the
  stored pair or with the pair of this page load only), or rejected.\<close>

datatype pair_promise =
    Unasked | Reading | Minting | Racing nat | Kept nat | Ephemeral nat | Rejected

record tabs =
  identity_db :: stored_identity
  next_key :: nat
  promise :: "nat \<Rightarrow> pair_promise"

definition set_promise :: "nat \<Rightarrow> pair_promise \<Rightarrow> tabs \<Rightarrow> tabs" where
  "set_promise p x s = s\<lparr>promise := (promise s)(p := x)\<rparr>"

definition mint :: "tabs \<Rightarrow> nat \<times> tabs" where
  "mint s = (next_key s, s\<lparr>next_key := next_key s + 1\<rparr>)"

text \<open>\<open>identityPair\<close>: the promise is made once per page.\<close>

definition identityPair :: "nat \<Rightarrow> tabs \<Rightarrow> tabs" where
  "identityPair p s = (if promise s p = Unasked then set_promise p Reading s else s)"

text \<open>The awaits of \<open>loadOrMint\<close> coming back.\<close>

definition read_done :: "nat \<Rightarrow> tabs \<Rightarrow> tabs" where
  "read_done p s =
     (case usable (identity_db s) of
        Some k \<Rightarrow> set_promise p (Kept k) s
      | None \<Rightarrow> set_promise p Minting s)"

definition mint_done :: "nat \<Rightarrow> tabs \<Rightarrow> tabs" where
  "mint_done p s = (let (k, s1) = mint s in set_promise p (Racing k) s1)"

definition race_done :: "nat \<Rightarrow> nat \<Rightarrow> tabs \<Rightarrow> tabs" where
  "race_done p candidate s =
     (case usable (identity_db s) of
        Some k \<Rightarrow> set_promise p (Kept k) s
      | None \<Rightarrow> set_promise p (Kept candidate) (s\<lparr>identity_db := Pair candidate\<rparr>))"

text \<open>Storage trouble anywhere in \<open>loadOrMint\<close>: a pair for this page load, if one can be minted.\<close>

definition fall_back :: "bool \<Rightarrow> nat \<Rightarrow> tabs \<Rightarrow> tabs" where
  "fall_back can_mint p s =
     (if can_mint then (let (k, s1) = mint s in set_promise p (Ephemeral k) s1)
      else set_promise p Rejected s)"

inductive tab_step :: "tabs \<Rightarrow> tabs \<Rightarrow> bool" where
  Ask: "tab_step s (identityPair p s)"
| Read: "promise s p = Reading \<Longrightarrow> tab_step s (read_done p s)"
| Mint: "promise s p = Minting \<Longrightarrow> tab_step s (mint_done p s)"
| Race: "promise s p = Racing k \<Longrightarrow> tab_step s (race_done p k s)"
| Trouble: "promise s p \<in> {Reading, Minting} \<or> (\<exists>k. promise s p = Racing k) \<Longrightarrow> tab_step s (fall_back b p s)"
| Reload: "tab_step s (set_promise p Unasked s)"

inductive_cases tab_stepE: "tab_step s t"

text \<open>The pair a page signs with, and the one whose public half it shows.\<close>

definition page_pair :: "nat \<Rightarrow> tabs \<Rightarrow> nat option" where
  "page_pair p s = (case promise s p of Kept k \<Rightarrow> Some k | Ephemeral k \<Rightarrow> Some k | _ \<Rightarrow> None)"

datatype 'a answered = Answer 'a | Failed jstr

definition errArm :: "jstr \<Rightarrow> jstr \<Rightarrow> jstr" where
  "errArm what message = what @ js '': '' @ message"

definition publicKey :: "(nat \<Rightarrow> bytes) \<Rightarrow> jstr \<Rightarrow> nat \<Rightarrow> tabs \<Rightarrow> bytes answered option" where
  "publicKey export message p s =
     (case promise s p of
        Rejected \<Rightarrow> Some (Failed (errArm (js ''ssh identity public key'') message))
      | _ \<Rightarrow> map_option (\<lambda>k. Answer (export k)) (page_pair p s))"

definition sign :: "(nat \<Rightarrow> bytes \<Rightarrow> bytes) \<Rightarrow> jstr \<Rightarrow> bytes \<Rightarrow> nat \<Rightarrow> tabs \<Rightarrow> bytes answered option" where
  "sign signature message content p s =
     (case promise s p of
        Rejected \<Rightarrow> Some (Failed (errArm (js ''ssh identity sign'') message))
      | _ \<Rightarrow> map_option (\<lambda>k. Answer (signature k content)) (page_pair p s))"

subsection \<open>One identity\<close>

definition tabs_inv :: "tabs \<Rightarrow> bool" where
  "tabs_inv s \<longleftrightarrow> (\<forall>p k. promise s p = Kept k \<longrightarrow> identity_db s = Pair k)"

lemma usable_Some: "usable v = Some k \<longleftrightarrow> v = Pair k"
  by (cases v) auto

lemma tabs_inv_step [page_inv]: "tab_step s t \<Longrightarrow> tabs_inv s \<Longrightarrow> tabs_inv t"
  by (induction rule: tab_step.induct)
    (auto simp: tabs_inv_def identityPair_def set_promise_def read_done_def mint_done_def race_done_def
      fall_back_def mint_def Let_def usable_Some split: option.splits if_splits)

lemma tabs_inv_run: "tab_step\<^sup>*\<^sup>* s t \<Longrightarrow> tabs_inv s \<Longrightarrow> tabs_inv t"
  by (induction rule: rtranclp_induct) (auto intro: tabs_inv_step)

text \<open>A pair once stored is never replaced.\<close>

lemma stored_step: "tab_step s t \<Longrightarrow> identity_db s = Pair k \<Longrightarrow> identity_db t = Pair k"
  by (induction rule: tab_step.induct)
    (auto simp: identityPair_def set_promise_def read_done_def mint_done_def race_done_def fall_back_def mint_def
      Let_def split: option.splits if_splits)

lemma stored_run: "tab_step\<^sup>*\<^sup>* s t \<Longrightarrow> identity_db s = Pair k \<Longrightarrow> identity_db t = Pair k"
  by (induction rule: rtranclp_induct) (auto intro: stored_step)

definition new_tabs :: "stored_identity \<Rightarrow> tabs" where
  "new_tabs v = \<lparr>identity_db = v, next_key = 0, promise = (\<lambda>_. Unasked)\<rparr>"

text \<open>C29: One browser, one SSH identity. However any number of tabs race to load or mint it, reload, or lose
  the database half-way, two tabs whose key came through the store have the same key, it is the one
  stored, and from then on the store keeps it.\<close>

theorem tabs_share_identity:
  assumes "tab_step\<^sup>*\<^sup>* (new_tabs v) s" and "promise s p = Kept k" and "tab_step\<^sup>*\<^sup>* s t"
  shows "identity_db t = Pair k \<and> (\<forall>q l. promise t q = Kept l \<longrightarrow> l = k)"
proof -
  have "tabs_inv (new_tabs v)" by (simp add: tabs_inv_def new_tabs_def)
  then have i: "tabs_inv s" "tabs_inv t" using tabs_inv_run assms(1,3) by (meson rtranclp_trans)+
  then have "identity_db t = Pair k" using stored_run[OF assms(3)] assms(2) by (auto simp: tabs_inv_def)
  with i(2) show ?thesis by (auto simp: tabs_inv_def)
qed

text \<open>Two tabs that both read an empty store before either minted.\<close>

definition raced :: tabs where
  "raced = race_done 0 0 (mint_done 1 (mint_done 0 (read_done 1 (read_done 0
     (identityPair 1 (identityPair 0 (new_tabs Nothing)))))))"

lemmas tab_eval = raced_def race_done_def mint_done_def read_done_def identityPair_def new_tabs_def set_promise_def
  mint_def

lemma raced_reached: "tab_step\<^sup>*\<^sup>* (new_tabs Nothing) raced"
proof -
  let ?a = "identityPair 1 (identityPair 0 (new_tabs Nothing))"
  let ?b = "read_done 1 (read_done 0 ?a)"
  let ?c = "mint_done 1 (mint_done 0 ?b)"
  have "tab_step\<^sup>*\<^sup>* (new_tabs Nothing) ?a" by (meson Ask r_into_rtranclp rtranclp_trans)
  moreover have "tab_step ?a (read_done 0 ?a)" "tab_step (read_done 0 ?a) ?b"
    by (rule Read, simp add: tab_eval)+
  moreover have "tab_step ?b (mint_done 0 ?b)" "tab_step (mint_done 0 ?b) ?c"
    by (rule Mint, simp add: tab_eval)+
  moreover have "tab_step ?c raced" unfolding raced_def by (rule Race) (simp add: tab_eval)
  ultimately show ?thesis by (meson rtranclp.rtrancl_into_rtrancl)
qed

lemma tabs_share_identity_witness:
  "identity_db (race_done 1 1 raced) = Pair 0 \<and> promise (race_done 1 1 raced) 1 = Kept 0"
proof -
  have "promise raced 0 = Kept 0" "promise raced 1 = Racing 1" by (simp_all add: tab_eval)
  moreover have "tab_step\<^sup>*\<^sup>* raced (race_done 1 1 raced)"
    using Race[of raced 1 1] \<open>promise raced 1 = Racing 1\<close> by blast
  ultimately have "identity_db (race_done 1 1 raced) = Pair 0"
    using tabs_share_identity[OF raced_reached] by blast
  then show ?thesis by (simp add: tab_eval)
qed

lemma public_key_and_signature_agree:
  "publicKey export m p s = Some (Answer a) \<Longrightarrow> \<exists>k. a = export k \<and> sign signature m' c p s = Some (Answer (signature k c))"
  by (auto simp: publicKey_def sign_def page_pair_def split: pair_promise.splits)

subsection \<open>The pairing blob\<close>

text \<open>Where a call fails: opening the database, or the transaction. Opening trouble is not an error.\<close>

datatype db_fail = DbFine | DbOpenFails | DbRequestFails jstr

record pairing_store =
  pairing_blob :: "bytes option"
  pairing_warnings :: nat

definition pairing_load :: "db_fail \<Rightarrow> pairing_store \<Rightarrow> bytes option answered \<times> pairing_store" where
  "pairing_load f s =
     (case f of
        DbOpenFails \<Rightarrow> (Answer None, s\<lparr>pairing_warnings := pairing_warnings s + 1\<rparr>)
      | DbRequestFails e \<Rightarrow> (Failed (errArm (js ''pairing load'') e), s)
      | DbFine \<Rightarrow> (Answer (pairing_blob s), s))"

definition pairing_save :: "db_fail \<Rightarrow> bytes \<Rightarrow> pairing_store \<Rightarrow> unit answered \<times> pairing_store" where
  "pairing_save f blob s =
     (case f of
        DbOpenFails \<Rightarrow> (Answer (), s\<lparr>pairing_warnings := pairing_warnings s + 1\<rparr>)
      | DbRequestFails e \<Rightarrow> (Failed (errArm (js ''pairing store'') e), s)
      | DbFine \<Rightarrow> (Answer (), s\<lparr>pairing_blob := Some blob\<rparr>))"

lemma pairing_roundtrip:
  "fst (pairing_load DbFine (snd (pairing_save DbFine blob s))) = Answer (Some blob)"
  by (simp add: pairing_load_def pairing_save_def)

end
