(* ===== verification/Qr.thy ===== *)
theory Qr
  imports Prelude
begin

text \<open>
  \<^verbatim>\<open>site/qr.mjs\<close>: scanning a QR code with the camera, as a machine whose states are the awaits of
  \<open>scanQr\<close>. What matters is the camera: when it is on, and that every way out turns it off before the
  promise settles. What a frame decodes to is an event.
\<close>

subsection \<open>The helpers\<close>

definition scanUnavailable :: "bool \<Rightarrow> bool \<Rightarrow> jstr option" where
  "scanUnavailable has_camera_api secure =
     (if has_camera_api then None
      else if \<not> secure then
        Some (js ''the camera needs a secure page: open this site over https '' @
              js ''(plain http only counts as secure on localhost)'')
      else Some (js ''this browser exposes no camera to the page''))"

text \<open>\<open>cameraError\<close>, on the name and the text of the exception.\<close>

definition cameraError :: "jstr \<Rightarrow> jstr \<Rightarrow> jstr" where
  "cameraError name message =
     (if name = js ''NotAllowedError'' \<or> name = js ''SecurityError'' then
        js ''camera permission was denied; allow it in the browser's site settings''
      else if name = js ''NotFoundError'' \<or> name = js ''OverconstrainedError'' then
        js ''no camera available on this device''
      else if name = js ''NotReadableError'' then js ''the camera is already in use by another app''
      else js ''could not open the camera: '' @ message)"

definition MAX_EDGE :: nat where "MAX_EDGE = 720"

text \<open>The size of the frame jsQR is given: \<open>None\<close> while there is no frame yet.\<close>

definition frame_size :: "nat \<Rightarrow> nat \<Rightarrow> (nat \<times> nat) option" where
  "frame_size vw vh =
     (if vw = 0 \<or> vh = 0 then None
      else let scale = min 1 (of_nat MAX_EDGE / of_nat (max vw vh) :: rat);
               side = (\<lambda>v. max 1 (nat \<lfloor>of_nat v * scale + 1 / 2\<rfloor>))
           in Some (side vw, side vh))"

text \<open>\<open>found[0]?.rawValue || null\<close>: nothing, or the empty text, is nothing.\<close>

definition detected :: "jstr list \<Rightarrow> jstr option" where
  "detected found = (case found of [] \<Rightarrow> None | v # _ \<Rightarrow> if v = [] then None else Some v)"

subsection \<open>The scan\<close>

datatype scan_result = ScanText jstr | ScanNull | ScanError jstr

datatype scan_phase = AwaitCamera | AwaitDetector | Detecting | Pausing | ScanDone scan_result

record scan =
  phase :: scan_phase
  aborted :: bool
  camera_on :: bool
  view_shown :: bool
  signal_bound :: bool
  releases :: nat

datatype scan_event =
    Abort
  | Granted | Refused jstr jstr
  | DetectorReady | DetectorFailed jstr
  | Frame "jstr option" | Tick

definition teardown :: "scan \<Rightarrow> scan" where
  "teardown s = s\<lparr>signal_bound := False, view_shown := False\<rparr>"

definition release_camera :: "scan \<Rightarrow> scan" where
  "release_camera s = teardown (s\<lparr>camera_on := False, releases := releases s + 1\<rparr>)"

definition settle :: "scan_result \<Rightarrow> scan \<Rightarrow> scan" where
  "settle r s = s\<lparr>phase := ScanDone r\<rparr>"

text \<open>\<open>finish\<close>: once.\<close>

definition finish :: "scan_result \<Rightarrow> scan \<Rightarrow> scan" where
  "finish r s = settle r (release_camera s)"

text \<open>\<open>scanQr\<close> up to the permission prompt; \<open>None\<close> in the second place when no camera API is there.\<close>

definition scanQr :: "bool \<Rightarrow> bool \<Rightarrow> bool \<Rightarrow> scan" where
  "scanQr has_camera_api secure with_signal =
     (case scanUnavailable has_camera_api secure of
        Some e \<Rightarrow> \<lparr>phase = ScanDone (ScanError e), aborted = False, camera_on = False, view_shown = False,
                   signal_bound = False, releases = 0\<rparr>
      | None \<Rightarrow> \<lparr>phase = AwaitCamera, aborted = False, camera_on = False, view_shown = True,
                 signal_bound = with_signal, releases = 0\<rparr>)"

fun scan_step :: "scan_event \<Rightarrow> scan \<Rightarrow> scan" where
  "scan_step Abort s =
     (case phase s of
        Detecting \<Rightarrow> finish ScanNull (s\<lparr>aborted := True\<rparr>)
      | Pausing \<Rightarrow> finish ScanNull (s\<lparr>aborted := True\<rparr>)
      | ScanDone _ \<Rightarrow> s
      | _ \<Rightarrow> s\<lparr>aborted := True\<rparr>)"
| "scan_step Granted s =
     (if phase s \<noteq> AwaitCamera then s
      else let s1 = s\<lparr>camera_on := True\<rparr> in
           if aborted s then settle ScanNull (release_camera s1) else s1\<lparr>phase := AwaitDetector\<rparr>)"
| "scan_step (Refused name message) s =
     (if phase s \<noteq> AwaitCamera then s
      else settle (if aborted s then ScanNull else ScanError (cameraError name message)) (teardown s))"
| "scan_step DetectorReady s =
     (if phase s \<noteq> AwaitDetector then s
      else if aborted s then finish ScanNull s else s\<lparr>phase := Detecting\<rparr>)"
| "scan_step (DetectorFailed e) s =
     (if phase s \<noteq> AwaitDetector then s
      else settle (if aborted s then ScanNull else ScanError e) (release_camera s))"
| "scan_step (Frame found) s =
     (if phase s \<noteq> Detecting then s
      else case found of Some v \<Rightarrow> finish (ScanText v) s | None \<Rightarrow> s\<lparr>phase := Pausing\<rparr>)"
| "scan_step Tick s = (if phase s = Pausing then s\<lparr>phase := Detecting\<rparr> else s)"

abbreviation scan_run :: "scan_event list \<Rightarrow> scan \<Rightarrow> scan" where
  "scan_run es s \<equiv> foldl (\<lambda>s e. scan_step e s) s es"

subsection \<open>The camera\<close>

fun scan_done :: "scan_phase \<Rightarrow> bool" where
  "scan_done (ScanDone _) = True"
| "scan_done _ = False"

definition scan_inv :: "scan \<Rightarrow> bool" where
  "scan_inv s \<longleftrightarrow>
     (camera_on s \<longleftrightarrow> phase s \<in> {AwaitDetector, Detecting, Pausing}) \<and>
     (scan_done (phase s) \<longrightarrow> \<not> view_shown s \<and> \<not> signal_bound s \<and> releases s \<le> 1) \<and>
     (\<not> scan_done (phase s) \<longrightarrow> view_shown s \<and> releases s = 0) \<and>
     (aborted s \<longrightarrow> phase s \<in> {AwaitCamera, AwaitDetector, ScanDone ScanNull})"

lemma scan_inv_step [page_inv]: "scan_inv s \<Longrightarrow> scan_inv (scan_step e s)"
  by (cases e; cases "phase s")
    (auto simp: scan_inv_def finish_def settle_def release_camera_def teardown_def Let_def split: option.splits)

interpretation scanning: started_machine "\<lambda>s e. scan_step e s" scan_inv "scanQr a b c"
  by unfold_locales (simp_all add: scan_inv_step, auto simp: scan_inv_def scanQr_def split: option.splits)

text \<open>A scan settles once.\<close>

lemma done_step: "phase s = ScanDone r \<Longrightarrow> scan_step e s = s"
  by (cases e) auto

lemma done_run: "phase s = ScanDone r \<Longrightarrow> scan_run es s = s"
  by (induction es) (auto simp: done_step)

text \<open>The camera is always put down. Whatever the order in which the user cancels, the permission
  prompt answers, the decoder loads or fails and frames decode: once the scan has settled the camera is
  off, the preview gone and the caller's signal let go; the camera was released at most once; nothing
  that happens later changes the result; and a scan that was cancelled settles with null or not yet.\<close>

theorem camera_released:
  "let s = scan_run es (scanQr has_camera_api secure with_signal) in
   (case phase s of
      ScanDone r \<Rightarrow> \<not> camera_on s \<and> \<not> view_shown s \<and> \<not> signal_bound s \<and> releases s \<le> 1 \<and> scan_run es' s = s
    | p \<Rightarrow> camera_on s = (p \<noteq> AwaitCamera)) \<and>
   (\<not> aborted s \<or> phase s \<in> {AwaitCamera, AwaitDetector, ScanDone ScanNull})"
proof -
  let ?s = "scan_run es (scanQr has_camera_api secure with_signal)"
  have "scan_inv ?s" by (rule scanning.ok_reached)
  then show ?thesis using done_run[of ?s _ es'] unfolding Let_def
    by (cases "phase ?s") (auto simp: scan_inv_def)
qed

lemma camera_released_witness:
  "\<not> camera_on (scan_run [Granted, DetectorReady, Frame None, Tick, Frame (Some [1])] (scanQr True True True))"
  using camera_released[where es = "[Granted, DetectorReady, Frame None, Tick, Frame (Some [1])]"
      and has_camera_api = True and secure = True and with_signal = True and es' = "[]"]
  by (simp add: scanQr_def scanUnavailable_def finish_def settle_def release_camera_def teardown_def Let_def)

text \<open>A cancel is honoured. From the moment the user cancels an unsettled scan, the next answer of the
  await it is in (the camera, the decoder) settles it with null, and a scan already looking at frames
  settles at once; no later frame is read.\<close>

theorem cancel_settles:
  assumes "\<not> scan_done (phase (scan_run es (scanQr True secure b)))"
    and "answer \<in> {Granted, Refused n m}" "answer' \<in> {DetectorReady, DetectorFailed m}"
  shows "phase (scan_run (es @ [Abort, answer, answer']) (scanQr True secure b)) = ScanDone ScanNull"
proof -
  let ?s = "scan_run es (scanQr True secure b)"
  have "phase (scan_step answer' (scan_step answer (scan_step Abort ?s))) = ScanDone ScanNull"
    using assms by (cases "phase ?s")
      (auto simp: finish_def settle_def release_camera_def teardown_def Let_def)
  then show ?thesis by simp
qed

lemma cancel_settles_witness:
  "phase (scan_run [Granted, DetectorReady, Frame None, Abort, Granted, DetectorReady] (scanQr True True True)) =
     ScanDone ScanNull"
  using cancel_settles[where es = "[Granted, DetectorReady, Frame None]" and secure = True and b = True
      and answer = Granted and n = "[]" and m = "[]" and answer' = DetectorReady]
  by (simp add: scanQr_def scanUnavailable_def Let_def)

end
