(* ===== verification/PageChrome.thy ===== *)
theory PageChrome
  imports Prelude
begin

text \<open>
  The small pieces around the terminal: \<^verbatim>\<open>site/lifecycle.mjs\<close> (what the page's lifecycle tells the
  session), \<^verbatim>\<open>site/overlay.mjs\<close> (the transient message over the terminal) and \<^verbatim>\<open>site/separator.mjs\<close>
  (the rules between sessions in the scrollback).
\<close>

subsection \<open>Lifecycle\<close>

datatype life_event = VisibilityChange bool | PageHide | PageShow | Freeze | Resume

datatype life_action = Paint | Suspend nat | Wake nat

text \<open>The session asked for at event time, or none; a session whose call throws or rejects is asked all
  the same, and a painter that throws costs nothing.\<close>

definition gone_away :: "nat option \<Rightarrow> life_action list" where
  "gone_away session = (case session of None \<Rightarrow> [] | Some i \<Rightarrow> [Suspend i])"

definition come_back :: "nat option \<Rightarrow> life_action list" where
  "come_back session = (case session of None \<Rightarrow> [] | Some i \<Rightarrow> [Wake i])"

fun lifecycle :: "nat option \<Rightarrow> life_event \<Rightarrow> life_action list" where
  "lifecycle session (VisibilityChange hidden) = (if hidden then Paint # gone_away session else come_back session)"
| "lifecycle session PageHide = gone_away session"
| "lifecycle session Freeze = gone_away session"
| "lifecycle session PageShow = come_back session"
| "lifecycle session Resume = come_back session"

text \<open>The client's \<open>suspend\<close> and \<open>wake\<close> are idempotent: what a session is told, as its last word.\<close>

definition suspended_after :: "bool \<Rightarrow> life_action list \<Rightarrow> bool" where
  "suspended_after b acts =
     foldl (\<lambda>b a. case a of Suspend _ \<Rightarrow> True | Wake _ \<Rightarrow> False | Paint \<Rightarrow> b) b acts"

definition goes_away :: "life_event \<Rightarrow> bool" where
  "goes_away e \<longleftrightarrow> e \<in> {VisibilityChange True, PageHide, Freeze}"

lemma lifecycle_last_word:
  "es \<noteq> [] \<Longrightarrow> suspended_after b (concat (map (lifecycle (Some i)) es)) = goes_away (last es)"
proof (induction es rule: rev_induct)
  case (snoc e es)
  show ?case by (cases e) (auto simp: suspended_after_def goes_away_def gone_away_def come_back_def)
qed simp

subsection \<open>Overlay\<close>

text \<open>A timer of the overlay: the fade of a message, or its removal after the fade. A timer is named when it
  is set, so that one that was cleared can be told from the one that is due.\<close>

datatype overlay_timer = Fade nat | Remove nat

record overlay =
  terminal :: bool
  shown :: bool
  message :: jstr
  faded :: bool
  overlay_timer :: "overlay_timer option"
  next_timer :: nat

definition overlay_hide :: "overlay \<Rightarrow> overlay" where
  "overlay_hide s = s\<lparr>overlay_timer := None, shown := False, faded := False\<rparr>"

definition overlay_activate :: "overlay \<Rightarrow> overlay" where
  "overlay_activate s = s\<lparr>terminal := True\<rparr>"

definition overlay_dispose :: "overlay \<Rightarrow> overlay" where
  "overlay_dispose s = (overlay_hide s)\<lparr>terminal := False\<rparr>"

text \<open>\<open>showOverlay(msg, timeout)\<close>: a missing or zero timeout makes it stick.\<close>

definition showOverlay :: "jstr \<Rightarrow> nat option \<Rightarrow> overlay \<Rightarrow> overlay" where
  "showOverlay msg timeout s =
     (if \<not> terminal s then s
      else let s1 = s\<lparr>overlay_timer := None, message := msg, faded := False, shown := True\<rparr> in
        case timeout of
          None \<Rightarrow> s1
        | Some t \<Rightarrow> if t = 0 then s1
                    else s1\<lparr>overlay_timer := Some (Fade (next_timer s)), next_timer := next_timer s + 1\<rparr>)"

definition timer_fires :: "overlay_timer \<Rightarrow> overlay \<Rightarrow> overlay" where
  "timer_fires t s =
     (if overlay_timer s \<noteq> Some t then s
      else case t of
        Fade _ \<Rightarrow> s\<lparr>faded := True, overlay_timer := Some (Remove (next_timer s)), next_timer := next_timer s + 1\<rparr>
      | Remove _ \<Rightarrow> overlay_hide s)"

lemma stuck_message:
  "overlay_timer s = None \<Longrightarrow> foldl (\<lambda>s t. timer_fires t s) s ts = s"
  by (induction ts) (auto simp: timer_fires_def)

subsection \<open>Session rules\<close>

text \<open>What of the terminal a rule depends on: its lines (all that ever scrolled by), the cursor's line and
  column, and whether it can hold a marker and a decoration now.\<close>

record rule_term =
  lines :: "jstr list"
  column :: nat
  can_mark :: bool
  can_decorate :: bool
  rules :: "(nat \<times> jstr \<times> jstr) list"

text \<open>The cursor is on the last line; a write of a line break goes to a new one.\<close>

definition line_break :: "rule_term \<Rightarrow> rule_term" where
  "line_break t = t\<lparr>lines := lines t @ [[]], column := 0\<rparr>"

definition pristine :: "rule_term \<Rightarrow> bool" where
  "pristine t \<longleftrightarrow> length (lines t) = 1 \<and> column t = 0"

definition draw :: "jstr \<Rightarrow> jstr \<Rightarrow> rule_term \<Rightarrow> rule_term" where
  "draw variant label t0 =
     (let t1 = (if pristine t0 then t0 else line_break t0);
          marker = length (lines t1) - 1;
          t2 = line_break t1
      in if can_mark t1 \<and> can_decorate t1 then t2\<lparr>rules := rules t2 @ [(marker, variant, label)]\<rparr> else t2)"

definition markSessionStart :: "jstr \<Rightarrow> rule_term \<Rightarrow> rule_term" where
  "markSessionStart user = draw (js ''start'') (js ''session start '' @ [0x2014] @ js '' '' @ user)"

definition markSessionEnd :: "jstr \<Rightarrow> rule_term \<Rightarrow> rule_term" where
  "markSessionEnd what = draw (js ''end'') what"

definition term_ok :: "rule_term \<Rightarrow> bool" where
  "term_ok t \<longleftrightarrow> lines t \<noteq> [] \<and> (pristine t \<longrightarrow> last (lines t) = [])"

text \<open>A rule never covers output. Drawing a session's rule leaves every line there was as it was, puts
  the rule on a blank line below all of them (on the first line of a pristine terminal), and what is
  written next starts on a line of its own below the rule.\<close>

theorem rule_on_blank_line:
  assumes "term_ok t"
  shows "let t' = draw variant label t in
    prefix (lines t) (lines t') \<and> column t' = 0 \<and> last (lines t') = [] \<and>
    (rules t' = rules t \<or>
     (\<exists>n. rules t' = rules t @ [(n, variant, label)] \<and> n + 2 = length (lines t') \<and> lines t' ! n = [] \<and>
        (n < length (lines t) \<longrightarrow> pristine t)))"
proof -
  obtain ls l where l: "lines t = ls @ [l]" using assms(1) by (cases "lines t" rule: rev_cases) (auto simp: term_ok_def)
  show ?thesis
  proof (cases "pristine t")
    case True
    with l assms(1) have "lines t = [[]]" by (auto simp: pristine_def term_ok_def)
    with True show ?thesis by (simp add: draw_def line_break_def Let_def)
  next
    case False
    then show ?thesis by (auto simp: draw_def line_break_def Let_def nth_append)
  qed
qed

lemma rule_on_blank_line_witness:
  "lines (markSessionEnd (js ''bye'') \<lparr>lines = [js ''$ exit''], column = 6, can_mark = True, can_decorate = True, rules = []\<rparr>)
     = [js ''$ exit'', [], []]"
proof -
  let ?t = "\<lparr>lines = [js ''$ exit''], column = 6, can_mark = True, can_decorate = True, rules = []\<rparr>"
  have "term_ok ?t" by (simp add: term_ok_def pristine_def)
  from rule_on_blank_line[OF this, of "js ''end''" "js ''bye''"] show ?thesis
    by (simp add: markSessionEnd_def draw_def line_break_def pristine_def)
qed

end
