(* ===== verification/Screen.thy ===== *)
theory Screen
  imports Prelude
begin

text \<open>
  \<^verbatim>\<open>site/app.mjs\<close>, painting and scrollback persistence: output is queued and flushed, never dropped; whose
  content the terminal shows is tracked so that a dump of it is only ever saved under the key it all
  belongs to. The terminal emulator is what was written to it: every piece with the session it came from
  (none for the page's own annotations); \<open>serialize\<close> is the serialize addon's function of that.
\<close>

subsection \<open>The state\<close>

text \<open>A persistence key, or the mark of a session that persists nothing.\<close>

datatype owner = Unkeyed | Key jstr

datatype piece = Output owner bytes | RestoredDump owner jstr | Annotation jstr

fun piece_owner :: "piece \<Rightarrow> owner option" where
  "piece_owner (Output k _) = Some k"
| "piece_owner (RestoredDump k _) = Some k"
| "piece_owner (Annotation _) = None"

text \<open>\<open>terminalOwner\<close>: null, the sole owner, or false.\<close>

datatype terminal_owner = Nobody | Sole owner | Mixed

record screen =
  chunks :: "(owner \<times> bytes) list"
  flush_scheduled :: bool
  peak :: nat
  flushes :: nat
  timerFlushes :: nat
  everPainted :: bool
  dirtySincePersist :: bool
  terminalOwner :: terminal_owner
  restored :: bool
  on_screen :: "piece list"
  saves :: "(jstr \<times> jstr) list"

definition blank_screen :: screen where
  "blank_screen = \<lparr>chunks = [], flush_scheduled = False, peak = 0, flushes = 0, timerFlushes = 0, everPainted = False,
     dirtySincePersist = False, terminalOwner = Nobody, restored = False, on_screen = [], saves = []\<rparr>"

text \<open>\<open>key || UNKEYED\<close>\<close>

definition owner_of_key :: "jstr option \<Rightarrow> owner" where
  "owner_of_key key = (case key of Some (c # k) \<Rightarrow> Key (c # k) | _ \<Rightarrow> Unkeyed)"

subsection \<open>Painting\<close>

definition to_terminal :: "piece list \<Rightarrow> 'a screen_scheme \<Rightarrow> 'a screen_scheme" where
  "to_terminal ps s = s\<lparr>on_screen := on_screen s @ ps\<rparr>"

definition flush :: "bool \<Rightarrow> 'a screen_scheme \<Rightarrow> 'a screen_scheme" where
  "flush viaTimer s =
     to_terminal (map (\<lambda>(k, c). Output k c) (chunks s))
       (s\<lparr>flush_scheduled := False, flushes := flushes s + 1,
          timerFlushes := (if viaTimer then timerFlushes s + 1 else timerFlushes s), chunks := []\<rparr>)"

definition paint :: "owner \<Rightarrow> bytes \<Rightarrow> 'a screen_scheme \<Rightarrow> 'a screen_scheme" where
  "paint from out s =
     (if out = [] then s
      else s\<lparr>everPainted := True, dirtySincePersist := True, chunks := chunks s @ [(from, out)],
             peak := max (peak s) (length (chunks s) + 1), flush_scheduled := True\<rparr>)"

definition claimTerminal :: "jstr option \<Rightarrow> 'a screen_scheme \<Rightarrow> 'a screen_scheme" where
  "claimTerminal key s =
     (let k = owner_of_key key in
      case terminalOwner s of
        Nobody \<Rightarrow> s\<lparr>terminalOwner := Sole k\<rparr>
      | Sole k' \<Rightarrow> if k' = k then s else s\<lparr>terminalOwner := Mixed\<rparr>
      | Mixed \<Rightarrow> s)"

text \<open>The pump, with what \<open>drainOutput\<close> answered: claim on output, then paint.\<close>

definition drained :: "jstr option \<Rightarrow> bytes \<Rightarrow> 'a screen_scheme \<Rightarrow> 'a screen_scheme" where
  "drained persistKey out s =
     paint (owner_of_key persistKey) out (if out = [] then s else claimTerminal persistKey s)"

subsection \<open>Restoring and saving\<close>

definition esc :: "string \<Rightarrow> jstr" where
  "esc s = 0x1B # js s"

definition SCROLLBACK_MODE_RESET :: jstr where
  "SCROLLBACK_MODE_RESET =
     concat (map esc [''[?1049l'', ''[?9l'', ''[?1000l'', ''[?1002l'', ''[?1003l'', ''[?1004l'', ''[?2004l'', ''[?1l'',
       ''>'', ''[4l'', ''[?6l'', ''[?45l'', ''[?7h''])"

definition crlf :: jstr where "crlf = [13, 10]"

text \<open>\<open>parkBelowContent\<close>, on the text of every line of the buffer and the cursor's line; \<open>-1\<close> is no line.\<close>

definition last_content :: "jstr list \<Rightarrow> int" where
  "last_content ls = foldl (\<lambda>l i. if trim (ls ! i) \<noteq> [] then int i else l) (- 1) [0..<length ls]"

definition park_below :: "jstr list \<Rightarrow> nat \<Rightarrow> int" where
  "park_below ls cursor = last_content ls + 1 - int cursor"

definition parkBelowContent :: "jstr list \<Rightarrow> nat \<Rightarrow> jstr" where
  "parkBelowContent ls cursor =
     (if park_below ls cursor > 0 then concat (replicate (nat (park_below ls cursor)) crlf) else [13])"

definition restoreScrollback ::
  "jstr \<Rightarrow> jstr option \<Rightarrow> jstr list \<Rightarrow> nat \<Rightarrow> 'a screen_scheme \<Rightarrow> bool \<times> 'a screen_scheme" where
  "restoreScrollback dump key ls cursor s =
     (if everPainted s \<or> restored s \<or> dump = [] then (False, s)
      else (True, to_terminal [RestoredDump (owner_of_key key) dump, Annotation SCROLLBACK_MODE_RESET,
                               Annotation (parkBelowContent ls cursor)]
                    (claimTerminal key (s\<lparr>restored := True\<rparr>))))"

definition page_note :: "jstr \<Rightarrow> 'a screen_scheme \<Rightarrow> 'a screen_scheme" where
  "page_note msg = to_terminal [Annotation (crlf @ esc ''[2m[wosh] '' @ msg @ esc ''[0m'' @ crlf)]"

definition SCROLLBACK_SAVE_CAP :: nat where "SCROLLBACK_SAVE_CAP = 768 * 1024"

text \<open>The kind of the terminal's active buffer.\<close>

datatype buffer_type = Normal | Alternate

definition dumpWorthSaving :: "buffer_type \<Rightarrow> bool" where
  "dumpWorthSaving b \<longleftrightarrow> b \<noteq> Alternate"

text \<open>The serialize addon, absent when its script is.\<close>

type_synonym serializer = "(piece list \<Rightarrow> jstr) option"

definition saveScrollback :: "serializer \<Rightarrow> buffer_type \<Rightarrow> jstr option \<Rightarrow> 'a screen_scheme \<Rightarrow> 'a screen_scheme" where
  "saveScrollback addon active key s =
     (case (owner_of_key key, addon) of
        (Key k, Some serialize) \<Rightarrow>
          if terminalOwner s \<noteq> Sole (Key k) \<or> \<not> dumpWorthSaving active then s
          else let buf = serialize (on_screen s) in
            if length buf > SCROLLBACK_SAVE_CAP then s else s\<lparr>saves := saves s @ [(k, buf)]\<rparr>
      | _ \<Rightarrow> s)"

text \<open>The last frame before the page goes away, and the end of a session.\<close>

definition page_hidden :: "serializer \<Rightarrow> buffer_type \<Rightarrow> jstr option \<Rightarrow> 'a screen_scheme \<Rightarrow> 'a screen_scheme" where
  "page_hidden addon active key s =
     saveScrollback addon active key (if chunks s \<noteq> [] then flush True s else s)"

definition final_save :: "serializer \<Rightarrow> buffer_type \<Rightarrow> jstr option \<Rightarrow> 'a screen_scheme \<Rightarrow> 'a screen_scheme" where
  "final_save addon active key s = saveScrollback addon active key (flush True s)"

subsection \<open>Everything that happens to the screen\<close>

datatype screen_event =
    Drained "jstr option" bytes
  | Frame
  | FlushTimer
  | Hidden buffer_type "jstr option"
  | Ended buffer_type "jstr option"
  | Periodic buffer_type "jstr option"
  | Restore jstr "jstr option" "jstr list" nat
  | Annotate jstr

fun screen_step :: "serializer \<Rightarrow> 'a screen_scheme \<Rightarrow> screen_event \<Rightarrow> 'a screen_scheme" where
  "screen_step addon s (Drained key out) = drained key out s"
| "screen_step addon s Frame = (if flush_scheduled s then flush False s else s)"
| "screen_step addon s FlushTimer = (if flush_scheduled s then flush True s else s)"
| "screen_step addon s (Hidden b key) = page_hidden addon b key s"
| "screen_step addon s (Ended b key) = final_save addon b key s"
| "screen_step addon s (Periodic b key) = saveScrollback addon b key (s\<lparr>dirtySincePersist := False\<rparr>)"
| "screen_step addon s (Restore dump key ls c) = snd (restoreScrollback dump key ls c s)"
| "screen_step addon s (Annotate m) = page_note m s"

abbreviation screen_run :: "serializer \<Rightarrow> 'a screen_scheme \<Rightarrow> screen_event list \<Rightarrow> 'a screen_scheme" where
  "screen_run addon \<equiv> foldl (screen_step addon)"

lemmas screen_defs = drained_def flush_def page_hidden_def final_save_def saveScrollback_def restoreScrollback_def
  page_note_def to_terminal_def paint_def claimTerminal_def

subsection \<open>Nothing is dropped\<close>

fun output_of :: "piece \<Rightarrow> bytes list" where
  "output_of (Output _ c) = [c]"
| "output_of _ = []"

definition outputs :: "'a screen_scheme \<Rightarrow> bytes list" where
  "outputs s = concat (map output_of (on_screen s)) @ map snd (chunks s)"

fun event_output :: "screen_event \<Rightarrow> bytes list" where
  "event_output (Drained _ out) = (if out = [] then [] else [out])"
| "event_output _ = []"

lemma outputs_Output: "concat (map (output_of \<circ> (\<lambda>(k, c). Output k c)) cs) = map snd cs"
  by (induction cs) auto

lemma outputs_step:
  "outputs (screen_step addon s e) = outputs s @ event_output e"
  by (cases e) (auto simp: outputs_def outputs_Output screen_defs Let_def split: owner.splits option.splits terminal_owner.splits)

definition pending_scheduled :: "'a screen_scheme \<Rightarrow> bool" where
  "pending_scheduled s \<longleftrightarrow> (flush_scheduled s \<longleftrightarrow> chunks s \<noteq> [])"

lemma pending_scheduled_step: "pending_scheduled s \<Longrightarrow> pending_scheduled (screen_step addon s e)"
  by (cases e) (auto simp: pending_scheduled_def screen_defs Let_def split: owner.splits option.splits terminal_owner.splits)

text \<open>C26: Output is flushed, never shed. Whatever mixture of output, frames, timers, hidden pages, saves,
  restores and notes: what the terminal was given from sessions, followed by what is still queued, is
  every chunk the sessions produced, once and in order; and whenever anything is queued a flush is
  scheduled, which puts all of it on the terminal.\<close>

theorem output_never_shed:
  "let s = screen_run addon blank_screen es in
    concat (map output_of (on_screen s)) @ map snd (chunks s) = concat (map event_output es) \<and>
    (flush_scheduled s \<longleftrightarrow> chunks s \<noteq> []) \<and>
    chunks (screen_step addon s FlushTimer) = [] \<and> chunks (screen_step addon s Frame) = []"
proof -
  have "outputs (screen_run addon blank_screen es) = concat (map event_output es) \<and>
      pending_scheduled (screen_run addon blank_screen es)"
    by (induction es rule: rev_induct)
      (simp_all add: outputs_step pending_scheduled_step, simp_all add: outputs_def pending_scheduled_def blank_screen_def)
  then show ?thesis by (auto simp: outputs_def pending_scheduled_def Let_def flush_def to_terminal_def)
qed

subsection \<open>Dumps belong to one session\<close>

definition owners :: "'a screen_scheme \<Rightarrow> owner set" where
  "owners s = {k. \<exists>p \<in> set (on_screen s). piece_owner p = Some k} \<union> fst ` set (chunks s)"

definition owner_inv :: "'a screen_scheme \<Rightarrow> bool" where
  "owner_inv s \<longleftrightarrow> (case terminalOwner s of Nobody \<Rightarrow> owners s = {} | Sole k \<Rightarrow> owners s \<subseteq> {k} | Mixed \<Rightarrow> True)"

lemma owners_flush [simp]: "owners (flush v s) = owners s"
  by (force simp: owners_def flush_def to_terminal_def)

lemma owners_save [simp]: "owners (saveScrollback addon b key s) = owners s"
  "terminalOwner (saveScrollback addon b key s) = terminalOwner s"
  "on_screen (saveScrollback addon b key s) = on_screen s"
  by (auto simp: owners_def saveScrollback_def Let_def split: owner.splits option.splits)

lemma owners_upd [simp]: "owners (s\<lparr>restored := b\<rparr>) = owners s" "owners (s\<lparr>dirtySincePersist := b\<rparr>) = owners s"
  by (simp_all add: owners_def)

lemma owner_inv_claim:
  "owner_inv s \<Longrightarrow> owner_inv (claimTerminal key s) \<and>
     (terminalOwner (claimTerminal key s) = Sole (owner_of_key key) \<or> terminalOwner (claimTerminal key s) = Mixed) \<and>
     owners (claimTerminal key s) = owners s"
  by (auto simp: owner_inv_def claimTerminal_def Let_def owners_def split: terminal_owner.splits)

lemma terminalOwner_flush [simp]: "terminalOwner (flush v s) = terminalOwner s"
  by (simp add: flush_def to_terminal_def)

lemma owner_inv_step [page_inv]:
  assumes "owner_inv s"
  shows "owner_inv (screen_step addon s e)"
proof (cases e)
  case (Drained key out)
  have "owners (paint k out t) = owners t \<union> (if out = [] then {} else {k})"
    "terminalOwner (paint k out t) = terminalOwner t" for k and t :: "'a screen_scheme"
    by (auto simp: paint_def owners_def)
  with Drained owner_inv_claim[OF assms, of key] assms show ?thesis
    by (auto simp: drained_def owner_inv_def split: terminal_owner.splits)
next
  case (Restore dump key ls c)
  let ?s = "s\<lparr>restored := True\<rparr>"
  have "owner_inv ?s" using assms unfolding owner_inv_def by (auto split: terminal_owner.splits)
  from owner_inv_claim[OF this, of key] have
    "owners (claimTerminal key ?s) = owners ?s" "owner_inv (claimTerminal key ?s)"
    "terminalOwner (claimTerminal key ?s) = Sole (owner_of_key key) \<or> terminalOwner (claimTerminal key ?s) = Mixed" by auto
  moreover have "owners (to_terminal [RestoredDump k d, Annotation a, Annotation b] t) = insert k (owners t)"
    "terminalOwner (to_terminal ps t) = terminalOwner t" for k d a b ps and t :: "'a screen_scheme"
    by (auto simp: owners_def to_terminal_def)
  ultimately show ?thesis using Restore assms
    by (auto simp: restoreScrollback_def owner_inv_def split: terminal_owner.splits)
next
  case (Annotate m)
  have "owners (page_note m s) = owners s" "terminalOwner (page_note m s) = terminalOwner s"
    by (auto simp: page_note_def to_terminal_def owners_def)
  with Annotate assms show ?thesis by (auto simp: owner_inv_def split: terminal_owner.splits)
next
  case (Periodic b key)
  with assms show ?thesis by (auto simp: owner_inv_def split: terminal_owner.splits)
qed (use assms in \<open>auto simp: owner_inv_def page_hidden_def final_save_def split: terminal_owner.splits\<close>)

interpretation painting: started_machine "screen_step addon" owner_inv blank_screen
  by unfold_locales (simp_all add: owner_inv_step, simp add: owner_inv_def owners_def blank_screen_def)

text \<open>A save that happens, happens at the end of its step.\<close>

lemma save_step:
  assumes "(k, d) \<in> set (saves (screen_step addon s e))" "(k, d) \<notin> set (saves s)"
  shows "\<exists>serialize. addon = Some serialize \<and> d = serialize (on_screen (screen_step addon s e)) \<and>
    terminalOwner (screen_step addon s e) = Sole (Key k) \<and> length d \<le> SCROLLBACK_SAVE_CAP"
  using assms
  by (cases e) (auto simp: screen_defs Let_def split: owner.splits option.splits terminal_owner.splits if_splits)

text \<open>No scrollback is filed under another session's key. Every dump ever saved under a key was
  serialized at a moment when all that was on the terminal from any session, restored dumps included,
  was of that key; it was taken by the serializer, and is no longer than the cap.\<close>

theorem saved_dumps_are_pure:
  assumes "(k, d) \<in> set (saves (screen_run addon blank_screen es))"
  shows "\<exists>es1 es2 serialize. es = es1 @ es2 \<and> addon = Some serialize \<and>
    d = serialize (on_screen (screen_run addon blank_screen es1)) \<and> length d \<le> SCROLLBACK_SAVE_CAP \<and>
    (\<forall>p \<in> set (on_screen (screen_run addon blank_screen es1)). piece_owner p \<in> {None, Some (Key k)})"
  using assms
proof (induction es rule: rev_induct)
  case Nil
  then show ?case by (simp add: blank_screen_def)
next
  case (snoc e es)
  let ?s = "screen_run addon blank_screen es"
  show ?case
  proof (cases "(k, d) \<in> set (saves ?s)")
    case True
    with snoc.IH show ?thesis by (metis append.assoc)
  next
    case False
    have inv: "owner_inv (screen_step addon ?s e)" by (rule owner_inv_step[OF painting.ok_run[OF painting.ok_start]])
    from save_step[of k d addon ?s e] snoc.prems False obtain serialize where
      sv: "addon = Some serialize" "d = serialize (on_screen (screen_step addon ?s e))"
        "terminalOwner (screen_step addon ?s e) = Sole (Key k)" "length d \<le> SCROLLBACK_SAVE_CAP" by auto
    have "\<forall>p \<in> set (on_screen (screen_step addon ?s e)). piece_owner p \<in> {None, Some (Key k)}"
    proof
      fix p assume "p \<in> set (on_screen (screen_step addon ?s e))"
      then have "piece_owner p = Some x \<Longrightarrow> x \<in> owners (screen_step addon ?s e)" for x by (auto simp: owners_def)
      with inv sv(3) show "piece_owner p \<in> {None, Some (Key k)}"
        by (cases "piece_owner p") (auto simp: owner_inv_def)
    qed
    with sv show ?thesis by (intro exI[of _ "es @ [e]"] exI[of _ "[]"] exI[of _ serialize]) simp
  qed
qed

definition count_pieces :: "piece list \<Rightarrow> jstr" where
  "count_pieces ps = [length ps]"

lemma saved_dumps_are_pure_witness:
  "\<exists>d. (js ''a'', d) \<in> set (saves (screen_run (Some count_pieces) blank_screen
     [Drained (Some (js ''a'')) [104], Hidden Normal (Some (js ''a'')), Drained (Some (js ''b'')) [105], Hidden Normal (Some (js ''a''))]))
     \<and> length d \<le> SCROLLBACK_SAVE_CAP"
proof -
  let ?es = "[Drained (Some (js ''a'')) [104], Hidden Normal (Some (js ''a'')), Drained (Some (js ''b'')) [105],
      Hidden Normal (Some (js ''a''))]"
  have "(js ''a'', [1]) \<in> set (saves (screen_run (Some count_pieces) blank_screen ?es))"
    by (simp add: screen_defs blank_screen_def owner_of_key_def count_pieces_def dumpWorthSaving_def
        SCROLLBACK_SAVE_CAP_def Let_def)
  with saved_dumps_are_pure[OF this] show ?thesis by blast
qed

subsection \<open>Parking the cursor\<close>

lemma last_content_bound:
  "i < length ls \<Longrightarrow> trim (ls ! i) \<noteq> [] \<Longrightarrow> int i \<le> last_content ls"
proof -
  have "(\<forall>i < n. trim (ls ! i) \<noteq> [] \<longrightarrow> int i \<le> foldl (\<lambda>l i. if trim (ls ! i) \<noteq> [] then int i else l) (- 1) [0..<n])" for n
    by (induction n) (auto simp: less_Suc_eq)
  then show "i < length ls \<Longrightarrow> trim (ls ! i) \<noteq> [] \<Longrightarrow> int i \<le> last_content ls" by (simp add: last_content_def)
qed

text \<open>The line the cursor is on after the line breaks written is below every line with content.\<close>

lemma parked_below:
  assumes "i < length ls" "trim (ls ! i) \<noteq> []"
  shows "i < cursor + nat (park_below ls cursor)"
  using last_content_bound[OF assms] by (simp add: park_below_def)

end
