(* ===== verification/CallGate.thy ===== *)
theory CallGate
  imports Prelude
begin

text \<open>
  \<^verbatim>\<open>site/app.mjs\<close>, \<open>serializeSession\<close> and \<open>enterPatiently\<close>: the page is in the client component with one call at
  a time, and a call that finds the door closing knocks again for a bounded time. A call is the function
  from the number of the attempt to how long the attempt takes (in milliseconds), how it ends (with the message
  of an error or with a value), and how much later than asked a timer set after it fires: \<open>setTimeout\<close> only
  promises not to be early, and background tabs are throttled. Time is \<open>Date.now()\<close>, a clock that is not set back.
\<close>

type_synonym 'a outcome = "jstr + 'a"
record 'a knock =
  takes :: nat
  ends :: "'a outcome"
  timer_late :: nat

type_synonym 'a attempts = "nat \<Rightarrow> 'a knock"

subsection \<open>Knocking again\<close>

definition busy :: "'a outcome \<Rightarrow> bool" where
  "busy r = (case r of Inl msg \<Rightarrow> str_includes (js ''reentrance forbidden'') msg | Inr _ \<Rightarrow> False)"

text \<open>The wait after the attempt number \<open>k\<close>: \<open>delay\<close> starts at 5 and doubles up to 50.\<close>

primrec backoff :: "nat \<Rightarrow> nat" where
  "backoff 0 = 5"
| "backoff (Suc k) = min (backoff k * 2) 50"

lemma backoff_range: "5 \<le> backoff k \<and> backoff k \<le> 50"
  by (induction k) auto

function enter_loop :: "'a attempts \<Rightarrow> nat \<Rightarrow> nat \<Rightarrow> nat \<Rightarrow> nat \<times> nat \<times> 'a outcome" where
  "enter_loop call deadline k now =
     (let finished = now + takes (call k); r = ends (call k) in
      if \<not> busy r \<or> deadline < finished then (k, finished, r)
      else enter_loop call deadline (Suc k) (finished + backoff k + timer_late (call k)))"
  by pat_completeness auto
termination
proof (relation "measure (\<lambda>(call, deadline, k, now). deadline + 1 - now)")
  fix call :: "'a attempts" and deadline k now finished :: nat and r :: "'a outcome"
  assume "finished = now + takes (call k)" "\<not> (\<not> busy r \<or> deadline < finished)"
  then have "now \<le> deadline" "now < finished + backoff k + timer_late (call k)" using backoff_range[of k] by auto
  then show "((call, deadline, Suc k, finished + backoff k + timer_late (call k)), call, deadline, k, now)
      \<in> measure (\<lambda>(call, deadline, k, now). deadline + 1 - now)" by auto
qed simp

declare enter_loop.simps [simp del]

definition enterPatiently :: "'a attempts \<Rightarrow> nat \<Rightarrow> nat \<Rightarrow> nat \<times> nat \<times> 'a outcome" where
  "enterPatiently call budgetMs now = enter_loop call (now + budgetMs) 0 now"

text \<open>What the loop did: every attempt but the last was turned away at the door, the last one is the answer,
  and it gave up only past the deadline.\<close>

lemma enter_loop_turn:
  "enter_loop call deadline k now =
     (if \<not> busy (ends (call k)) \<or> deadline < now + takes (call k) then (k, now + takes (call k), ends (call k))
      else enter_loop call deadline (Suc k) (now + takes (call k) + backoff k + timer_late (call k)))"
  by (subst enter_loop.simps) (simp add: Let_def)

lemma enter_loop_spec:
  "enter_loop call deadline k now = (n, t, r) \<Longrightarrow>
     k \<le> n \<and> r = ends (call n) \<and> now \<le> t \<and> (\<forall>j. k \<le> j \<and> j < n \<longrightarrow> busy (ends (call j))) \<and> (busy r \<longrightarrow> deadline < t)"
proof (induction call deadline k now rule: enter_loop.induct)
  case (1 call deadline k now)
  show ?case
  proof (cases "\<not> busy (ends (call k)) \<or> deadline < now + takes (call k)")
    case True
    with 1(2) show ?thesis by (subst (asm) enter_loop_turn) auto
  next
    case False
    with 1(2) have "enter_loop call deadline (Suc k) (now + takes (call k) + backoff k + timer_late (call k)) = (n, t, r)"
      by (subst (asm) enter_loop_turn) auto
    from 1(1)[OF refl refl False this]
    have *: "Suc k \<le> n" "r = ends (call n)" "now \<le> t" "busy r \<longrightarrow> deadline < t"
      "\<forall>j. Suc k \<le> j \<and> j < n \<longrightarrow> busy (ends (call j))" by auto
    have "busy (ends (call j))" if "k \<le> j" "j < n" for j
      using that False *(5) by (cases "j = k") auto
    with * show ?thesis by auto
  qed
qed

text \<open>How long it took: the last wait begins by the deadline, and each wait is of five milliseconds at least.\<close>

lemma enter_loop_time:
  "enter_loop call deadline k now = (n, t, r) \<Longrightarrow> \<forall>j. takes (call j) \<le> D \<and> timer_late (call j) \<le> L \<Longrightarrow>
     now \<le> deadline + 50 + L \<Longrightarrow> t \<le> deadline + 50 + L + D \<and> (k < n \<longrightarrow> now + (n - Suc k) * 5 \<le> deadline)"
proof (induction call deadline k now rule: enter_loop.induct)
  case (1 call deadline k now)
  have d: "takes (call k) \<le> D" "timer_late (call k) \<le> L" using 1(3) by blast+
  show ?case
  proof (cases "\<not> busy (ends (call k)) \<or> deadline < now + takes (call k)")
    case True
    with 1(2,4) d show ?thesis by (subst (asm) enter_loop_turn) auto
  next
    case False
    let ?next = "now + takes (call k) + backoff k + timer_late (call k)"
    from 1(2) False have l: "enter_loop call deadline (Suc k) ?next = (n, t, r)"
      by (subst (asm) enter_loop_turn) auto
    have "?next \<le> deadline + 50 + L" using False backoff_range[of k] d(2) by auto
    from 1(1)[OF refl refl False l 1(3) this]
    have ih: "t \<le> deadline + 50 + L + D" "Suc k < n \<longrightarrow> ?next + (n - Suc (Suc k)) * 5 \<le> deadline" by auto
    have "now + (n - Suc k) * 5 \<le> deadline"
    proof (cases "Suc k < n")
      case True
      then have "(n - Suc k) * 5 = (n - Suc (Suc k)) * 5 + 5" by (simp add: Suc_diff_Suc[symmetric])
      moreover have "5 \<le> backoff k" using backoff_range by simp
      ultimately show ?thesis using ih(2) True by linarith
    qed (use False in simp)
    then show ?thesis using ih(1) by simp
  qed
qed


text \<open>C36: A busy component is asked again, and not for ever. Whatever each attempt does, the call that
  \<open>enterPatiently\<close> makes returns: every attempt before the last was refused at the door (so the call ran
  at most once), the last attempt's result or error is the answer, and a refusal is only passed on strictly after
  the budget has run out. With attempts of at most \<open>D\<close> milliseconds and timers at most \<open>L\<close> late, the answer is
  there no later than the budget, one wait of 50, its lateness \<open>L\<close> and one attempt; and after the first attempt
  there are at most one more and one for every five milliseconds of the budget.\<close>

theorem patient_call:
  assumes "\<forall>j. takes (call j) \<le> D \<and> timer_late (call j) \<le> L"
  shows "case enterPatiently call budget now of (n, t, r) \<Rightarrow>
    (\<forall>j < n. busy (ends (call j))) \<and> r = ends (call n) \<and> (busy r \<longrightarrow> now + budget < t) \<and>
    t \<le> now + budget + 50 + L + D \<and> n \<le> budget div 5 + 1"
proof -
  obtain n t r where e: "enter_loop call (now + budget) 0 now = (n, t, r)" by (metis prod_cases3)
  from enter_loop_spec[OF e] enter_loop_time[OF e assms] show ?thesis by (auto simp: enterPatiently_def e)
qed

definition refusal :: jstr where
  "refusal = js ''cannot enter component instance 3 ('' @ js ''reentrance forbidden'' @ js '')''"

definition twice_busy :: "nat attempts" where
  "twice_busy k = (if k < 2 then \<lparr>takes = 1, ends = Inl refusal, timer_late = 0\<rparr>
     else \<lparr>takes = 4, ends = Inr 7, timer_late = 0\<rparr>)"

lemma busy_refusal: "busy (Inl refusal)" "\<not> busy (Inr x)"
  by (simp_all only: busy_def sum.case includes_sublist refusal_def sublist_appendI simp_thms)

lemma twice_busy: "enterPatiently twice_busy 15000 now = (2, now + 21, Inr 7)"
  by (simp add: enterPatiently_def enter_loop_turn[of twice_busy] twice_busy_def busy_refusal numeral_2_eq_2)

lemma patient_call_witness: "busy (ends (twice_busy 0)) \<and> busy (ends (twice_busy 1)) \<and> ends (twice_busy 2) = Inr 7"
proof -
  have "\<forall>j. takes (twice_busy j) \<le> 4 \<and> timer_late (twice_busy j) \<le> 0" by (simp add: twice_busy_def)
  from patient_call[OF this, where budget = 15000 and now = 0] show ?thesis by (simp add: twice_busy)
qed

subsection \<open>One call at a time\<close>

definition GATED :: "jstr list" where
  "GATED = map js [''status'', ''linkState'', ''closeKind'', ''hostKeyFingerprint'', ''confirmHostKey'',
     ''authenticatePassword'', ''authenticatePublickey'', ''authenticatePasskey'', ''authenticateInteractive'',
     ''authenticateAuto'', ''pendingPrompts'', ''answerPrompts'', ''writeInput'', ''resize'', ''drainOutput'',
     ''exited'', ''exitStatus'', ''detach'', ''suspend'', ''wake'', ''authenticate'', ''listDir'', ''upload'', ''download'']"

text \<open>How the wrapped session reaches a function the component has: in the chain, knocking but outside the
  chain, directly, or not at all.\<close>

datatype access = Chained | Knocking | Direct | Absent

definition wrapped_access :: "jstr set \<Rightarrow> jstr \<Rightarrow> access" where
  "wrapped_access methods name =
     (if name = js ''closeKindRaw'' then (if js ''closeKind'' \<in> methods then Direct else Absent)
      else if name = js ''probe'' then (if name \<in> methods then Knocking else Absent)
      else if name \<in> set GATED \<and> name \<in> methods then Chained else Absent)"










end
