(* ===== verification/Pump.thy ===== *)
theory Pump
  imports Screen CallGate
begin

text \<open>
  \<^verbatim>\<open>site/app.mjs\<close>, the life of a session once it is connected: the output pump of every session as a machine
  whose states are its awaits, the supersession of a session by the next, its end (\<open>sessionEnded\<close>, with the
  late classification of how it ended), the deliberate \<open>detach\<close>, and the input wiring. A session is the
  number of the call to \<open>connect\<close> that made it.
\<close>

subsection \<open>The state\<close>

text \<open>What is dispatched to the shell of the page: \<open>wosh:session-ended\<close> and \<open>wosh:link-state\<close>.\<close>

datatype window_event =
    SessionEnded nat jstr "jstr option" "int option" "int option"
  | LinkState jstr

datatype pump_phase = Top | Draining | AskExited | AskCode | AskLink | Sleeping | Stopped

record pump =
  pump_phase :: pump_phase
  pump_key :: "jstr option"
  pump_user :: jstr
  has_link_state :: bool
  lastLinkState :: "jstr option"
  linkPollTick :: nat
  readyAt :: nat
  lastPersistAt :: nat

record app = screen +
  currentSession :: "nat option"
  currentPersistKey :: "jstr option"
  pumps :: "nat \<Rightarrow> pump option"
  status :: jstr
  ending :: "(nat \<times> jstr \<times> int option \<times> int option) list"
  dispatched :: "window_event list"
  detached :: "nat list"
  marks :: "jstr list"
  client_loaded :: bool
  sessions_made :: nat

type_synonym env = "serializer \<times> buffer_type"

definition set_status :: "jstr \<Rightarrow> app \<Rightarrow> app" where
  "set_status m s = s\<lparr>status := m\<rparr>"

text \<open>\<open>markSessionEnd\<close> is the rule of the theory PageChrome; here it is its label.\<close>

definition mark_end :: "jstr \<Rightarrow> app \<Rightarrow> app" where
  "mark_end what s = s\<lparr>marks := marks s @ [what]\<rparr>"

subsection \<open>The end of a session\<close>

definition sessionEnded :: "env \<Rightarrow> nat \<Rightarrow> jstr \<Rightarrow> int option \<Rightarrow> int option \<Rightarrow> app \<Rightarrow> app" where
  "sessionEnded = (\<lambda>(addon, active) session why code uptimeMs s.
     if currentSession s \<noteq> Some session then s
     else let persistKey = currentPersistKey s;
              s1 = s\<lparr>currentSession := None, currentPersistKey := None\<rparr>;
              s2 = set_status why (final_save addon active persistKey s1)
          in s2\<lparr>ending := ending s2 @ [(session, why, code, uptimeMs)]\<rparr>)"

text \<open>What \<open>close-kind\<close> came to, when asked directly: its answer, or nothing when it fails.\<close>

definition poisoned :: "jstr option \<Rightarrow> jstr \<Rightarrow> bool" where
  "poisoned kind why \<longleftrightarrow> kind = None \<and> str_includes (js ''reentrance forbidden'') why"

definition end_kind :: "jstr option \<Rightarrow> jstr \<Rightarrow> jstr option" where
  "end_kind kind why = (if poisoned kind why then Some (js ''lost'') else kind)"

definition end_label :: "jstr option \<Rightarrow> jstr" where
  "end_label kind =
     (if kind = Some (js ''lost'') then js ''session lost''
      else if kind = Some (js ''failed'') then js ''session failed'' else js ''session ended'')"

text \<open>The tail of \<open>sessionEnded\<close>, when that answer is there.\<close>

definition close_kind_answers :: "nat \<Rightarrow> jstr option \<Rightarrow> app \<Rightarrow> app" where
  "close_kind_answers i answer s =
     (if i < length (ending s) then
        case ending s ! i of (session, why, code, uptimeMs) \<Rightarrow>
          let kind = end_kind answer why;
              s1 = s\<lparr>ending := take i (ending s) @ drop (Suc i) (ending s),
                     client_loaded := (client_loaded s \<and> \<not> poisoned answer why)\<rparr>;
              s2 = mark_end (end_label kind) s1
          in s2\<lparr>dispatched := dispatched s2 @ [SessionEnded session why kind code uptimeMs]\<rparr>
      else s)"

definition app_detach :: "app \<Rightarrow> app" where
  "app_detach s =
     (case currentSession s of
        None \<Rightarrow> s
      | Some i \<Rightarrow> mark_end (js ''disconnected'') (set_status (js ''disconnected'')
           (s\<lparr>currentSession := None, detached := detached s @ [i]\<rparr>)))"

subsection \<open>Supersession and the start of a session\<close>

text \<open>\<open>connect\<close>, when \<open>Session.connect\<close> has answered: the new session owns the page; the one before is detached.\<close>

definition supersede :: "jstr option \<Rightarrow> app \<Rightarrow> app" where
  "supersede persistKey s =
     (let prior = currentSession s;
          s1 = s\<lparr>currentSession := Some (sessions_made s), sessions_made := sessions_made s + 1,
                 currentPersistKey := (case owner_of_key persistKey of Key k \<Rightarrow> Some k | Unkeyed \<Rightarrow> None)\<rparr>
      in case prior of
           None \<Rightarrow> s1
         | Some p \<Rightarrow> mark_end (js ''disconnected'') (s1\<lparr>detached := detached s1 @ [p]\<rparr>))"

text \<open>Once the session is ready: the pump.\<close>

definition start_pump :: "nat \<Rightarrow> jstr option \<Rightarrow> jstr \<Rightarrow> bool \<Rightarrow> nat \<Rightarrow> app \<Rightarrow> app" where
  "start_pump session persistKey user has_link now s =
     s\<lparr>pumps := (pumps s)(session \<mapsto>
         \<lparr>pump_phase = Top, pump_key = persistKey, pump_user = user, has_link_state = has_link, lastLinkState = None,
          linkPollTick = 0, readyAt = now, lastPersistAt = now\<rparr>)\<rparr>"

subsection \<open>The pump\<close>

text \<open>What an await of the pump comes back with.\<close>

datatype pump_answer = Go | Out bytes | Exited bool | Code "int option" | Link "jstr option" | Fails jstr

definition set_pump :: "nat \<Rightarrow> pump \<Rightarrow> app \<Rightarrow> app" where
  "set_pump i p s = s\<lparr>pumps := (pumps s)(i \<mapsto> p)\<rparr>"

definition exit_reason :: "int option \<Rightarrow> jstr" where
  "exit_reason code = (case code of None \<Rightarrow> js ''session ended'' | Some c \<Rightarrow> js ''exited ('' @ show_int c @ js '')'')"

definition persist_due :: "nat \<Rightarrow> nat \<Rightarrow> pump \<Rightarrow> app \<Rightarrow> bool" where
  "persist_due i now p s \<longleftrightarrow> owner_of_key (pump_key p) \<noteq> Unkeyed \<and> currentSession s = Some i \<and>
     dirtySincePersist s \<and> int now - int (lastPersistAt p) \<ge> 10000"

text \<open>The stretch of the loop body after \<open>exited\<close> answered no.\<close>

definition after_exited :: "env \<Rightarrow> nat \<Rightarrow> nat \<Rightarrow> pump \<Rightarrow> app \<Rightarrow> app" where
  "after_exited = (\<lambda>(addon, active) i now p s.
     let due = persist_due i now p s;
         s1 = (if due then saveScrollback addon active (pump_key p) (s\<lparr>dirtySincePersist := False\<rparr>) else s);
         p1 = (if due then p\<lparr>lastPersistAt := now\<rparr> else p);
         p2 = (if has_link_state p then p1\<lparr>linkPollTick := linkPollTick p1 + 1\<rparr> else p1)
     in set_pump i (p2\<lparr>pump_phase := (if has_link_state p \<and> linkPollTick p2 mod 32 = 0 then AskLink else Sleeping)\<rparr>) s1)"

definition link_answer :: "nat \<Rightarrow> jstr option \<Rightarrow> pump \<Rightarrow> app \<Rightarrow> app" where
  "link_answer i answer p s =
     (case answer of
        Some (c # ls) \<Rightarrow>
          if lastLinkState p = Some (c # ls) then set_pump i (p\<lparr>pump_phase := Sleeping\<rparr>) s
          else let s1 = (if c # ls = js ''reconnecting'' \<or> c # ls = js ''stalled'' then set_status (js ''reconnecting'' @ [0x2026]) s
                         else if c # ls = js ''attached'' then set_status (js ''connected as '' @ pump_user p) s else s)
            in set_pump i (p\<lparr>pump_phase := Sleeping, lastLinkState := Some (c # ls)\<rparr>)
                 (s1\<lparr>dispatched := dispatched s1 @ [LinkState (c # ls)]\<rparr>)
      | _ \<Rightarrow> set_pump i (p\<lparr>pump_phase := Sleeping\<rparr>) s)"

fun pump_step :: "env \<Rightarrow> nat \<Rightarrow> nat \<Rightarrow> pump \<Rightarrow> pump_answer \<Rightarrow> app \<Rightarrow> app" where
  "pump_step env i now p answer s =
     (case (pump_phase p, answer) of
        (Top, Go) \<Rightarrow> set_pump i (p\<lparr>pump_phase := (if currentSession s = Some i then Draining else Stopped)\<rparr>) s
      | (Draining, Out out) \<Rightarrow> set_pump i (p\<lparr>pump_phase := AskExited\<rparr>) (drained (pump_key p) out s)
      | (AskExited, Exited gone) \<Rightarrow>
          if gone then set_pump i (p\<lparr>pump_phase := AskCode\<rparr>) s else after_exited env i now p s
      | (AskCode, Code code) \<Rightarrow>
          sessionEnded env i (exit_reason code) code (Some (int now - int (readyAt p))) (set_pump i (p\<lparr>pump_phase := Stopped\<rparr>) s)
      | (AskLink, Link ls) \<Rightarrow> link_answer i ls p s
      | (AskLink, Fails _) \<Rightarrow> set_pump i (p\<lparr>pump_phase := Sleeping\<rparr>) s
      | (Sleeping, Go) \<Rightarrow> set_pump i (p\<lparr>pump_phase := Top\<rparr>) s
      | (Stopped, _) \<Rightarrow> s
      | (_, Fails m) \<Rightarrow> sessionEnded env i (js ''pump: '' @ m) None None (set_pump i (p\<lparr>pump_phase := Stopped\<rparr>) s)
      | _ \<Rightarrow> s)"

declare pump_step.simps [simp del]

subsection \<open>Input\<close>

text \<open>\<open>wireInput\<close>: what a handler that belongs to \<open>session\<close> writes, \<open>None\<close> when it stays silent. Text goes
  through the sticky modifiers and UTF-8; binary goes byte for byte. A resize only looks at the session.\<close>

definition wired_text :: "(jstr \<Rightarrow> jstr) \<Rightarrow> (jstr \<Rightarrow> bytes) \<Rightarrow> bool \<Rightarrow> nat \<Rightarrow> jstr \<Rightarrow> app \<Rightarrow> bytes option" where
  "wired_text transformInput encode failed session txt s =
     (if currentSession s \<noteq> Some session \<or> failed then None else Some (encode (transformInput txt)))"

definition wired_binary :: "bool \<Rightarrow> nat \<Rightarrow> jstr \<Rightarrow> app \<Rightarrow> bytes option" where
  "wired_binary failed session txt s =
     (if currentSession s \<noteq> Some session \<or> failed then None else Some (map (\<lambda>c. word_of_nat (c mod 256)) txt))"

text \<open>A rejected write or resize: \<open>fail\<close>.\<close>

definition input_fails :: "env \<Rightarrow> nat \<Rightarrow> jstr \<Rightarrow> app \<Rightarrow> app" where
  "input_fails env session message = sessionEnded env session (js ''input: '' @ message) None None"

lemma binary_byte_for_byte:
  "currentSession s = Some i \<Longrightarrow> \<forall>c \<in> set txt. c < 256 \<Longrightarrow>
     map_option (map unat) (wired_binary False i txt s) = Some txt"
  by (simp add: wired_binary_def comp_def unat_of_nat map_idI)

subsection \<open>Everything that happens\<close>

text \<open>\<open>connect\<close> gives up a session in three ways (theory Connect): the host key was refused, a prompt was
  cancelled, or it failed; only the first two forget the session.\<close>

definition forget :: "app \<Rightarrow> app" where
  "forget s = s\<lparr>currentSession := None\<rparr>"

inductive app_step :: "env \<Rightarrow> app \<Rightarrow> app \<Rightarrow> bool" for env where
  Supersedes: "app_step env s (supersede key s)"
| GivenUp: "app_step env s (forget s)"
| Ready: "session < sessions_made s \<Longrightarrow> app_step env s (start_pump session key user link now s)"
| PumpMoves: "pumps s i = Some p \<Longrightarrow> app_step env s (pump_step env i now p answer s)"
| InputFails: "app_step env s (input_fails env i m s)"
| CloseKind: "app_step env s (close_kind_answers k answer s)"
| Detach: "app_step env s (app_detach s)"

inductive_cases app_stepE: "app_step env s t"

definition fresh_app :: app where
  "fresh_app = screen.extend blank_screen
     \<lparr>currentSession = None, currentPersistKey = None, pumps = (\<lambda>_. None), status = [], ending = [], dispatched = [],
      detached = [], marks = [], client_loaded = True, sessions_made = 0\<rparr>"

subsection \<open>A session ends once\<close>

fun ended_session :: "window_event \<Rightarrow> nat option" where
  "ended_session (SessionEnded i _ _ _ _) = Some i"
| "ended_session (LinkState _) = None"

text \<open>How often the end of a session is under way, dispatched, or was asked for by a detach.\<close>

definition ends :: "nat \<Rightarrow> app \<Rightarrow> nat" where
  "ends i s = count_list (map fst (ending s)) i + count_list (map ended_session (dispatched s)) (Some i)
     + count_list (detached s) i"

definition load :: "nat \<Rightarrow> app \<Rightarrow> nat" where
  "load i s = ends i s + (if currentSession s = Some i then 1 else 0)"

definition ends_inv :: "app \<Rightarrow> bool" where
  "ends_inv s \<longleftrightarrow> (\<forall>i. load i s \<le> (if i < sessions_made s then 1 else 0))"

text \<open>The steps that leave all of it alone.\<close>

definition ledger :: "app \<Rightarrow> nat option \<times> (nat \<times> jstr \<times> int option \<times> int option) list \<times> nat option list \<times> nat list \<times> nat" where
  "ledger s = (currentSession s, ending s, filter (\<lambda>x. x \<noteq> None) (map ended_session (dispatched s)), detached s, sessions_made s)"

lemma save_fields [simp]:
  "ending (saveScrollback addon b key s) = ending s"
  "dispatched (saveScrollback addon b key s) = dispatched s"
  "detached (saveScrollback addon b key s) = detached s"
  "sessions_made (saveScrollback addon b key s) = sessions_made s"
  "currentSession (saveScrollback addon b key s) = currentSession s"
  by (simp_all add: saveScrollback_def Let_def split: owner.split option.split)

lemma flush_fields [simp]:
  "ending (flush v s) = ending s" "dispatched (flush v s) = dispatched s" "detached (flush v s) = detached s"
  "sessions_made (flush v s) = sessions_made s" "currentSession (flush v s) = currentSession s"
  by (simp_all add: flush_def to_terminal_def)

lemma claim_fields [simp]:
  "ending (claimTerminal key s) = ending s" "dispatched (claimTerminal key s) = dispatched s"
  "detached (claimTerminal key s) = detached s" "sessions_made (claimTerminal key s) = sessions_made s"
  "currentSession (claimTerminal key s) = currentSession s"
  by (simp_all add: claimTerminal_def Let_def split: terminal_owner.split)

lemma drained_fields [simp]:
  "ending (drained key out s) = ending s" "dispatched (drained key out s) = dispatched s"
  "detached (drained key out s) = detached s" "sessions_made (drained key out s) = sessions_made s"
  "currentSession (drained key out s) = currentSession s"
  by (simp_all add: drained_def paint_def)

lemma ledger_same [simp]:
  "ledger (saveScrollback addon b key s) = ledger s"
  "ledger (drained key out s) = ledger s"
  "ledger (set_pump i p s) = ledger s"
  "ledger (set_status m s) = ledger s"
  "ledger (s\<lparr>dirtySincePersist := d\<rparr>) = ledger s"
  "ledger (start_pump i k u l n s) = ledger s"
  by (simp_all add: ledger_def set_pump_def set_status_def start_pump_def)

lemma ledger_after_exited [simp]: "ledger (after_exited env i now p s) = ledger s"
  by (cases env) (simp add: after_exited_def Let_def)

lemma ledger_link_answer [simp]: "ledger (link_answer i a p s) = ledger s"
  by (simp add: link_answer_def Let_def ledger_def set_pump_def set_status_def split: option.splits list.splits)

lemma count_ended: "count_list (filter (\<lambda>x. \<exists>y. x = Some y) xs) (Some i) = count_list xs (Some i)"
  by (induction xs) auto

lemma load_ledger: "ledger t = ledger s \<Longrightarrow> load i t = load i s \<and> sessions_made t = sessions_made s"
proof
  assume "ledger t = ledger s"
  then show "sessions_made t = sessions_made s" by (simp add: ledger_def)
  have "load i u = (case ledger u of (c, e, d, dt, n) \<Rightarrow>
      count_list (map fst e) i + count_list d (Some i) + count_list dt i + (if c = Some i then 1 else 0))" for u
    by (simp add: load_def ends_def ledger_def count_ended)
  with \<open>ledger t = ledger s\<close> show "load i t = load i s" by simp
qed

lemma ends_inv_ledger: "ledger t = ledger s \<Longrightarrow> ends_inv s \<Longrightarrow> ends_inv t"
  using load_ledger[of t s] by (simp add: ends_inv_def)

lemma ends_inv_mono: "(\<And>i. load i t \<le> load i s) \<Longrightarrow> sessions_made t = sessions_made s \<Longrightarrow> ends_inv s \<Longrightarrow> ends_inv t"
  unfolding ends_inv_def by (metis le_trans)

lemma load_ended:
  "load j (sessionEnded env i why code up s) = load j s \<and> sessions_made (sessionEnded env i why code up s) = sessions_made s"
  by (cases env) (simp add: sessionEnded_def Let_def load_def ends_def final_save_def set_status_def)

lemma ends_inv_ended [page_inv]: "ends_inv s \<Longrightarrow> ends_inv (sessionEnded env i why code up s)"
  by (rule ends_inv_mono) (simp_all add: load_ended)

lemma load_close:
  "load j (close_kind_answers k answer s) = load j s \<and> sessions_made (close_kind_answers k answer s) = sessions_made s"
proof (cases "k < length (ending s)")
  case True
  obtain i why code up where e: "ending s ! k = (i, why, code, up)" by (metis prod_cases4)
  have "count_list (map fst (ending s)) j = count_list (map fst (take k (ending s) @ drop (Suc k) (ending s))) j + (if j = i then 1 else 0)"
    by (subst id_take_nth_drop[OF True]) (simp add: e)
  with True e show ?thesis
    by (simp add: load_def ends_def close_kind_answers_def Let_def mark_end_def)
qed (simp add: close_kind_answers_def)

lemma ends_inv_close [page_inv]: "ends_inv s \<Longrightarrow> ends_inv (close_kind_answers k answer s)"
  by (rule ends_inv_mono) (simp_all add: load_close)

lemma ends_inv_set_pump [page_inv]: "ends_inv s \<Longrightarrow> ends_inv (set_pump i p s)"
  by (rule ends_inv_ledger[rotated]) simp_all

lemma ends_inv_pump [page_inv]:
  assumes "ends_inv s"
  shows "ends_inv (pump_step env i now p answer s)"
proof -
  have "ledger (pump_step env i now p answer s) = ledger s \<or>
      (\<exists>why code up. pump_step env i now p answer s = sessionEnded env i why code up (set_pump i (p\<lparr>pump_phase := Stopped\<rparr>) s))"
    by (cases "pump_phase p"; cases answer) (auto simp: pump_step.simps)
  with assms ends_inv_ended[OF ends_inv_set_pump[OF assms]] ends_inv_ledger show ?thesis by metis
qed

lemma ends_inv_supersede [page_inv]:
  assumes "ends_inv s"
  shows "ends_inv (supersede key s)"
proof -
  have "load j (supersede key s) \<le> load j s + (if j = sessions_made s then 1 else 0)" for j
    by (auto simp: load_def ends_def supersede_def Let_def mark_end_def split: option.splits)
  moreover have "sessions_made (supersede key s) = Suc (sessions_made s)"
    by (simp add: supersede_def Let_def mark_end_def split: option.splits)
  moreover have "load j s \<le> (if j < sessions_made s then 1 else 0)" for j using assms by (simp add: ends_inv_def)
  ultimately show ?thesis unfolding ends_inv_def
    by (smt (verit) add.right_neutral add_0 le_trans less_Suc_eq less_irrefl_nat le_zero_eq)
qed

lemma ends_inv_step: "app_step env s t \<Longrightarrow> ends_inv s \<Longrightarrow> ends_inv t"
proof (induction rule: app_step.induct)
  case (GivenUp s)
  then show ?case by (rule ends_inv_mono[rotated 2]) (simp_all add: load_def ends_def forget_def)
next
  case (Ready session s key user link now)
  then show ?case by (rule_tac ends_inv_ledger[rotated]) simp_all
next
  case (Detach s)
  then show ?case by (rule ends_inv_mono[rotated 2])
    (auto simp: load_def ends_def app_detach_def mark_end_def set_status_def split: option.splits)
qed (auto intro: page_inv simp: input_fails_def)

lemma ends_inv_run: "(app_step env)\<^sup>*\<^sup>* s t \<Longrightarrow> ends_inv s \<Longrightarrow> ends_inv t"
  by (induction rule: rtranclp_induct) (auto intro: ends_inv_step)

lemma ends_inv_fresh: "ends_inv fresh_app"
  by (simp add: ends_inv_def load_def ends_def fresh_app_def screen.extend_def)

text \<open>The end of the session on screen, all the way to the shell.\<close>

lemma end_reaches_shell:
  assumes "currentSession s = Some i"
  shows "let t = close_kind_answers (length (ending s)) answer (sessionEnded env i why code up s) in
    currentSession t = None \<and> chunks t = [] \<and> ending t = ending s \<and> status t = why \<and>
    dispatched t = dispatched s @ [SessionEnded i why (end_kind answer why) code up] \<and>
    marks t = marks s @ [end_label (end_kind answer why)]"
proof -
  have f: "chunks (final_save a b k u) = []" "marks (final_save a b k u) = marks (u :: app)"
    "currentSession (final_save a b k u) = currentSession u" "ending (final_save a b k u) = ending u"
    "dispatched (final_save a b k u) = dispatched u" for a b k u
    by (simp_all add: final_save_def saveScrollback_def Let_def flush_def to_terminal_def split: owner.split option.split)
  show ?thesis using assms(1)
    by (cases env) (simp add: sessionEnded_def close_kind_answers_def Let_def mark_end_def set_status_def f)
qed

text \<open>C17: A session's end reaches the page's shell once. In any run of connections, pumps, rejected writes,
  late \<open>close-kind\<close> answers and detaches: no session is reported ended twice, none that was detached or is
  on screen is reported ended; and when the session on screen ends, everything queued is on the terminal,
  nothing is on screen any more, and as soon as its close kind is known (or is known to be unknowable)
  the end is reported, as \<open>lost\<close> when the component refused every call.\<close>

theorem session_ends_once:
  assumes "(app_step env)\<^sup>*\<^sup>* fresh_app s"
  shows "count_list (map ended_session (dispatched s)) (Some i) \<le> 1 \<and>
    (Some i \<in> set (map ended_session (dispatched s)) \<longrightarrow> i \<notin> set (detached s) \<and> currentSession s \<noteq> Some i) \<and>
    (currentSession s = Some i \<longrightarrow>
      (let t = close_kind_answers (length (ending s)) answer (sessionEnded env i why code up s) in
        currentSession t = None \<and> chunks t = [] \<and>
        dispatched t = dispatched s @ [SessionEnded i why (end_kind answer why) code up] \<and>
        marks t = marks s @ [end_label (end_kind answer why)]))"
proof -
  from ends_inv_run[OF assms ends_inv_fresh] have l: "load i s \<le> 1" by (auto simp: ends_inv_def le_Suc_eq split: if_splits)
  have "count_list (map ended_session (dispatched s)) (Some i) \<le> 1" using l by (simp add: load_def ends_def)
  moreover have "i \<notin> set (detached s) \<and> currentSession s \<noteq> Some i" if "Some i \<in> set (map ended_session (dispatched s))"
  proof -
    from that have "count_list (map ended_session (dispatched s)) (Some i) \<noteq> 0" by (simp add: count_list_0_iff)
    with l have "count_list (detached s) i = 0" "currentSession s \<noteq> Some i"
      by (auto simp: load_def ends_def split: if_splits)
    then show ?thesis by (simp add: count_list_0_iff)
  qed
  ultimately show ?thesis
    using end_reaches_shell[of s i answer env why code up] by (simp add: Let_def)
qed

definition one_ended :: app where
  "one_ended = close_kind_answers 0 None (input_fails (None, Normal) 0 (js ''x'') (supersede None fresh_app))"

lemma session_ends_once_witness:
  "count_list (map ended_session (dispatched one_ended)) (Some 0) \<le> 1 \<and> currentSession one_ended = None"
proof -
  let ?e = "(None, Normal) :: env"
  let ?a = "supersede None fresh_app"
  have "app_step ?e fresh_app ?a" by (rule Supersedes)
  moreover have "app_step ?e ?a (input_fails ?e 0 (js ''x'') ?a)" by (rule InputFails)
  moreover have "app_step ?e (input_fails ?e 0 (js ''x'') ?a) (close_kind_answers 0 None (input_fails ?e 0 (js ''x'') ?a))"
    by (rule CloseKind)
  ultimately have "(app_step ?e)\<^sup>*\<^sup>* fresh_app one_ended"
    unfolding one_ended_def by (meson r_into_rtranclp rtranclp_trans)
  from session_ends_once[OF this, of 0] show ?thesis
    by (simp add: one_ended_def close_kind_answers_def input_fails_def sessionEnded_def supersede_def fresh_app_def
        screen.extend_def Let_def mark_end_def set_status_def final_save_def)
qed

end
