(* ===== verification/Connect.thy ===== *)
theory Connect
  imports Pump
begin

text \<open>
  \<^verbatim>\<open>site/app.mjs\<close>, \<open>connect\<close>: from the dial to a running session, as a machine whose states are the awaits of
  the function. The log holds, in order, what is asked of the component and what the human was shown and
  answered; events are what the awaits come back with.
\<close>

subsection \<open>Data\<close>

datatype credential = Auto | Publickey | Passkey | Password "jstr option" | KeyboardInteractive

record batch =
  instruction :: jstr
  prompts :: "(jstr \<times> bool) list"

datatype deed =
    CallStatus | CallFingerprint | CallConfirmHostKey bool
  | AuthPassword jstr | AuthInteractive | AuthAuto | AuthPasskey | AuthPublickey
  | CallPendingPrompts | CallAnswerPrompts "jstr list" | CallDetach
  | Shown jstr | Human bool | Prompted batch | Typed "jstr list" | Cancelled

fun is_auth :: "deed \<Rightarrow> bool" where
  "is_auth (AuthPassword _) = True"
| "is_auth AuthInteractive = True"
| "is_auth AuthAuto = True"
| "is_auth AuthPasskey = True"
| "is_auth AuthPublickey = True"
| "is_auth (CallAnswerPrompts _) = True"
| "is_auth _ = False"

datatype conn_phase =
    Dialing | Settling nat | SettleSleep nat | AwaitFingerprint | AwaitHuman | AwaitConfirm bool
  | AwaitCredential | AwaitPassword | AwaitAuth credential
  | Polling credential | PollSleep credential | AwaitBatch credential | AwaitAnswers credential | AwaitAnswered credential
  | AwaitDetach bool | Connected | Refused | FailedWith jstr

record conn =
  conn_phase :: conn_phase
  log :: "deed list"
  line :: jstr
  recorded_failure :: "jstr option"
  on_page :: bool

datatype conn_event =
    Dialed nat
  | StatusIs "jstr option" "jstr option" nat
  | Slept
  | FingerprintIs "jstr option"
  | HumanSays bool
  | CredentialIs credential
  | AnswersAre "jstr list option"
  | BatchIs "batch option"
  | Done
  | Rejects jstr

definition to_phase :: "conn_phase \<Rightarrow> conn \<Rightarrow> conn" where
  "to_phase p s = s\<lparr>conn_phase := p\<rparr>"

definition do :: "deed list \<Rightarrow> conn_phase \<Rightarrow> conn \<Rightarrow> conn" where
  "do ds p s = s\<lparr>log := log s @ ds, conn_phase := p\<rparr>"

definition say :: "jstr \<Rightarrow> conn \<Rightarrow> conn" where
  "say m s = s\<lparr>line := m\<rparr>"

definition fatal :: "jstr \<Rightarrow> conn \<Rightarrow> conn" where
  "fatal m s = s\<lparr>line := js ''FAILED: '' @ m, recorded_failure := Some m, conn_phase := FailedWith m\<rparr>"

definition ellipsis :: jstr where "ellipsis = [0x2026]"

subsection \<open>The steps\<close>

text \<open>\<open>statusOf\<close> of a status without a kind throws.\<close>

definition unrecognized :: jstr where
  "unrecognized = js ''unrecognized session status shape''"

text \<open>\<open>settle\<close>: poll until the status is not \<open>connecting\<close>, for at most 30 seconds.\<close>

definition settle_status :: "nat \<Rightarrow> jstr \<Rightarrow> jstr option \<Rightarrow> nat \<Rightarrow> conn \<Rightarrow> conn" where
  "settle_status deadline kind reason now s =
     (if kind = js ''connecting'' then
        (if now > deadline then to_phase (FailedWith (js ''timed out during connect'')) s
         else to_phase (SettleSleep deadline) s)
      else if kind = js ''closed'' then
        fatal (js ''connect: '' @ (case reason of Some r \<Rightarrow> r | None \<Rightarrow> js ''closed'')) s
      else if kind \<noteq> js ''host-key-check'' then
        fatal (js ''expected the host-key gate, got status '' @ [34] @ kind @ [34]) s
      else do [CallFingerprint] AwaitFingerprint s)"

definition passkeyHint :: "credential \<Rightarrow> jstr" where
  "passkeyHint cred =
     (if cred \<noteq> Passkey then []
      else [10, 10] @ js ''If the passkey line is installed and this still fails, check the server: '' @
        js ''OpenSSH before 10.3 needs '' @
        js ''`PubkeyAcceptedAlgorithms +webauthn-sk-ecdsa-sha2-nistp256@openssh.com` '' @
        js ''in sshd_config to accept a browser passkey at all.'')"

definition poll_status :: "credential \<Rightarrow> jstr \<Rightarrow> jstr option \<Rightarrow> conn \<Rightarrow> conn" where
  "poll_status cred kind reason s =
     (if kind = js ''ready'' then to_phase Connected s
      else if kind = js ''closed'' then
        fatal (js ''authentication: '' @ (case reason of Some r \<Rightarrow> r | None \<Rightarrow> js ''closed'') @ passkeyHint cred) s
      else if kind = js ''auth-prompts'' then do [CallPendingPrompts] (AwaitBatch cred) s
      else to_phase (PollSleep cred) s)"

definition password_prompt :: "jstr \<Rightarrow> batch" where
  "password_prompt user = \<lparr>instruction = [], prompts = [(js ''password for '' @ user @ js '': '', False)]\<rparr>"

definition offer_credential :: "jstr \<Rightarrow> credential \<Rightarrow> conn \<Rightarrow> conn" where
  "offer_credential user cred s =
     (case cred of
        Password None \<Rightarrow> do [Prompted (password_prompt user)] AwaitPassword s
      | Password (Some pw) \<Rightarrow> do [AuthPassword pw] (AwaitAuth cred) s
      | KeyboardInteractive \<Rightarrow> do [AuthInteractive] (AwaitAuth cred) s
      | Auto \<Rightarrow> do [AuthAuto] (AwaitAuth cred) s
      | Passkey \<Rightarrow> do [AuthPasskey] (AwaitAuth cred) s
      | Publickey \<Rightarrow> do [AuthPublickey] (AwaitAuth cred) s)"

definition first_answer :: "jstr list \<Rightarrow> jstr" where
  "first_answer as = (case as of [] \<Rightarrow> [] | a # _ \<Rightarrow> a)"

text \<open>The answers to a prompt batch, or the user's cancel, which tears the attempt down. \<open>caught\<close>: inside the
  \<open>try\<close> around the credential, whose handler prefixes every message.\<close>

definition prompted :: "bool \<Rightarrow> (jstr list \<Rightarrow> deed) \<Rightarrow> conn_phase \<Rightarrow> jstr list option \<Rightarrow> conn \<Rightarrow> conn" where
  "prompted caught f p answers s =
     (case answers of
        None \<Rightarrow> do [Cancelled, CallDetach] (AwaitDetach caught) s
      | Some as \<Rightarrow> do [Typed as, f as] p s)"

fun conn_step :: "jstr \<Rightarrow> conn \<Rightarrow> conn_event \<Rightarrow> conn" where
  "conn_step user s e =
     (case (conn_phase s, e) of
        (Dialing, Dialed now) \<Rightarrow> do [CallStatus] (Settling (now + 30000)) (s\<lparr>on_page := True\<rparr>)
      | (Settling deadline, StatusIs (Some kind) reason now) \<Rightarrow> settle_status deadline kind reason now s
      | (Settling deadline, StatusIs None reason now) \<Rightarrow> to_phase (FailedWith unrecognized) s
      | (SettleSleep deadline, Slept) \<Rightarrow> do [CallStatus] (Settling deadline) s
      | (AwaitFingerprint, FingerprintIs fp) \<Rightarrow>
          do [Shown (case fp of Some f \<Rightarrow> f | None \<Rightarrow> js ''(unavailable)'')] AwaitHuman
            (say (js ''waiting for host key confirmation'') s)
      | (AwaitHuman, HumanSays ok) \<Rightarrow> do [Human ok, CallConfirmHostKey ok] (AwaitConfirm ok) s
      | (AwaitConfirm ok, Done) \<Rightarrow>
          if ok then to_phase AwaitCredential (say (js ''authenticating'' @ ellipsis) s)
          else to_phase Refused (say (js ''host key rejected; nothing was sent'') (s\<lparr>on_page := False\<rparr>))
      | (AwaitCredential, CredentialIs cred) \<Rightarrow> offer_credential user cred s
      | (AwaitPassword, AnswersAre answers) \<Rightarrow>
          prompted True (\<lambda>as. AuthPassword (first_answer as)) (AwaitAuth (Password None)) answers s
      | (AwaitAuth cred, Done) \<Rightarrow> do [CallStatus] (Polling cred) s
      | (AwaitAuth cred, Rejects m) \<Rightarrow> fatal (js ''authentication: '' @ m) s
      | (AwaitPassword, Rejects m) \<Rightarrow> fatal (js ''authentication: '' @ m) s
      | (Polling cred, StatusIs (Some kind) reason now) \<Rightarrow> poll_status cred kind reason s
      | (Polling cred, StatusIs None reason now) \<Rightarrow> to_phase (FailedWith unrecognized) s
      | (PollSleep cred, Slept) \<Rightarrow> do [CallStatus] (Polling cred) s
      | (AwaitBatch cred, BatchIs None) \<Rightarrow> to_phase (PollSleep cred) s
      | (AwaitBatch cred, BatchIs (Some b)) \<Rightarrow>
          do [Prompted b] (AwaitAnswers cred) (say (js ''the server asks:'') s)
      | (AwaitAnswers cred, AnswersAre answers) \<Rightarrow> prompted False CallAnswerPrompts (AwaitAnswered cred) answers s
      | (AwaitAnswered cred, Done) \<Rightarrow> do [CallStatus] (Polling cred) (say (js ''authenticating'' @ ellipsis) s)
      | (AwaitDetach caught, Done) \<Rightarrow>
          (let s1 = fatal (js ''authentication cancelled'') (s\<lparr>on_page := False\<rparr>)
           in if caught then fatal (js ''authentication: '' @ js ''authentication cancelled'') s1 else s1)
      | (AwaitDetach True, Rejects m) \<Rightarrow> fatal (js ''authentication: '' @ m) s
      | (Connected, _) \<Rightarrow> s
      | (Refused, _) \<Rightarrow> s
      | (FailedWith _, _) \<Rightarrow> s
      | (_, Rejects m) \<Rightarrow> to_phase (FailedWith m) s
      | _ \<Rightarrow> s)"

declare conn_step.simps [simp del]

definition dial :: conn where
  "dial = \<lparr>conn_phase = Dialing, log = [], line = js ''dialing over iroh'' @ ellipsis, recorded_failure = None, on_page = False\<rparr>"

abbreviation conn_run :: "jstr \<Rightarrow> conn_event list \<Rightarrow> conn" where
  "conn_run user es \<equiv> foldl (conn_step user) dial es"

subsection \<open>The host-key gate\<close>

text \<open>What must have happened before a deed: a credential or an answer only after a confirmed key, a
  confirmation only right after the human's answer to the key shown, an answer only right after it was typed.\<close>

fun deed_ok :: "deed list \<Rightarrow> deed \<Rightarrow> bool" where
  "deed_ok pre (CallConfirmHostKey ok) \<longleftrightarrow>
     (\<exists>pre' fp. pre = pre' @ [Shown fp, Human ok] \<and> \<not> list_ex is_auth pre' \<and> (\<forall>b. CallConfirmHostKey b \<notin> set pre'))"
| "deed_ok pre (Human ok) \<longleftrightarrow> (\<exists>pre' fp. pre = pre' @ [Shown fp])"
| "deed_ok pre (CallAnswerPrompts as) \<longleftrightarrow> CallConfirmHostKey True \<in> set pre \<and> (\<exists>pre'. pre = pre' @ [Typed as])"
| "deed_ok pre (AuthPassword pw) \<longleftrightarrow> CallConfirmHostKey True \<in> set pre"
| "deed_ok pre AuthInteractive \<longleftrightarrow> CallConfirmHostKey True \<in> set pre"
| "deed_ok pre AuthAuto \<longleftrightarrow> CallConfirmHostKey True \<in> set pre"
| "deed_ok pre AuthPasskey \<longleftrightarrow> CallConfirmHostKey True \<in> set pre"
| "deed_ok pre AuthPublickey \<longleftrightarrow> CallConfirmHostKey True \<in> set pre"
| "deed_ok pre (Prompted _) \<longleftrightarrow> CallConfirmHostKey True \<in> set pre"
| "deed_ok pre (Typed _) \<longleftrightarrow> (\<exists>pre' b. pre = pre' @ [Prompted b])"
| "deed_ok pre Cancelled \<longleftrightarrow> (\<exists>pre' b. pre = pre' @ [Prompted b])"
| "deed_ok pre CallDetach \<longleftrightarrow> (\<exists>pre'. pre = pre' @ [Cancelled])"
| "deed_ok _ _ \<longleftrightarrow> True"

definition log_ok :: "deed list \<Rightarrow> bool" where
  "log_ok l \<longleftrightarrow> (\<forall>i < length l. deed_ok (take i l) (l ! i))"

lemma log_ok_Nil [simp]: "log_ok []"
  by (simp add: log_ok_def)

lemma log_ok_snoc: "log_ok (l @ [x]) \<longleftrightarrow> log_ok l \<and> deed_ok l x"
  by (auto simp: log_ok_def less_Suc_eq nth_append)

lemma log_ok_snoc2: "log_ok (l @ [x, y]) \<longleftrightarrow> log_ok l \<and> deed_ok l x \<and> deed_ok (l @ [x]) y"
  using log_ok_snoc[of "l @ [x]" y] log_ok_snoc[of l x] by simp

text \<open>Where the machine is, against its log.\<close>

definition ends_with :: "deed list \<Rightarrow> deed \<Rightarrow> bool" where
  "ends_with l d \<longleftrightarrow> l \<noteq> [] \<and> last l = d"

definition untouched :: "deed list \<Rightarrow> bool" where
  "untouched l \<longleftrightarrow> \<not> list_ex is_auth l \<and> (\<forall>b. CallConfirmHostKey b \<notin> set l)"

fun phase_ok :: "conn_phase \<Rightarrow> deed list \<Rightarrow> bool" where
  "phase_ok AwaitHuman l \<longleftrightarrow> (\<exists>l' fp. l = l' @ [Shown fp] \<and> untouched l')"
| "phase_ok (AwaitConfirm ok) l \<longleftrightarrow> CallConfirmHostKey ok \<in> set l \<and> \<not> list_ex is_auth l \<and> (\<forall>b. CallConfirmHostKey b \<in> set l \<longrightarrow> b = ok)"
| "phase_ok Refused l \<longleftrightarrow> CallConfirmHostKey False \<in> set l \<and> \<not> list_ex is_auth l \<and> CallConfirmHostKey True \<notin> set l"
| "phase_ok AwaitPassword l \<longleftrightarrow> CallConfirmHostKey True \<in> set l \<and> (\<exists>l' b. l = l' @ [Prompted b])"
| "phase_ok (AwaitAnswers _) l \<longleftrightarrow> CallConfirmHostKey True \<in> set l \<and> (\<exists>l' b. l = l' @ [Prompted b])"
| "phase_ok (AwaitDetach _) l \<longleftrightarrow> ends_with l CallDetach"
| "phase_ok (FailedWith _) l \<longleftrightarrow> True"
| "phase_ok p l \<longleftrightarrow>
     (if p \<in> {Dialing, AwaitFingerprint} \<or> (\<exists>d. p = Settling d \<or> p = SettleSleep d) then untouched l
      else CallConfirmHostKey True \<in> set l)"

definition conn_inv :: "conn \<Rightarrow> bool" where
  "conn_inv s \<longleftrightarrow> log_ok (log s) \<and> phase_ok (conn_phase s) (log s)"

lemmas conn_defs = do_def to_phase_def say_def fatal_def settle_status_def poll_status_def offer_credential_def
  prompted_def

lemma conn_inv_step [page_inv]: "conn_inv s \<Longrightarrow> conn_inv (conn_step user s e)"
  by (cases "conn_phase s"; cases e)
    (auto simp: conn_step.simps conn_defs conn_inv_def log_ok_snoc log_ok_snoc2 untouched_def ends_with_def Let_def
      split: option.splits credential.splits bool.splits)

interpretation dials: started_machine "conn_step user" conn_inv dial
  by unfold_locales (simp_all add: conn_inv_step, simp add: conn_inv_def dial_def untouched_def)

lemma confirmed_before:
  assumes "log_ok l" "CallConfirmHostKey v \<in> set l"
  shows "\<exists>pre fp post. l = pre @ [Shown fp, Human v, CallConfirmHostKey v] @ post \<and> \<not> list_ex is_auth pre"
proof -
  obtain i where i: "i < length l" "l ! i = CallConfirmHostKey v" using assms(2) by (metis in_set_conv_nth)
  with assms(1) have "deed_ok (take i l) (CallConfirmHostKey v)" by (metis log_ok_def)
  then obtain pre fp where "take i l = pre @ [Shown fp, Human v]" "\<not> list_ex is_auth pre" by auto
  moreover have "l = take i l @ l ! i # drop (Suc i) l" by (rule id_take_nth_drop[OF i(1)])
  ultimately show ?thesis using i(2) by (metis append.assoc append_Cons append_Nil)
qed

lemma log_ok_take: "log_ok l \<Longrightarrow> log_ok (take i l)"
  by (auto simp: log_ok_def min_def)

lemma auth_needs_gate: "is_auth d \<Longrightarrow> deed_ok pre d \<Longrightarrow> CallConfirmHostKey True \<in> set pre"
  by (cases d) auto

text \<open>The host-key gate fails closed. Whatever the component answers (an unexpected status, a closed
  session, a rejection at any await) and whatever the human does: any credential and any prompt answer
  given to the component comes after the fingerprint was shown, the human said yes to it and the component
  was told so; before that nothing of the kind was sent. An attempt whose key the human refused sends
  none ever, and a session only counts as connected behind the gate.\<close>

theorem host_key_gate:
  "let s = conn_run user es in
    (\<forall>i < length (log s). is_auth (log s ! i) \<longrightarrow>
       (\<exists>pre fp post. take i (log s) = pre @ [Shown fp, Human True, CallConfirmHostKey True] @ post \<and> \<not> list_ex is_auth pre)) \<and>
    (conn_phase s = Connected \<longrightarrow> (\<exists>pre fp post. log s = pre @ [Shown fp, Human True, CallConfirmHostKey True] @ post)) \<and>
    (conn_phase s = Refused \<longrightarrow> \<not> list_ex is_auth (log s) \<and> (\<forall>e. conn_step user s e = s))"
proof -
  let ?s = "conn_run user es"
  have inv: "log_ok (log ?s)" "phase_ok (conn_phase ?s) (log ?s)" using dials.ok_reached by (auto simp: conn_inv_def)
  have "\<exists>pre fp post. take i (log ?s) = pre @ [Shown fp, Human True, CallConfirmHostKey True] @ post \<and> \<not> list_ex is_auth pre"
    if "i < length (log ?s)" "is_auth (log ?s ! i)" for i
    using auth_needs_gate[OF that(2)] inv(1) that(1) confirmed_before[OF log_ok_take[OF inv(1)]] by (simp add: log_ok_def)
  moreover have "conn_phase ?s = Connected \<Longrightarrow>
      \<exists>pre fp post. log ?s = pre @ [Shown fp, Human True, CallConfirmHostKey True] @ post"
    using confirmed_before[OF inv(1), of True] inv(2) by force
  moreover have "conn_phase ?s = Refused \<Longrightarrow> \<not> list_ex is_auth (log ?s) \<and> (\<forall>e. conn_step user ?s e = ?s)"
    using inv(2) by (simp add: conn_step.simps)
  ultimately show ?thesis by (simp add: Let_def)
qed

lemma host_key_gate_witness:
  "\<not> list_ex is_auth (log (conn_run [] [Dialed 0, StatusIs (Some (js ''host-key-check'')) None 5, FingerprintIs None,
     HumanSays False, Done, CredentialIs Auto]))"
proof -
  let ?es = "[Dialed 0, StatusIs (Some (js ''host-key-check'')) None 5, FingerprintIs None, HumanSays False, Done, CredentialIs Auto]"
  have "conn_phase (conn_run [] ?es) = Refused" by (simp add: conn_step.simps conn_defs dial_def)
  with host_key_gate[of "[]" ?es] show ?thesis by (simp add: Let_def)
qed

subsection \<open>Cancelling\<close>

definition cancel_inv :: "conn \<Rightarrow> bool" where
  "cancel_inv s \<longleftrightarrow>
     (Cancelled \<in> set (log s) \<longrightarrow>
        (\<exists>pre b. log s = pre @ [Prompted b, Cancelled, CallDetach]) \<and>
        (\<exists>c m. conn_phase s = AwaitDetach c \<or> conn_phase s = FailedWith m)) \<and>
     (\<forall>c. conn_phase s = AwaitDetach c \<longrightarrow> Cancelled \<in> set (log s))"

lemma cancel_inv_step [page_inv]: "conn_inv s \<Longrightarrow> cancel_inv s \<Longrightarrow> cancel_inv (conn_step user s e)"
  by (cases "conn_phase s"; cases e)
    (auto simp: conn_step.simps conn_defs cancel_inv_def conn_inv_def Let_def split: option.splits credential.splits bool.splits)

text \<open>C22: Answers are the user's, and a cancel ends the attempt. Every batch of answers the component is given
  was typed right before for the prompts just shown. Once the user cancels a prompt the session is
  detached, nothing else is ever asked of the component, and the attempt never counts as connected,
  whatever still comes in.\<close>

theorem cancel_detaches:
  "let s = conn_run user es in
    (\<forall>i < length (log s). \<forall>as. log s ! i = CallAnswerPrompts as \<longrightarrow>
       (\<exists>pre b. take i (log s) = pre @ [Prompted b, Typed as])) \<and>
    (Cancelled \<in> set (log s) \<longrightarrow>
       (\<exists>pre b. log s = pre @ [Prompted b, Cancelled, CallDetach]) \<and>
       (\<forall>es'. log (foldl (conn_step user) s es') = log s \<and> conn_phase (foldl (conn_step user) s es') \<noteq> Connected))"
proof -
  let ?s = "conn_run user es"
  have ci: "conn_inv (conn_run user es) \<and> cancel_inv (conn_run user es)" for es
    by (induction es rule: rev_induct)
      (simp_all add: cancel_inv_step conn_inv_step, simp add: conn_inv_def cancel_inv_def dial_def untouched_def)
  have ok: "log_ok (log ?s)" using dials.ok_reached by (auto simp: conn_inv_def)
  have "\<exists>pre b. take i (log ?s) = pre @ [Prompted b, Typed as]"
    if i: "i < length (log ?s)" "log ?s ! i = CallAnswerPrompts as" for i as
  proof -
    from ok i have "deed_ok (take i (log ?s)) (CallAnswerPrompts as)" by (metis log_ok_def)
    then obtain pre where pre: "take i (log ?s) = pre @ [Typed as]" by auto
    with log_ok_take[OF ok, of i] have "deed_ok pre (Typed as)" by (simp add: log_ok_snoc)
    with pre show ?thesis by auto
  qed
  moreover have "log (conn_run user (es @ es')) = log ?s \<and> conn_phase (conn_run user (es @ es')) \<noteq> Connected"
    if c: "Cancelled \<in> set (log ?s)" for es'
  proof (induction es' rule: rev_induct)
    case Nil
    from c ci[of es] show ?case by (auto simp: cancel_inv_def)
  next
    case (snoc e es')
    let ?t = "conn_run user (es @ es')"
    from snoc c ci[of "es @ es'"] have "\<exists>d m. conn_phase ?t = AwaitDetach d \<or> conn_phase ?t = FailedWith m"
      by (auto simp: cancel_inv_def)
    then have "log (conn_step user ?t e) = log ?t \<and> conn_phase (conn_step user ?t e) \<noteq> Connected"
      by (cases e) (auto simp: conn_step.simps conn_defs Let_def split: bool.splits)
    with snoc show ?case by simp
  qed
  moreover have "Cancelled \<in> set (log ?s) \<Longrightarrow> \<exists>pre b. log ?s = pre @ [Prompted b, Cancelled, CallDetach]"
    using ci[of es] by (auto simp: cancel_inv_def)
  ultimately show ?thesis by (simp add: Let_def)
qed

lemma cancel_detaches_witness:
  "log (conn_run [] [Dialed 0, StatusIs (Some (js ''host-key-check'')) None 5, FingerprintIs None, HumanSays True, Done,
     CredentialIs (Password None), AnswersAre None, CredentialIs Auto]) =
     [CallStatus, CallFingerprint, Shown (js ''(unavailable)''), Human True, CallConfirmHostKey True,
      Prompted (password_prompt []), Cancelled, CallDetach]"
proof -
  let ?es = "[Dialed 0, StatusIs (Some (js ''host-key-check'')) None 5, FingerprintIs None, HumanSays True, Done,
     CredentialIs (Password None), AnswersAre None]"
  have l: "log (conn_run [] ?es) = [CallStatus, CallFingerprint, Shown (js ''(unavailable)''), Human True,
      CallConfirmHostKey True, Prompted (password_prompt []), Cancelled, CallDetach]"
    by (simp add: conn_step.simps conn_defs dial_def)
  then have "Cancelled \<in> set (log (conn_run [] ?es))" by simp
  then have "log (foldl (conn_step []) (conn_run [] ?es) [CredentialIs Auto]) = log (conn_run [] ?es)"
    using cancel_detaches[of "[]" ?es] unfolding Let_def by blast
  with l show ?thesis by simp
qed

subsection \<open>The session is ready\<close>

text \<open>The rest of \<open>connect\<close>, on the page: the dump goes on screen, then the opening rule, then the pump starts.\<close>

definition session_ready ::
  "nat \<Rightarrow> jstr \<Rightarrow> jstr option \<Rightarrow> (jstr \<times> jstr) option \<Rightarrow> jstr list \<Rightarrow> nat \<Rightarrow> bool \<Rightarrow> nat \<Rightarrow> app \<Rightarrow> app" where
  "session_ready session user persistKey restore ls cursor has_link now s =
     (let s1 = set_status (js ''connected as '' @ user) s;
          s2 = (case restore of
                  None \<Rightarrow> s1
                | Some (buf, label) \<Rightarrow>
                    (case restoreScrollback buf persistKey ls cursor s1 of
                       (ok, t) \<Rightarrow> if ok then page_note (js ''restored scrollback from '' @ label) t else t));
          s3 = s2\<lparr>marks := marks s2 @ [js ''session start '' @ [0x2014] @ js '' '' @ user]\<rparr>
      in start_pump session persistKey user has_link now s3)"

text \<open>An in-page reconnect keeps its real scrollback.\<close>

lemma reconnect_keeps_screen:
  "everPainted s \<Longrightarrow> on_screen (session_ready i u k r ls c l n s) = on_screen s"
  by (simp add: session_ready_def Let_def restoreScrollback_def set_status_def start_pump_def split: option.split prod.split)

end
