(* ===== verification/Asks.thy ===== *)
theory Asks
  imports WebStorage Connstring
begin

text \<open>
  \<^verbatim>\<open>site/boot.mjs\<close>, the questions the page asks: the one sheet they all ride on (\<open>showSheet\<close>, \<open>settleSheet\<close>,
  \<open>withdrawSheet\<close>), the two-step buttons, and the host-key question with the pins it may write
  (\<open>hostKeyAsk\<close>, \<open>confirmHostKey\<close>). An ask is numbered in the order the asks are made; \<open>None\<close> is the null
  every caller treats as its cancel path.
\<close>

subsection \<open>The sheet\<close>

record 'v sheet =
  sheetResolve :: "nat option"
  sheet_open :: bool
  dataset_ask :: "jstr option"
  asks_made :: nat
  answers :: "(nat \<times> 'v option) list"

definition settleSheet :: "'v option \<Rightarrow> 'v sheet \<Rightarrow> 'v sheet" where
  "settleSheet v s =
     s\<lparr>sheetResolve := None, sheet_open := False, dataset_ask := None,
       answers := (case sheetResolve s of None \<Rightarrow> answers s | Some i \<Rightarrow> answers s @ [(i, v)])\<rparr>"

definition withdrawSheet :: "'v sheet \<Rightarrow> 'v sheet" where
  "withdrawSheet s = (if sheetResolve s \<noteq> None then settleSheet None s else s\<lparr>sheet_open := False\<rparr>)"

definition showSheet :: "jstr \<Rightarrow> 'v sheet \<Rightarrow> 'v sheet" where
  "showSheet kind s =
     (let s1 = withdrawSheet s
      in s1\<lparr>sheetResolve := Some (asks_made s1), dataset_ask := Some kind, sheet_open := True,
            asks_made := asks_made s1 + 1\<rparr>)"

text \<open>What can happen to it: an ask is shown, the content of an ask (the one on screen, or one superseded
  since) calls its \<open>done\<close>, the user dismisses it (the x, Esc, the backdrop), or it is withdrawn.\<close>

datatype 'v sheet_event = Show jstr | Done nat "'v option" | Dismiss | Withdraw

fun sheet_step :: "'v sheet \<Rightarrow> 'v sheet_event \<Rightarrow> 'v sheet" where
  "sheet_step s (Show kind) = showSheet kind s"
| "sheet_step s (Done _ v) = settleSheet v s"
| "sheet_step s Dismiss = settleSheet None s"
| "sheet_step s Withdraw = withdrawSheet s"

definition no_sheet :: "'v sheet" where
  "no_sheet = \<lparr>sheetResolve = None, sheet_open = False, dataset_ask = None, asks_made = 0, answers = []\<rparr>"

abbreviation sheet_run :: "'v sheet_event list \<Rightarrow> 'v sheet" where
  "sheet_run es \<equiv> foldl sheet_step no_sheet es"

definition sheet_inv :: "'v sheet \<Rightarrow> bool" where
  "sheet_inv s \<longleftrightarrow>
     map fst (answers s) = [0..<length (answers s)] \<and>
     (case sheetResolve s of
        None \<Rightarrow> asks_made s = length (answers s) \<and> \<not> sheet_open s
      | Some i \<Rightarrow> i = length (answers s) \<and> asks_made s = Suc i \<and> sheet_open s \<and> dataset_ask s \<noteq> None)"

lemma sheet_inv_step [page_inv]: "sheet_inv s \<Longrightarrow> sheet_inv (sheet_step s e)"
  by (cases e) (auto simp: sheet_inv_def showSheet_def withdrawSheet_def settleSheet_def Let_def split: option.splits)

interpretation sheets: started_machine sheet_step sheet_inv no_sheet
  by unfold_locales (simp_all add: sheet_inv_step, simp add: sheet_inv_def no_sheet_def)

text \<open>The runs in which the content of a superseded ask, where it still answers, answers null. In this page
  only the scan's does (\<open>scanFlow\<close> aborts the camera, and an aborted scan settles with null).\<close>

fun late_null :: "'v sheet \<Rightarrow> 'v sheet_event list \<Rightarrow> bool" where
  "late_null s [] = True"
| "late_null s (e # es) =
     ((case e of Done i (Some _) \<Rightarrow> sheetResolve s \<in> {None, Some i} | _ \<Rightarrow> True) \<and> late_null (sheet_step s e) es)"

lemma late_null_append: "late_null s (es @ es') \<longleftrightarrow> late_null s es \<and> late_null (foldl sheet_step s es) es'"
  by (induction es arbitrary: s) auto

text \<open>An answer that is not null was passed to \<open>done\<close> while its ask was the one on screen.\<close>

lemma answer_given:
  assumes "(i, Some v) \<in> set (answers (sheet_run es))"
  shows "\<exists>pre j post. es = pre @ Done j (Some v) # post \<and> sheetResolve (sheet_run pre) = Some i"
  using assms
proof (induction es rule: rev_induct)
  case (snoc e es)
  show ?case
  proof (cases "(i, Some v) \<in> set (answers (sheet_run es))")
    case True
    then obtain pre j post where "es = pre @ Done j (Some v) # post" "sheetResolve (sheet_run pre) = Some i"
      using snoc.IH by blast
    then show ?thesis by (intro exI[of _ pre] exI[of _ j] exI[of _ "post @ [e]"]) simp
  next
    case False
    then have "\<exists>j. e = Done j (Some v)" and "sheetResolve (sheet_run es) = Some i"
      using snoc.prems
      by (cases e; auto simp: showSheet_def withdrawSheet_def settleSheet_def Let_def split: option.splits if_splits)+
    then show ?thesis by fastforce
  qed
qed (simp add: no_sheet_def)

lemma own_answer_given:
  assumes "late_null no_sheet es" and "(i, Some v) \<in> set (answers (sheet_run es))"
  shows "Done i (Some v) \<in> set es"
proof -
  obtain pre j post where es: "es = pre @ Done j (Some v) # post" "sheetResolve (sheet_run pre) = Some i"
    using answer_given[OF assms(2)] by blast
  with assms(1) show ?thesis by (simp add: late_null_append)
qed

text \<open>C16: One ask at a time, each answered once. After any sequence of asks, answers, dismissals and
  withdrawals, the asks made are answered in order, each exactly once, but for the one on screen, which is
  the last made; asking again answers the one on screen with null first. An answer that is not null was
  passed to \<open>done\<close> while its ask was on screen; and it was passed by that ask's own content wherever the
  content of superseded asks answers nothing but null.\<close>

theorem one_ask_at_a_time:
  "let s = sheet_run es in
    map fst (answers s) = [0..<length (answers s)] \<and>
    (case sheetResolve s of
       None \<Rightarrow> asks_made s = length (answers s) \<and> \<not> sheet_open s
     | Some i \<Rightarrow> i = length (answers s) \<and> asks_made s = Suc i \<and> sheet_open s \<and>
         answers (sheet_step s (Show k)) = answers s @ [(i, None)]) \<and>
    (\<forall>i v. (i, Some v) \<in> set (answers s) \<longrightarrow>
       (\<exists>pre j post. es = pre @ Done j (Some v) # post \<and> sheetResolve (sheet_run pre) = Some i \<and>
          (late_null no_sheet es \<longrightarrow> j = i)))"
proof -
  have own: "\<exists>pre j post. es = pre @ Done j (Some v) # post \<and> sheetResolve (sheet_run pre) = Some i \<and>
      (late_null no_sheet es \<longrightarrow> j = i)" if a: "(i, Some v) \<in> set (answers (sheet_run es))" for i v
  proof -
    obtain pre j post where es: "es = pre @ Done j (Some v) # post" "sheetResolve (sheet_run pre) = Some i"
      using answer_given[OF a] by blast
    then have "late_null no_sheet es \<longrightarrow> j = i" by (simp add: late_null_append)
    then show ?thesis using es by blast
  qed
  have inv: "sheet_inv (sheet_run es)" by (rule sheets.ok_reached)
  show ?thesis
  proof (cases "sheetResolve (sheet_run es)")
    case None
    with inv own show ?thesis by (auto simp: sheet_inv_def)
  next
    case (Some i)
    then have "answers (sheet_step (sheet_run es) (Show k)) = answers (sheet_run es) @ [(i, None)]"
      by (simp add: showSheet_def withdrawSheet_def settleSheet_def Let_def)
    with Some inv own show ?thesis by (auto simp: sheet_inv_def Let_def)
  qed
qed

lemma one_ask_at_a_time_witness:
  "Done 0 (Some True) \<in> set [Show (js ''connect''), Done 0 (Some True), Show (js ''hostkey''), Dismiss] \<and>
   map fst (answers (sheet_run [Show (js ''connect''), Done 0 (Some True), Show (js ''hostkey''), Dismiss])) = [0, 1]"
proof -
  let ?es = "[Show (js ''connect''), Done 0 (Some True), Show (js ''hostkey''), Dismiss]"
  have "(0, Some True) \<in> set (answers (sheet_run ?es))" and l: "late_null no_sheet ?es"
    by (simp_all add: no_sheet_def showSheet_def withdrawSheet_def settleSheet_def Let_def)
  then have "\<exists>pre j post. ?es = pre @ Done j (Some True) # post \<and> sheetResolve (sheet_run pre) = Some 0 \<and> j = 0"
    using one_ask_at_a_time[of ?es] unfolding Let_def by blast
  then have "Done 0 (Some True) \<in> set ?es" by (metis in_set_conv_decomp)
  then show ?thesis by (simp add: no_sheet_def showSheet_def withdrawSheet_def settleSheet_def Let_def)
qed

text \<open>The scan sheet can answer for its successor. The scan's promise calls \<open>done\<close> when it settles, and it
  settles (with null) right after another ask supersedes it, because \<open>scanFlow\<close> then aborts the camera: the
  ask that superseded it is closed and gets null, although nobody answered it.\<close>

theorem scan_cancels_successor:
  "answers (sheet_run [Show (js ''scan''), Show kind, Done 0 None]) = [(0, None), (1, None)] \<and>
   \<not> sheet_open (sheet_run [Show (js ''scan''), Show kind, Done 0 None])"
  by (simp add: no_sheet_def showSheet_def withdrawSheet_def settleSheet_def Let_def)

subsection \<open>Buttons that ask twice\<close>

text \<open>A two-step button: whether it is armed, how often it acted, and the time its arming runs out.\<close>

record two_step =
  armed :: bool
  disarms_at :: nat
  acted :: nat

definition press_two_step :: "nat \<Rightarrow> two_step \<Rightarrow> two_step" where
  "press_two_step now b =
     (let b1 = (if armed b \<and> disarms_at b \<le> now then b\<lparr>armed := False\<rparr> else b) in
      if armed b1 then b1\<lparr>armed := False, acted := acted b1 + 1\<rparr>
      else b1\<lparr>armed := True, disarms_at := now + 3000\<rparr>)"

lemma two_step_needs_two:
  "\<not> armed b \<Longrightarrow> acted (press_two_step t b) = acted b \<and>
     acted (press_two_step u (press_two_step t b)) = (if u < t + 3000 then acted b + 1 else acted b)"
  by (auto simp: press_two_step_def Let_def)

subsection \<open>The host-key question\<close>

text \<open>What the user does with it. \<open>Accept\<close> carries the state of the checkbox, which only the first-contact
  variant has; on the changed-key variant accepting takes the two-step button.\<close>

datatype key_press = Away | RefuseKey | Accept bool

record key_answer =
  key_ok :: bool
  key_remember :: bool

definition hostKeyAsk :: "bool \<Rightarrow> key_press \<Rightarrow> key_answer option" where
  "hostKeyAsk pinned press =
     (case press of
        Away \<Rightarrow> None
      | RefuseKey \<Rightarrow> Some \<lparr>key_ok = False, key_remember = False\<rparr>
      | Accept remember \<Rightarrow> Some \<lparr>key_ok = True, key_remember = (\<not> pinned \<and> remember)\<rparr>)"

text \<open>The pin of the listener being dialed: \<open>endpointId ? loadPins()[endpointId] : undefined\<close>, when truthy.\<close>

definition pin_of :: "jstr option \<Rightarrow> storage \<Rightarrow> json option" where
  "pin_of endpointId st =
     (case endpointId of
        None \<Rightarrow> None
      | Some i \<Rightarrow> (case jget (loadPins st) i of Some p \<Rightarrow> if truthy p then Some p else None | None \<Rightarrow> None))"

definition dialed_endpoint :: "(jstr \<Rightarrow> jstr option) \<Rightarrow> jstr \<Rightarrow> jstr option" where
  "dialed_endpoint parse_url connstring = endpointIdOf (connstringFrom parse_url (Some connstring))"

text \<open>\<open>confirmHostKey\<close> runs in two parts, between which the question stands open and other tabs go on. The first
  reads the pin: either it passes without a question, or it asks, and the question keeps the listener and the
  pin as they were read. The second is the answer: it writes the pin into the storage as it is then.\<close>

record key_question =
  q_fp :: jstr
  q_endpoint :: "jstr option"
  q_pinned :: "json option"

definition confirmAsk :: "(jstr \<Rightarrow> jstr option) \<Rightarrow> jstr \<Rightarrow> jstr \<Rightarrow> storage \<Rightarrow> key_question option" where
  "confirmAsk parse_url fingerprint connstring st =
     (let endpointId = dialed_endpoint parse_url connstring;
          pinned = pin_of endpointId st
      in if (case pinned of Some p \<Rightarrow> jget p (js ''fp'') = Some (JStr fingerprint) | None \<Rightarrow> False) then None
         else Some \<lparr>q_fp = fingerprint, q_endpoint = endpointId, q_pinned = pinned\<rparr>)"

definition confirmAnswer :: "jstr \<Rightarrow> key_question \<Rightarrow> key_press \<Rightarrow> storage \<Rightarrow> bool \<times> storage" where
  "confirmAnswer now q press st =
     (case hostKeyAsk (q_pinned q \<noteq> None) press of
        None \<Rightarrow> (False, st)
      | Some r \<Rightarrow>
          if \<not> key_ok r then (False, st)
          else (True, (case q_endpoint q of
                  Some i \<Rightarrow> if key_remember r then savePin now i (q_fp q) st else st
                | None \<Rightarrow> st)))"

text \<open>The whole of it: the promise it gives, whether it asked, and the store after it. \<open>st\<close> is the store when it
  looks, \<open>press\<close> what the user does when asked, \<open>st1\<close> the store when that comes.\<close>

definition confirmHostKey ::
  "(jstr \<Rightarrow> jstr option) \<Rightarrow> jstr \<Rightarrow> jstr \<Rightarrow> jstr \<Rightarrow> key_press \<Rightarrow> storage \<Rightarrow> storage \<Rightarrow> bool \<times> bool \<times> storage" where
  "confirmHostKey parse_url now fingerprint connstring press st st1 =
     (case confirmAsk parse_url fingerprint connstring st of
        None \<Rightarrow> (True, False, st1)
      | Some q \<Rightarrow> (case confirmAnswer now q press st1 of (ok, st') \<Rightarrow> (ok, True, st')))"

lemmas confirm_defs = confirmHostKey_def confirmAsk_def confirmAnswer_def hostKeyAsk_def pin_of_def

text \<open>C2: Approving a key is explicit. The confirmation only passes without asking when the stored pin of the
  listener being dialed is exactly the fingerprint presented; otherwise it passes only when the user accepted;
  and it writes only when the user accepted with the box checked for a listener that had no pin when it
  asked, and then only that listener's pin, into whatever the storage holds by then.\<close>

theorem approval_is_explicit:
  assumes "confirmHostKey parse_url now fp cs press st st1 = (ok, asked, st')"
  shows "(ok \<and> \<not> asked \<longleftrightarrow> (\<exists>i. dialed_endpoint parse_url cs = Some i \<and> pinnedFp st i = Some (JStr fp))) \<and>
    (ok \<and> asked \<longrightarrow> (\<exists>b. press = Accept b)) \<and>
    (st' \<noteq> st1 \<longrightarrow> (\<exists>i. dialed_endpoint parse_url cs = Some i \<and> press = Accept True \<and> asked \<and> ok \<and>
       pin_of (Some i) st = None \<and> st' = savePin now i fp st1))"
proof -
  have "truthy p" if "jget p k = Some v" for p k v using that by (cases p) auto
  then show ?thesis using assms
    by (auto simp: confirm_defs Let_def pinnedFp_def split: option.splits if_splits key_press.splits)
qed

definition empty_storage :: storage where
  "empty_storage = \<lparr>can_read = True, can_write = True, items = (\<lambda>_. None)\<rparr>"

lemma no_endpoint: "dialed_endpoint parse_url [] = (case parse_url [] of None \<Rightarrow> None | Some h \<Rightarrow> dialed_endpoint parse_url [])"
  by (simp add: dialed_endpoint_def connstringFrom_def starts_with_def endpointIdOf_def connstring_bytes_def
      atob_def drop_pad_def split: option.split)

lemma approval_is_explicit_witness:
  "fst (confirmHostKey (\<lambda>_. None) (js ''now'') (js ''SHA256:x'') [] (Accept True) empty_storage empty_storage) \<and>
   snd (snd (confirmHostKey (\<lambda>_. None) (js ''now'') (js ''SHA256:x'') [] (Accept True) empty_storage empty_storage)) =
     empty_storage"
proof -
  let ?c = "confirmHostKey (\<lambda>_. None) (js ''now'') (js ''SHA256:x'') [] (Accept True) empty_storage empty_storage"
  have d: "dialed_endpoint (\<lambda>_. None) [] = None" using no_endpoint[of "\<lambda>_. None"] by simp
  have "?c = (fst ?c, fst (snd ?c), snd (snd ?c))" by simp
  from approval_is_explicit[OF this] d have "snd (snd ?c) = empty_storage" by auto
  moreover have "fst ?c" by (simp add: confirm_defs d)
  ultimately show ?thesis by simp
qed

lemma jget_loadPins_savePin:
  "i \<noteq> j \<Longrightarrow> jget (loadPins (savePin now j fp st)) i = jget (loadPins st) i"
  by (cases "storage_usable st") (simp_all add: savePin_write loadPins_write jget_jset pins.refused)

lemma confirm_pinned:
  assumes "dialed_endpoint parse_url cs = Some i"
    and "pin_of (Some i) st = Some (JObj [(js ''fp'', JStr fp), (js ''at'', JStr now)])"
  shows "confirmHostKey parse_url now' fp cs press st st1 = (True, False, st1)"
    and "fp' \<noteq> fp \<Longrightarrow> \<exists>ok. confirmHostKey parse_url now' fp' cs press st st1 = (ok, True, st1)"
  using assms by (auto simp: confirmHostKey_def confirmAsk_def confirmAnswer_def hostKeyAsk_def split: key_press.split)

subsection \<open>Tabs sharing the pins\<close>

text \<open>Any number of tabs, each with at most one host-key question open (a tab has one sheet, so a new question
  answers the one before with null), over the one storage. A listener presents a key to a tab, a tab's
  question is answered, a pin is forgotten in the settings of some tab, another key of the storage is written,
  and the storage stops or starts taking writes (its quota).\<close>

record pin_tabs =
  shared :: storage
  question :: "nat \<Rightarrow> key_question option"

datatype pin_event =
    KeyPresented nat jstr jstr
  | KeyAnswered nat jstr key_press
  | KeyForgotten jstr
  | OtherWritten jstr "stored option"
  | TakesWrites bool

fun pin_step :: "(jstr \<Rightarrow> jstr option) \<Rightarrow> pin_tabs \<Rightarrow> pin_event \<Rightarrow> pin_tabs" where
  "pin_step parse_url s (KeyPresented t fp cs) =
     s\<lparr>question := (question s)(t := confirmAsk parse_url fp cs (shared s))\<rparr>"
| "pin_step parse_url s (KeyAnswered t now press) =
     (case question s t of
        None \<Rightarrow> s
      | Some q \<Rightarrow>
          s\<lparr>shared := snd (confirmAnswer now q press (shared s)), question := (question s)(t := None)\<rparr>)"
| "pin_step parse_url s (KeyForgotten i) = s\<lparr>shared := removePin i (shared s)\<rparr>"
| "pin_step parse_url s (OtherWritten k v) =
     (if k = PINS_KEY then s else s\<lparr>shared := (shared s)\<lparr>items := (items (shared s))(k := v)\<rparr>\<rparr>)"
| "pin_step parse_url s (TakesWrites b) = s\<lparr>shared := (shared s)\<lparr>can_write := b\<rparr>\<rparr>"

abbreviation pin_run :: "(jstr \<Rightarrow> jstr option) \<Rightarrow> pin_tabs \<Rightarrow> pin_event list \<Rightarrow> pin_tabs" where
  "pin_run parse_url \<equiv> foldl (pin_step parse_url)"

text \<open>What a remembered key rests on: the pin is in the storage, and no tab still asks about that listener as
  one it has never seen.\<close>

definition no_first_contact :: "jstr \<Rightarrow> pin_tabs \<Rightarrow> bool" where
  "no_first_contact i s \<longleftrightarrow> (\<forall>t q. question s t = Some q \<longrightarrow> q_endpoint q = Some i \<longrightarrow> q_pinned q \<noteq> None)"

definition remembered :: "jstr \<Rightarrow> json \<Rightarrow> pin_tabs \<Rightarrow> bool" where
  "remembered i p s \<longleftrightarrow> pin_of (Some i) (shared s) = Some p \<and> no_first_contact i s"

lemma pin_of_savePin_other: "j \<noteq> i \<Longrightarrow> pin_of (Some i) (savePin now j fp st) = pin_of (Some i) st"
  by (simp add: pin_of_def jget_loadPins_savePin)

lemma pin_of_removePin_other: "j \<noteq> i \<Longrightarrow> pin_of (Some i) (removePin j st) = pin_of (Some i) st"
  by (cases "storage_usable st") (simp_all add: pin_of_def removePin_write loadPins_write jget_jdel pins.refused)

lemma pin_of_items:
  "can_read st' = can_read st \<Longrightarrow> items st' PINS_KEY = items st PINS_KEY \<Longrightarrow> pin_of i st' = pin_of i st"
  by (simp add: pin_of_def loadPins_def parseItem_def getItem_def split: option.split)

lemma answer_other:
  assumes "\<not> (q_endpoint q = Some i \<and> q_pinned q = None)"
  shows "pin_of (Some i) (snd (confirmAnswer now q press st)) = pin_of (Some i) st"
  using assms
  by (auto simp: confirmAnswer_def hostKeyAsk_def pin_of_savePin_other split: key_press.split option.split)

lemma remembered_step:
  assumes r: "remembered i p s" and e: "e \<noteq> KeyForgotten i"
  shows "remembered i p (pin_step parse_url s e)"
proof (cases e)
  case (KeyPresented t fp cs)
  then show ?thesis using r
    by (auto simp: remembered_def no_first_contact_def confirmAsk_def Let_def split: if_splits)
next
  case (KeyAnswered t now press)
  show ?thesis
  proof (cases "question s t")
    case (Some q)
    then have "\<not> (q_endpoint q = Some i \<and> q_pinned q = None)" using r by (auto simp: remembered_def no_first_contact_def)
    then show ?thesis using r KeyAnswered Some answer_other by (simp add: remembered_def no_first_contact_def)
  qed (use r KeyAnswered in simp)
next
  case (KeyForgotten j)
  then show ?thesis using r e by (simp add: remembered_def no_first_contact_def pin_of_removePin_other)
next
  case (OtherWritten k v)
  then show ?thesis using r
    by (auto simp: remembered_def no_first_contact_def pin_of_items[of "shared s\<lparr>items := (items (shared s))(k := v)\<rparr>" "shared s"])
next
  case (TakesWrites b)
  then show ?thesis using r
    by (auto simp: remembered_def no_first_contact_def pin_of_items[of "shared s\<lparr>can_write := b\<rparr>" "shared s"])
qed

lemma remembered_run:
  "remembered i p s \<Longrightarrow> KeyForgotten i \<notin> set es \<Longrightarrow> remembered i p (pin_run parse_url s es)"
proof (induction es arbitrary: s)
  case (Cons e es)
  then have "remembered i p (pin_step parse_url s e)" by (intro remembered_step) auto
  with Cons show ?case by simp
qed simp

text \<open>C3: A remembered key stays the key until it is forgotten. A tab asks about a listener it has no pin for,
  no other tab has such a question about that listener open, and the storage takes writes and holds its pins
  as an object; the user accepts with the box checked. Then, whatever is presented to whichever tab, answered
  and written after that, as long as this listener's pin is not forgotten: that listener with that key passes
  without a question, and with any other key it always asks, and whatever is answered writes nothing.\<close>

theorem remembered_key_stays:
  assumes "pins_usable (shared s)" and "question s t = Some q" and "q_endpoint q = Some i" and "q_pinned q = None"
    and "\<forall>t' q'. t' \<noteq> t \<and> question s t' = Some q' \<and> q_endpoint q' = Some i \<longrightarrow> q_pinned q' \<noteq> None"
    and "KeyForgotten i \<notin> set later" and "dialed_endpoint parse_url cs = Some i"
  shows "let s' = pin_run parse_url s (KeyAnswered t now (Accept True) # later) in
    pinnedFp (shared s') i = Some (JStr (q_fp q)) \<and>
    confirmHostKey parse_url now' (q_fp q) cs press (shared s') st1 = (True, False, st1) \<and>
    (fp' \<noteq> q_fp q \<longrightarrow> (\<exists>ok. confirmHostKey parse_url now' fp' cs press (shared s') st1 = (ok, True, st1)))"
proof -
  let ?s1 = "pin_step parse_url s (KeyAnswered t now (Accept True))"
  let ?p = "JObj [(js ''fp'', JStr (q_fp q)), (js ''at'', JStr now)]"
  have "shared ?s1 = savePin now i (q_fp q) (shared s)"
    using assms(2-4) by (simp add: confirmAnswer_def hostKeyAsk_def)
  with assms(1) have "pin_of (Some i) (shared ?s1) = Some ?p"
    by (auto simp: pin_of_def pins_usable_def savePin_write loadPins_write map_of_put_prop split: json.splits)
  moreover have "no_first_contact i ?s1" using assms(2,5) by (auto simp: no_first_contact_def)
  ultimately have r: "remembered i ?p (pin_run parse_url s (KeyAnswered t now (Accept True) # later))"
    using remembered_run[OF _ assms(6), of ?p ?s1 parse_url] by (simp add: remembered_def)
  then have p: "pin_of (Some i) (shared (pin_run parse_url s (KeyAnswered t now (Accept True) # later))) = Some ?p"
    by (simp add: remembered_def)
  then have "pinnedFp (shared (pin_run parse_url s (KeyAnswered t now (Accept True) # later))) i = Some (JStr (q_fp q))"
    by (auto simp: pin_of_def pinnedFp_def split: option.splits if_splits)
  with confirm_pinned[OF assms(7) p] show ?thesis unfolding Let_def by blast
qed

text \<open>A first contact in one tab, accepted and remembered; then another tab meets another key there.\<close>

lemma empty_pins: "loadPins empty_storage = JObj []"
  by (simp add: loadPins_def parseItem_def getItem_def empty_storage_def)

lemma empty_pins_usable: "pins_usable empty_storage"
  by (simp add: pins_usable_def storage_usable_def empty_pins) (simp add: empty_storage_def)

definition tabs_start :: pin_tabs where
  "tabs_start = \<lparr>shared = empty_storage, question = (\<lambda>_. None)\<rparr>"

lemma example_listener:
  obtains cs where "dialed_endpoint (\<lambda>_. None) cs = Some (replicate 64 97)"
proof -
  obtain s where "connstringFrom (\<lambda>_. None) (Some (js ''#'' @ s)) = s" "endpointIdOf s = Some (replicate 64 97)"
    using v3_roundtrip[OF example_inputs, where url = "\<lambda>_. None"] by blast
  then show ?thesis by (intro that[of "js ''#'' @ s"]) (simp only: dialed_endpoint_def)
qed

lemma first_question:
  assumes "dialed_endpoint parse_url cs = Some i"
  shows "confirmAsk parse_url fp cs empty_storage = Some \<lparr>q_fp = fp, q_endpoint = Some i, q_pinned = None\<rparr>"
  by (simp add: confirmAsk_def assms pin_of_def empty_pins)

lemma remembered_key_stays_witness:
  "\<exists>cs i. pinnedFp (shared (pin_run (\<lambda>_. None) tabs_start
     [KeyPresented 0 (js ''SHA256:x'') cs, KeyAnswered 0 (js ''now'') (Accept True),
      KeyPresented 1 (js ''SHA256:y'') cs, KeyAnswered 1 (js ''later'') (Accept True)])) i =
   Some (JStr (js ''SHA256:x''))"
proof -
  obtain cs i where d: "dialed_endpoint (\<lambda>_. None) cs = Some i" by (metis example_listener)
  let ?x = "js ''SHA256:x''" and ?y = "js ''SHA256:y''"
  let ?q = "\<lparr>q_fp = ?x, q_endpoint = Some i, q_pinned = None\<rparr>"
  let ?s = "pin_step (\<lambda>_. None) tabs_start (KeyPresented 0 ?x cs)"
  let ?later = "[KeyPresented 1 ?y cs, KeyAnswered 1 (js ''later'') (Accept True)]"
  have s: "shared ?s = empty_storage" "question ?s = (\<lambda>_. None)(0 := Some ?q)"
    by (simp_all only: pin_step.simps tabs_start_def pin_tabs.simps pin_tabs.ext_inject first_question[OF d] pin_tabs.update_convs)
  have q: "question ?s 0 = Some ?q" "pins_usable (shared ?s)" by (simp_all only: s fun_upd_same empty_pins_usable)
  have others: "\<forall>t' q'. t' \<noteq> 0 \<and> question ?s t' = Some q' \<and> q_endpoint q' = Some i \<longrightarrow> q_pinned q' \<noteq> None" unfolding s by simp
  from remembered_key_stays[OF q(2) q(1) _ _ others, of ?later "\<lambda>_. None" cs "js ''now''"] d
  have "pinnedFp (shared (pin_run (\<lambda>_. None) ?s (KeyAnswered 0 (js ''now'') (Accept True) # ?later))) i = Some (JStr (q_fp ?q))"
    unfolding Let_def by (simp del: js_simps pin_step.simps foldl.simps)
  then show ?thesis by (intro exI[of _ cs] exI[of _ i]) (simp only: foldl.simps key_question.simps)
qed

text \<open>With first-contact questions about one listener open in two tabs, the second acceptance replaces the key
  the first one remembered, and no changed-key warning is ever shown.\<close>

theorem first_contact_race:
  assumes "dialed_endpoint parse_url cs = Some i" and "pins_usable (shared s)" and "pin_of (Some i) (shared s) = None"
  shows "let s' = pin_run parse_url s
      [KeyPresented 0 fp cs, KeyPresented 1 fp' cs, KeyAnswered 0 now (Accept True), KeyAnswered 1 now (Accept True)] in
    pinnedFp (shared s') i = Some (JStr fp') \<and>
    pinnedFp (shared (pin_run parse_url s [KeyPresented 0 fp cs, KeyPresented 1 fp' cs, KeyAnswered 0 now (Accept True)])) i =
      Some (JStr fp)"
  using assms by (simp add: confirmAsk_def confirmAnswer_def hostKeyAsk_def pinnedFp_savePin pins_usable_savePin)

end
