(* ===== verification/ConnectForm.thy ===== *)
theory ConnectForm
  imports Sessions History
begin

text \<open>
  \<^verbatim>\<open>site/boot.mjs\<close>: the connect form (\<open>connectSheet\<close>) and the settings of one connection (\<open>renderConnection\<close>), both of
  which keep three controls in step: the preset, the session name and the command. The command field is the
  truth, the other two are a view of it.
\<close>

subsection \<open>The controls\<close>

record form =
  f_user :: jstr
  f_method :: jstr
  f_preset :: jstr
  f_name :: jstr
  f_command :: jstr
  f_notice :: jstr

definition nameOr :: "form \<Rightarrow> jstr" where
  "nameOr f = (if trim (f_name f) = [] then js ''main'' else trim (f_name f))"

definition bad_name :: jstr where
  "bad_name = js ''a session name may only use letters, digits, - and _ (up to 32 characters)''"

definition templateCommand :: "form \<Rightarrow> form" where
  "templateCommand f =
     (case presetById (f_preset f) of
        None \<Rightarrow> f
      | Some p \<Rightarrow>
          if \<not> validName (Some (nameOr f)) then f\<lparr>f_notice := bad_name\<rparr>
          else f\<lparr>f_notice := [], f_command := preset_command p (nameOr f)\<rparr>)"

definition custom :: jstr where "custom = js ''custom''"

definition syncFromCommand :: "form \<Rightarrow> form" where
  "syncFromCommand f =
     (let v = trim (f_command f) in
      if v = [] then f\<lparr>f_preset := []\<rparr>
      else case matchCommand (Some v) of
             None \<Rightarrow> f\<lparr>f_preset := custom\<rparr>
           | Some (p, n) \<Rightarrow> f\<lparr>f_preset := preset_id p, f_name := n\<rparr>)"

datatype form_event = TypeUser jstr | PickMethod jstr | PickPreset jstr | TypeName jstr | TypeCommand jstr

fun form_step :: "form \<Rightarrow> form_event \<Rightarrow> form" where
  "form_step f (TypeUser u) = f\<lparr>f_user := u\<rparr>"
| "form_step f (PickMethod m) = f\<lparr>f_method := m\<rparr>"
| "form_step f (PickPreset v) =
     (let f1 = f\<lparr>f_preset := v\<rparr> in
      if v = custom then f1 else if v = [] then f1\<lparr>f_command := []\<rparr> else templateCommand f1)"
| "form_step f (TypeName n) =
     (let f1 = f\<lparr>f_name := n\<rparr> in if presetById (f_preset f1) \<noteq> None then templateCommand f1 else f1)"
| "form_step f (TypeCommand c) = syncFromCommand (f\<lparr>f_command := c\<rparr>)"

text \<open>\<open>connectSheet\<close> opened with what it is filled from: \<open>prefill\<close> first, then the card, then the default.\<close>

definition open_form :: "jstr \<Rightarrow> jstr \<Rightarrow> jstr \<Rightarrow> jstr \<Rightarrow> form" where
  "open_form user m command error =
     syncFromCommand \<lparr>f_user = user, f_method = m, f_preset = [], f_name = [], f_command = command, f_notice = error\<rparr>"

definition filled :: "jstr option \<Rightarrow> json option \<Rightarrow> jstr \<Rightarrow> jstr" where
  "filled prefill stored dflt =
     (case prefill of Some p \<Rightarrow> p | None \<Rightarrow> (case json_text stored of Some s \<Rightarrow> s | None \<Rightarrow> dflt))"

text \<open>\<open>submit\<close>: the notice of a form that is not accepted, or the answer.\<close>

definition submit :: "form \<Rightarrow> jstr + jstr \<times> jstr \<times> jstr" where
  "submit f =
     (let u = trim (f_user f) in
      if u = [] then Inl (js ''a user name is required'')
      else if presetById (f_preset f) \<noteq> None \<and> \<not> validName (Some (nameOr f)) then Inl bad_name
      else Inr (u, f_method f, trim (f_command f)))"

abbreviation form_run :: "form \<Rightarrow> form_event list \<Rightarrow> form" where
  "form_run \<equiv> foldl form_step"

subsection \<open>The controls agree\<close>

definition form_inv :: "form \<Rightarrow> bool" where
  "form_inv f \<longleftrightarrow> (\<forall>p. presetById (f_preset f) = Some p \<longrightarrow> validName (Some (nameOr f)) \<longrightarrow>
     matchCommand (Some (trim (f_command f))) = Some (p, nameOr f))"

lemma matched_name_valid: "matchCommand s = Some (p, n) \<Longrightarrow> validName (Some n)"
proof -
  have "try_matchers ms s = Some (p, n) \<Longrightarrow> validName (Some n)" for ms s
    by (induction ms s rule: try_matchers.induct) (auto split: option.splits list.splits if_splits)
  then show "matchCommand s = Some (p, n) \<Longrightarrow> validName (Some n)" by (auto simp: matchCommand_def Let_def split: if_splits)
qed

lemma presetById_id [simp]: "presetById (preset_id p) = Some p"
  by (cases p) (simp_all add: presetById_def PRESETS_def)

lemma presetById_other [simp]: "presetById [] = None" "presetById custom = None"
  by (simp_all add: presetById_def PRESETS_def custom_def)

lemma trim_valid_name: "validName (Some n) \<Longrightarrow> trim n = n \<and> n \<noteq> []"
  using trim_name by (auto simp: validName_def)

lemma trim_command: "validName (Some n) \<Longrightarrow> trim (preset_command p n) = preset_command p n"
proof (rule trim_id)
  assume v: "validName (Some n)"
  then have n: "n \<noteq> []" "\<forall>c \<in> set n. \<not> is_ws c" by (auto simp: validName_def list_all_iff name_char_not_ws)
  then have "\<not> is_ws (last n)" "\<not> is_ws (hd n)" by simp_all
  with n(1) show "preset_command p n = [] \<or> \<not> is_ws (hd (preset_command p n)) \<and> \<not> is_ws (last (preset_command p n))"
    by (cases p) simp_all
qed

lemma form_inv_template: "form_inv (templateCommand f) \<or> presetById (f_preset f) = None"
proof (cases "presetById (f_preset f)")
  case (Some p)
  then show ?thesis
    using matchCommand_of_command[of "nameOr f" p] trim_command[of "nameOr f" p]
    by (auto simp: form_inv_def templateCommand_def nameOr_def)
qed simp

lemma form_inv_sync: "form_inv (syncFromCommand f)"
proof (cases "matchCommand (Some (trim (f_command f)))")
  case None
  then show ?thesis by (auto simp: syncFromCommand_def form_inv_def Let_def)
next
  case (Some pn)
  obtain p n where pn: "pn = (p, n)" by (cases pn)
  from matched_name_valid Some pn have "validName (Some n)" by blast
  with Some pn trim_valid_name[of n] show ?thesis
    by (auto simp: syncFromCommand_def form_inv_def Let_def nameOr_def)
qed

lemma form_inv_step [page_inv]: "form_inv f \<Longrightarrow> form_inv (form_step f e)"
proof (cases e)
  case (PickPreset v)
  then show ?thesis
    using form_inv_template[of "f\<lparr>f_preset := v\<rparr>"] by (auto simp: Let_def form_inv_def templateCommand_def)
next
  case (TypeName n)
  assume "form_inv f"
  with TypeName show ?thesis
    using form_inv_template[of "f\<lparr>f_name := n\<rparr>"] by (auto simp: Let_def form_inv_def)
qed (auto simp: form_inv_sync, auto simp: form_inv_def nameOr_def)

interpretation filling: started_machine form_step form_inv "open_form user m command error"
  by unfold_locales (simp_all add: form_inv_step, simp add: open_form_def form_inv_sync)

text \<open>C31: What the form shows is what runs. However the user picks presets, types names and edits the command,
  an accepted form has a user name without surrounding space, and when its preset control shows a session
  manager then the session name shown is valid and the command submitted is recognised as that manager on
  that name.\<close>

theorem form_shows_what_runs:
  assumes "submit (form_run (open_form user m command error) es) = Inr (u, m', c)"
  shows "let f = form_run (open_form user m command error) es in
    u \<noteq> [] \<and> u = trim (f_user f) \<and> m' = f_method f \<and> c = trim (f_command f) \<and>
    (\<forall>p. presetById (f_preset f) = Some p \<longrightarrow>
       validName (Some (nameOr f)) \<and> matchCommand (Some c) = Some (p, nameOr f))"
proof -
  have "form_inv (form_run (open_form user m command error) es)" by (rule filling.ok_reached)
  with assms show ?thesis by (auto simp: submit_def Let_def form_inv_def split: if_splits)
qed

lemma form_shows_what_runs_witness:
  "\<exists>f. f = form_run (open_form (js ''ada'') (js ''auto'') [] []) [PickPreset (js ''tmux''), TypeName (js ''x'')] \<and>
     matchCommand (Some (f_command f)) = Some (Tmux, js ''x'')"
proof -
  let ?f = "form_run (open_form (js ''ada'') (js ''auto'') [] []) [PickPreset (js ''tmux''), TypeName (js ''x'')]"
  let ?c = "preset_command Tmux (js ''x'')"
  have t: "presetById (js ''tmux'') = Some Tmux" using presetById_id[of Tmux] by simp
  have v: "validName (Some (js ''x''))" "validName (Some (js ''main''))" by (simp_all add: validName_def name_char_def)
  have n: "trim (js ''x'') = js ''x''" "trim (js ''ada'') = js ''ada''" by (simp_all add: trim_no_ws)
  have f: "f_command ?f = ?c" "f_preset ?f = js ''tmux''" "f_name ?f = js ''x''" "f_user ?f = js ''ada''"
    using t v n by (simp_all add: open_form_def syncFromCommand_def templateCommand_def nameOr_def custom_def Let_def)
  then have s: "submit ?f = Inr (js ''ada'', f_method ?f, ?c)"
    using t v n trim_command[OF v(1), of Tmux] by (simp add: submit_def nameOr_def Let_def)
  from form_shows_what_runs[OF s] f t n show ?thesis unfolding Let_def by (auto simp: nameOr_def)
qed

subsection \<open>The settings of one connection\<close>

text \<open>\<open>store\<close>: the command field, written through to the card.\<close>

definition store_command :: "jstr \<Rightarrow> jstr \<Rightarrow> jstr \<Rightarrow> storage \<Rightarrow> storage" where
  "store_command i user command st =
     (let cmd = trim command in
      if cmd \<noteq> [] then updateConnection i user [(fcommand, Some (JStr cmd))] st else clearStoredCommand i user st)"

datatype settings_event =
    Nickname jstr | SettingsPreset jstr | SettingsName jstr | SettingsTyping jstr | SettingsCommandDone
  | SettingsMethod jstr | SettingsAuto bool | SettingsForget

text \<open>The template of this screen stores what it wrote.\<close>

definition template_store :: "jstr \<Rightarrow> jstr \<Rightarrow> form \<times> storage \<Rightarrow> form \<times> storage" where
  "template_store i user = (\<lambda>(f, st).
     (templateCommand f,
      if presetById (f_preset f) \<noteq> None \<and> validName (Some (nameOr f))
      then store_command i user (f_command (templateCommand f)) st else st))"

fun settings_step :: "jstr \<Rightarrow> jstr \<Rightarrow> form \<times> storage \<Rightarrow> settings_event \<Rightarrow> form \<times> storage" where
  "settings_step i user (f, st) (Nickname n) =
     (f, updateConnection i user [(fname, if trim n = [] then None else Some (JStr (trim n)))] st)"
| "settings_step i user (f, st) (SettingsPreset v) =
     (let f1 = f\<lparr>f_preset := v\<rparr> in
      if v = custom then (f1, st)
      else if v = [] then (f1\<lparr>f_command := []\<rparr>, store_command i user [] st)
      else template_store i user (f1, st))"
| "settings_step i user (f, st) (SettingsName n) =
     (let f1 = f\<lparr>f_name := n\<rparr> in if presetById (f_preset f1) \<noteq> None then template_store i user (f1, st) else (f1, st))"
| "settings_step i user (f, st) (SettingsTyping c) = (syncFromCommand (f\<lparr>f_command := c\<rparr>), st)"
| "settings_step i user (f, st) SettingsCommandDone = (f, store_command i user (f_command f) st)"
| "settings_step i user (f, st) (SettingsMethod m) =
     (f\<lparr>f_method := m\<rparr>, updateConnection i user [(fmethod, if m = js ''auto'' then None else Some (JStr m))] st)"
| "settings_step i user (f, st) (SettingsAuto b) =
     (f, updateConnection i user [(fauto, if b then Some (JBool True) else None)] st)"
| "settings_step i user (f, st) SettingsForget = (f, removeConnection i user st)"

lemma find_update_first:
  "(\<And>x. P (f x) = P x) \<Longrightarrow> List.find P (update_first P f xs) = map_option f (List.find P xs)"
  by (induction xs) auto

lemma find_map_same: "(\<And>x. P (f x) = P x) \<Longrightarrow> List.find P (map f xs) = map_option f (List.find P xs)"
  by (induction xs) auto

lemma entry_ok_command: "cmd \<noteq> [] \<Longrightarrow> entry_ok e \<Longrightarrow> entry_ok (assign [(fcommand, Some (JStr cmd))] e)"
  by (auto simp: entry_ok_def assign_def jget_jset simp del: good_tools.simps)

lemma entry_ok_no_command: "entry_ok e \<Longrightarrow> entry_ok (jdel fcommand e)"
  by (auto simp: entry_ok_def jget_jdel simp del: good_tools.simps)

lemma command_stored:
  assumes "storage_usable st" "length (loadHistory st) \<le> HISTORY_CAP" "find_entry st i user = Some e"
  shows "\<exists>e'. find_entry (store_command i user command st) i user = Some e' \<and>
    jget e' fcommand = (if trim command = [] then None else Some (JStr (trim command)))"
proof (cases "trim command = []")
  case True
  let ?f = "\<lambda>e. if is_entry i user e then jdel fcommand e else e"
  have "list_all entry_ok (map ?f (loadHistory st))"
    using loadHistory_ok[of st] by (auto simp: list_all_iff entry_ok_no_command)
  from load_save[OF assms(1) this] have "loadHistory (store_command i user command st) = map ?f (loadHistory st)"
    using assms(2) by (simp add: store_command_def True clearStoredCommand_def)
  moreover have "List.find (is_entry i user) (map ?f (loadHistory st)) = map_option ?f (find_entry st i user)"
    unfolding find_entry_def by (rule find_map_same) simp
  moreover have "is_entry i user e" using assms(3) by (auto simp: find_entry_def dest: find_SomeD)
  ultimately show ?thesis using True assms(3) by (simp add: find_entry_def jget_jdel)
next
  case False
  let ?f = "assign [(fcommand, Some (JStr (trim command)))]"
  let ?es = "update_first (is_entry i user) ?f (loadHistory st)"
  have "list_all entry_ok ?es"
    by (rule list_all_update_first[OF loadHistory_ok]) (rule entry_ok_command[OF False])
  from load_save[OF assms(1) this] have "loadHistory (store_command i user command st) = ?es"
    using assms(2,3) by (simp add: store_command_def False updateConnection_def length_update_first)
  moreover have "List.find (is_entry i user) ?es = map_option ?f (find_entry st i user)"
    unfolding find_entry_def by (rule find_update_first) (simp add: is_entry_assign)
  moreover have "is_entry i user e" using assms(3) by (auto simp: find_entry_def dest: find_SomeD)
  then have "\<exists>ps. e = JObj ps" by (cases e) (auto simp: is_entry_def)
  ultimately show ?thesis using False assms(3) by (auto simp: find_entry_def assign_def jget_jset)
qed

end
