(* ===== verification/Dial.thy ===== *)
theory Dial
  imports Asks History Token Sessions
begin

text \<open>
  \<^verbatim>\<open>site/boot.mjs\<close>, dialing: one dial at a time (\<open>doConnect\<close>), what is remembered of one that succeeds, the
  automatic reconnect of a lost session (\<open>autoReconnect\<close>), the routing of a session's end, the re-pair sheet's
  answer (\<open>repairFlow\<close>) and the sheet for a command that is not there (\<open>commandSessionEnded\<close>). Time is
  \<open>Date.now()\<close>.
\<close>

subsection \<open>The state\<close>

record dial_params =
  d_connstring :: jstr
  d_user :: jstr
  d_command :: jstr
  d_method :: jstr

text \<open>What the caller of \<open>doConnect\<close> does with its outcome: nothing, put the connect form back up with the error
  (\<open>dialWithSheet\<close>, \<open>dialFromEntry\<close>, the re-pair), or go home with the reason (the automatic reconnect).\<close>

datatype after_dial = NothingMore | FormOnError | HomeUnlessSession jstr

datatype dial_outcome = GotSession | GotNothing | GotError jstr bool

datatype page_screen = Home | Connection | Prefs

record boot =
  dialing :: "(dial_params \<times> bool \<times> after_dial) option"
  dials_made :: nat
  outcomes :: "dial_outcome list"
  lastConnected :: "dial_params option"
  lastAutoAt :: int
  auto_dials :: "(int \<times> dial_params) list"
  live :: bool
  chrome :: "page_screen option"
  homeNotice :: jstr
  local_storage :: storage
  boot_sheet :: "unit sheet"

definition REFUSE_PAIRING :: jstr where "REFUSE_PAIRING = js ''pairing-required''"

definition showChrome :: "page_screen \<Rightarrow> boot \<Rightarrow> boot" where
  "showChrome p s = s\<lparr>chrome := Some p\<rparr>"

definition hideChrome :: "boot \<Rightarrow> boot" where
  "hideChrome s = s\<lparr>chrome := None\<rparr>"

text \<open>\<open>idleHome\<close>: an ask of the dial in flight is left alone.\<close>

definition idleHome :: "jstr \<Rightarrow> boot \<Rightarrow> boot" where
  "idleHome msg s =
     (let s1 = s\<lparr>live := False\<rparr>;
          s2 = (if dialing s1 = None then s1\<lparr>boot_sheet := withdrawSheet (boot_sheet s1)\<rparr> else s1)
      in showChrome Home (s2\<lparr>homeNotice := msg\<rparr>))"

definition ask_sheet :: "jstr \<Rightarrow> boot \<Rightarrow> boot" where
  "ask_sheet kind s = s\<lparr>boot_sheet := showSheet kind (boot_sheet s)\<rparr>"

subsection \<open>Dialing\<close>

text \<open>\<open>doConnect\<close> up to its first await; a dial in flight makes it answer \<open>{}\<close>.\<close>

definition doConnect :: "dial_params \<Rightarrow> bool \<Rightarrow> after_dial \<Rightarrow> boot \<Rightarrow> boot" where
  "doConnect d quiet k s =
     (if dialing s \<noteq> None then s
      else hideChrome (s\<lparr>dialing := Some (d, quiet, k), dials_made := dials_made s + 1,
                         boot_sheet := withdrawSheet (boot_sheet s)\<rparr>))"

text \<open>What \<open>onConnect\<close> comes to: a session, null (the user refused the host key) with the status line, or a throw.\<close>

datatype connect_result = Resolved | ResolvedNull jstr | Threw jstr

text \<open>Bookkeeping of a dial that reached a session.\<close>

definition remember_dial :: "jstr \<Rightarrow> dial_params \<Rightarrow> storage \<Rightarrow> storage" where
  "remember_dial now d st =
     (case connstringDetails (d_connstring d) of
        Some (i, relay) \<Rightarrow>
          if rememberEnabled st then recordConnection now i relay (d_user d) (d_command d) (d_method d) None st else st
      | None \<Rightarrow> st)"

definition dial_result :: "jstr \<Rightarrow> dial_params \<Rightarrow> bool \<Rightarrow> connect_result \<Rightarrow> boot \<Rightarrow> dial_outcome \<times> boot" where
  "dial_result now d quiet r s =
     (case r of
        Resolved \<Rightarrow>
          (GotSession, (hideChrome (s\<lparr>lastConnected := Some d, local_storage := remember_dial now d (local_storage s),
             live := True\<rparr>))\<lparr>homeNotice := []\<rparr>)
      | ResolvedNull status \<Rightarrow> (GotNothing, if quiet then s else idleHome status s)
      | Threw msg \<Rightarrow>
          if quiet then (GotError msg False, s)
          else if str_includes REFUSE_PAIRING msg then (GotError msg True, ask_sheet (js ''repair'') s)
          else (GotError msg False, idleHome msg s))"

text \<open>The caller, with the outcome.\<close>

definition after_outcome :: "after_dial \<Rightarrow> dial_outcome \<Rightarrow> boot \<Rightarrow> boot" where
  "after_outcome k out s =
     (case k of
        NothingMore \<Rightarrow> s
      | FormOnError \<Rightarrow> (case out of GotError _ handled \<Rightarrow> if handled then s else ask_sheet (js ''connect'') s | _ \<Rightarrow> s)
      | HomeUnlessSession why \<Rightarrow> if out = GotSession then s else idleHome why s)"

definition dial_settles :: "jstr \<Rightarrow> connect_result \<Rightarrow> boot \<Rightarrow> boot" where
  "dial_settles now r s =
     (case dialing s of
        None \<Rightarrow> s
      | Some (d, quiet, k) \<Rightarrow>
          (case dial_result now d quiet r s of
             (out, t) \<Rightarrow> after_outcome k out (t\<lparr>dialing := None, outcomes := outcomes t @ [out]\<rparr>)))"

subsection \<open>The end of a session\<close>

definition quiet_methods :: "jstr list" where
  "quiet_methods = map js [''auto'', ''publickey'', ''passkey'']"

text \<open>\<open>loadPins()[id]?.fp\<close> is truthy.\<close>

definition pinned_endpoint :: "storage \<Rightarrow> jstr \<Rightarrow> bool" where
  "pinned_endpoint st connstring =
     (case endpointIdOf connstring of
        None \<Rightarrow> False
      | Some i \<Rightarrow> (case pinnedFp st i of Some fp \<Rightarrow> truthy fp | None \<Rightarrow> False))"

definition auto_eligible :: "int \<Rightarrow> dial_params \<Rightarrow> boot \<Rightarrow> bool" where
  "auto_eligible now d s \<longleftrightarrow>
     d_method d \<in> set quiet_methods \<and> pinned_endpoint (local_storage s) (d_connstring d) \<and>
     (if d_command d \<noteq> [] then 15000 else 60000) \<le> now - lastAutoAt s"

definition autoReconnect :: "int \<Rightarrow> jstr \<Rightarrow> boot \<Rightarrow> boot option" where
  "autoReconnect now why s =
     (case lastConnected s of
        None \<Rightarrow> None
      | Some d \<Rightarrow>
          if \<not> auto_eligible now d s then None
          else let s1 = s\<lparr>lastAutoAt := now\<rparr> in
               if dialing s1 \<noteq> None then Some (idleHome why s1)
               else Some (doConnect d True (HomeUnlessSession why) (s1\<lparr>auto_dials := auto_dials s1 @ [(now, d)]\<rparr>)))"

definition session_ended :: "int \<Rightarrow> jstr \<Rightarrow> jstr option \<Rightarrow> int option \<Rightarrow> int option \<Rightarrow> boot \<Rightarrow> boot" where
  "session_ended now why kind code uptime s =
     (if kind = Some (js ''lost'') then
        (case autoReconnect now why s of Some t \<Rightarrow> t | None \<Rightarrow> idleHome why s)
      else if kind = Some (js ''ended'') \<and> (case lastConnected s of Some d \<Rightarrow> d_command d \<noteq> [] | None \<Rightarrow> False) then
        ask_sheet (if code = Some 127 \<and> (case uptime of Some u \<Rightarrow> u < 5000 | None \<Rightarrow> False)
                   then js ''trouble'' else js ''ended'') (idleHome why s)
      else idleHome why s)"

text \<open>What else of the page writes \<open>localStorage\<close>: the host-key question of a dial (\<open>savePin\<close>), the settings and
  their list of keys, the card screen and its menu, the detection of tools, and the sheet of a missing command.
  An edit of a card only names the fields those set.\<close>

datatype page_write =
    PinWritten jstr jstr jstr
  | PinRemoved jstr
  | CardChanged card_op
  | CardsForgotten
  | ScrollbackSet bool
  | LinksSet bool
  | RememberSet bool
  | EscHintOff

fun card_edit :: "card_op \<Rightarrow> bool" where
  "card_edit (UpdateCard i user patch) \<longleftrightarrow>
     list_all (\<lambda>p. fst p \<in> set [fname, fcommand, fmethod, fauto, ftools, ftoolsAt]) patch"
| "card_edit (RecordCard now i relay user command method resume) \<longleftrightarrow> False"
| "card_edit _ \<longleftrightarrow> True"

fun page_writes :: "page_write \<Rightarrow> storage \<Rightarrow> storage" where
  "page_writes (PinWritten now i fp) st = savePin now i fp st"
| "page_writes (PinRemoved i) st = removePin i st"
| "page_writes (CardChanged c) st = (if card_edit c then do_card c st else st)"
| "page_writes CardsForgotten st = saveHistory [] st"
| "page_writes (ScrollbackSet b) st = setScrollbackEnabled b st"
| "page_writes (LinksSet b) st = setLinksDirect b st"
| "page_writes (RememberSet b) st = setRememberEnabled b st"
| "page_writes EscHintOff st = attempt st (setItem (js ''wosh.eschint.v1'') (Text (js ''off'')) st)"

text \<open>\<open>GoesHome\<close> is a disconnect, or a re-pair sheet that was dismissed. Other tabs may leave any storage.\<close>

datatype boot_event =
    DialAsked dial_params after_dial
  | DialSettles jstr connect_result
  | EndReported int jstr "jstr option" "int option" "int option"
  | GoesHome jstr
  | SheetHappens "unit sheet_event"
  | PageWrites page_write
  | OtherTabs storage

fun boot_step :: "boot \<Rightarrow> boot_event \<Rightarrow> boot" where
  "boot_step s (DialAsked d k) = doConnect d False k s"
| "boot_step s (DialSettles now r) = dial_settles now r s"
| "boot_step s (EndReported now why kind code uptime) = session_ended now why kind code uptime s"
| "boot_step s (GoesHome why) = idleHome why s"
| "boot_step s (SheetHappens e) = s\<lparr>boot_sheet := sheet_step (boot_sheet s) e\<rparr>"
| "boot_step s (PageWrites w) = s\<lparr>local_storage := page_writes w (local_storage s)\<rparr>"
| "boot_step s (OtherTabs st) = s\<lparr>local_storage := st\<rparr>"

definition booted :: "storage \<Rightarrow> boot" where
  "booted st = \<lparr>dialing = None, dials_made = 0, outcomes = [], lastConnected = None, lastAutoAt = 0, auto_dials = [],
     live = False, chrome = Some Home, homeNotice = [], local_storage = st, boot_sheet = no_sheet\<rparr>"

abbreviation boot_run :: "storage \<Rightarrow> boot_event list \<Rightarrow> boot" where
  "boot_run st es \<equiv> foldl boot_step (booted st) es"

subsection \<open>One dial at a time\<close>

lemmas boot_defs = doConnect_def hideChrome_def showChrome_def idleHome_def ask_sheet_def dial_settles_def dial_result_def
  after_outcome_def session_ended_def autoReconnect_def

lemma idleHome_fields [simp]:
  "dialing (idleHome m s) = dialing s" "dials_made (idleHome m s) = dials_made s" "outcomes (idleHome m s) = outcomes s"
  "lastConnected (idleHome m s) = lastConnected s" "lastAutoAt (idleHome m s) = lastAutoAt s"
  "auto_dials (idleHome m s) = auto_dials s" "local_storage (idleHome m s) = local_storage s"
  by (simp_all add: idleHome_def showChrome_def Let_def)

lemma do_fields [simp]:
  "lastAutoAt (doConnect d q k s) = lastAutoAt s" "auto_dials (doConnect d q k s) = auto_dials s"
  "local_storage (doConnect d q k s) = local_storage s" "outcomes (doConnect d q k s) = outcomes s"
  by (simp_all add: doConnect_def hideChrome_def)

lemma ask_fields [simp]:
  "dialing (ask_sheet k s) = dialing s" "dials_made (ask_sheet k s) = dials_made s" "outcomes (ask_sheet k s) = outcomes s"
  "lastConnected (ask_sheet k s) = lastConnected s" "lastAutoAt (ask_sheet k s) = lastAutoAt s"
  "auto_dials (ask_sheet k s) = auto_dials s" "local_storage (ask_sheet k s) = local_storage s"
  by (simp_all add: ask_sheet_def)

lemma after_fields [simp]:
  "dialing (after_outcome k out s) = dialing s" "dials_made (after_outcome k out s) = dials_made s"
  "outcomes (after_outcome k out s) = outcomes s" "lastConnected (after_outcome k out s) = lastConnected s"
  "lastAutoAt (after_outcome k out s) = lastAutoAt s" "auto_dials (after_outcome k out s) = auto_dials s"
  "local_storage (after_outcome k out s) = local_storage s"
  by (simp_all add: after_outcome_def split: after_dial.split dial_outcome.split)

lemma result_fields:
  "dial_result now d quiet r s = (out, t) \<Longrightarrow>
     dials_made t = dials_made s \<and> outcomes t = outcomes s \<and> lastAutoAt t = lastAutoAt s \<and> auto_dials t = auto_dials s \<and>
     local_storage t = (if r = Resolved then remember_dial now d (local_storage s) else local_storage s)"
  by (auto simp: dial_result_def hideChrome_def split: connect_result.splits if_splits)

lemma settle_fields:
  "outcomes (dial_settles now r s) = (case dialing s of None \<Rightarrow> outcomes s | Some (d, q, k) \<Rightarrow> outcomes s @ [fst (dial_result now d q r s)])"
  "dials_made (dial_settles now r s) = dials_made s"
  "dialing (dial_settles now r s) = None"
  "lastAutoAt (dial_settles now r s) = lastAutoAt s"
  "auto_dials (dial_settles now r s) = auto_dials s"
  "local_storage (dial_settles now r s) =
     (case dialing s of Some (d, q, k) \<Rightarrow> if r = Resolved then remember_dial now d (local_storage s) else local_storage s
      | None \<Rightarrow> local_storage s)"
  by (auto simp: dial_settles_def result_fields split: option.split prod.split)

definition dial_inv :: "boot \<Rightarrow> bool" where
  "dial_inv s \<longleftrightarrow> dials_made s = length (outcomes s) + (if dialing s = None then 0 else 1)"

lemma auto_fields:
  "autoReconnect now why s = Some t \<Longrightarrow>
     (dialing s \<noteq> None \<and> t = idleHome why (s\<lparr>lastAutoAt := now\<rparr>) \<or>
      (\<exists>d. dialing s = None \<and> lastConnected s = Some d \<and> dialing t = Some (d, True, HomeUnlessSession why) \<and>
         dials_made t = Suc (dials_made s) \<and> outcomes t = outcomes s \<and> auto_dials t = auto_dials s @ [(now, d)] \<and>
         local_storage t = local_storage s)) \<and>
     lastAutoAt t = now \<and> (\<exists>d. lastConnected s = Some d \<and> auto_eligible now d s)"
  by (cases "dialing s") (auto simp: autoReconnect_def doConnect_def hideChrome_def Let_def split: option.splits if_splits)

lemma ended_cases:
  "session_ended now why kind code uptime s = t \<Longrightarrow>
     (kind = Some (js ''lost'') \<and> autoReconnect now why s = Some t) \<or> t = idleHome why s \<or>
     (\<exists>a. t = ask_sheet a (idleHome why s))"
  by (auto simp: session_ended_def split: option.splits if_splits)

lemma dial_inv_step [page_inv]: "dial_inv s \<Longrightarrow> dial_inv (boot_step s e)"
proof (cases e)
  case (EndReported now why kind code uptime)
  then show "dial_inv s \<Longrightarrow> ?thesis"
    using ended_cases[of now why kind code uptime s, OF refl] by (auto simp: dial_inv_def dest!: auto_fields)
qed (auto simp: dial_inv_def doConnect_def hideChrome_def settle_fields split: option.splits)

interpretation booting: started_machine boot_step dial_inv "booted st"
  by unfold_locales (simp_all add: dial_inv_step, simp add: dial_inv_def booted_def)

text \<open>C10: One dial at a time. In any run, every dial started has exactly one outcome, except the one in flight;
  while one is in flight asking for another does nothing at all; and the end of another session never takes
  the question of the dial in flight off the screen, unless that session ran a command and ended by itself.\<close>

theorem one_dial_at_a_time:
  "let s = boot_run st es in
    dials_made s = length (outcomes s) + (if dialing s = None then 0 else 1) \<and>
    (dialing s \<noteq> None \<longrightarrow>
       boot_step s (DialAsked d k) = s \<and>
       (kind \<noteq> Some (js ''ended'') \<longrightarrow> boot_sheet (boot_step s (EndReported now why kind code up)) = boot_sheet s))"
proof -
  let ?s = "boot_run st es"
  have "dial_inv ?s" by (rule booting.ok_reached)
  moreover have "boot_sheet (boot_step ?s (EndReported now why kind code up)) = boot_sheet ?s"
    if "dialing ?s \<noteq> None" "kind \<noteq> Some (js ''ended'')"
    using that by (auto simp: session_ended_def autoReconnect_def idleHome_def showChrome_def Let_def split: option.split)
  ultimately show ?thesis by (auto simp: dial_inv_def Let_def doConnect_def)
qed

definition some_dial :: dial_params where
  "some_dial = \<lparr>d_connstring = [], d_user = js ''ada'', d_command = js ''top'', d_method = js ''auto''\<rparr>"

lemma one_dial_at_a_time_witness:
  "boot_step (boot_run empty_storage [DialAsked some_dial NothingMore]) (DialAsked some_dial FormOnError)
     = boot_run empty_storage [DialAsked some_dial NothingMore]"
proof -
  have "dialing (boot_run empty_storage [DialAsked some_dial NothingMore]) \<noteq> None"
    by (simp add: booted_def doConnect_def hideChrome_def del: not_None_eq)
  then show ?thesis
    using one_dial_at_a_time[where st = empty_storage and es = "[DialAsked some_dial NothingMore]" and d = some_dial
        and k = FormOnError] unfolding Let_def by blast
qed

text \<open>A command's end answers the next dial's question. When the late end of a session that ran a command
  arrives while its replacement is waiting for an answer (a host key, say), the sheet about the ended command
  supersedes that question, which is answered with null: the replacement is cancelled without the user.\<close>

theorem ended_sheet_cancels_dial:
  "let s = boot_run empty_storage [DialAsked some_dial NothingMore, DialSettles (js ''t0'') Resolved,
             DialAsked some_dial NothingMore, SheetHappens (Show (js ''hostkey''))];
       t = boot_step s (EndReported now why (Some (js ''ended'')) code up)
   in dialing s \<noteq> None \<and> sheetResolve (boot_sheet s) = Some 0 \<and> answers (boot_sheet t) = [(0, None)] \<and> dialing t \<noteq> None"
  by (simp add: boot_defs booted_def some_dial_def no_sheet_def showSheet_def withdrawSheet_def settleSheet_def Let_def
      remember_dial_def split: option.split del: not_None_eq)

subsection \<open>Automatic reconnects\<close>

definition gap :: "dial_params \<Rightarrow> int" where
  "gap d = (if d_command d \<noteq> [] then 15000 else 60000)"

definition auto_inv :: "boot \<Rightarrow> bool" where
  "auto_inv s \<longleftrightarrow>
     (\<forall>i < length (auto_dials s). d_method (snd (auto_dials s ! i)) \<in> set quiet_methods \<and> fst (auto_dials s ! i) \<le> lastAutoAt s) \<and>
     (\<forall>i. Suc i < length (auto_dials s) \<longrightarrow>
        gap (snd (auto_dials s ! Suc i)) \<le> fst (auto_dials s ! Suc i) - fst (auto_dials s ! i))"

lemma auto_inv_snoc:
  assumes "auto_inv s" "auto_eligible now d s" "auto_dials t = auto_dials s @ [(now, d)]" "lastAutoAt t = now"
  shows "auto_inv t"
proof -
  have g: "gap d \<le> now - lastAutoAt s" "d_method d \<in> set quiet_methods" "0 \<le> gap d"
    using assms(2) by (auto simp: auto_eligible_def gap_def)
  with assms(1) have "\<forall>i < length (auto_dials s). fst (auto_dials s ! i) \<le> now \<and> gap d \<le> now - fst (auto_dials s ! i)"
    unfolding auto_inv_def by force
  with assms(1) g(2) show ?thesis
    by (auto simp: auto_inv_def assms(3,4) nth_append less_Suc_eq)
qed

lemma auto_inv_later:
  "auto_inv s \<Longrightarrow> auto_dials t = auto_dials s \<Longrightarrow> lastAutoAt s \<le> lastAutoAt t \<Longrightarrow> auto_inv t"
  unfolding auto_inv_def by (metis order_trans)

lemma auto_inv_step [page_inv]:
  assumes "auto_inv s"
  shows "auto_inv (boot_step s e)"
proof (cases e)
  case (EndReported now why kind code uptime)
  let ?t = "boot_step s e"
  from ended_cases[of now why kind code uptime s, OF refl] consider
    (auto) "autoReconnect now why s = Some ?t" | (home) "auto_dials ?t = auto_dials s \<and> lastAutoAt ?t = lastAutoAt s"
    unfolding EndReported boot_step.simps by (metis idleHome_fields(5,6) ask_fields(5,6))
  then show ?thesis
  proof cases
    case auto
    note f = auto_fields[OF this]
    from f obtain d where d: "lastConnected s = Some d" "auto_eligible now d s" "lastAutoAt ?t = now" by blast
    have c: "auto_dials ?t = auto_dials s \<or> auto_dials ?t = auto_dials s @ [(now, d)]"
      using f d(1) idleHome_fields(6)[of why "s\<lparr>lastAutoAt := now\<rparr>"] by (elim conjE disjE exE) auto
    from d(2) have "lastAutoAt s \<le> now" by (auto simp: auto_eligible_def split: if_splits)
    with c d assms auto_inv_snoc auto_inv_later show ?thesis by metis
  next
    case home
    with assms auto_inv_later show ?thesis by (metis order_refl)
  qed
qed (use assms in \<open>auto simp: auto_inv_def settle_fields\<close>)

interpretation reconnecting: started_machine boot_step auto_inv "booted st"
  by unfold_locales (simp_all add: auto_inv_step, simp add: auto_inv_def booted_def)

text \<open>C24: A lost session is redialed by itself only when that is safe, and not too often. A step of the page starts
  an automatic dial only for the end of a lost session with no dial in flight, with the parameters of the
  last connection, by a method that needs nobody to type, to a listener whose host key this browser has
  pinned; and in any run two automatic dials are at least 15 seconds apart, a minute when the dial would
  start a new shell.\<close>

theorem auto_reconnect_guarded:
  "let s = boot_run st es; t = boot_step s e in
    (auto_dials t \<noteq> auto_dials s \<longrightarrow>
       (\<exists>now why code up d. e = EndReported now why (Some (js ''lost'')) code up \<and> dialing s = None \<and>
          lastConnected s = Some d \<and> auto_dials t = auto_dials s @ [(now, d)] \<and>
          dialing t = Some (d, True, HomeUnlessSession why) \<and>
          d_method d \<in> set quiet_methods \<and> pinned_endpoint (local_storage s) (d_connstring d))) \<and>
    (\<forall>i. Suc i < length (auto_dials s) \<longrightarrow>
       (if d_command (snd (auto_dials s ! Suc i)) \<noteq> [] then 15000 else 60000)
         \<le> fst (auto_dials s ! Suc i) - fst (auto_dials s ! i))"
proof -
  let ?s = "boot_run st es"
  have inv: "auto_inv ?s" by (rule reconnecting.ok_reached)
  have "\<exists>now why code up d. e = EndReported now why (Some (js ''lost'')) code up \<and> dialing ?s = None \<and>
          lastConnected ?s = Some d \<and> auto_dials (boot_step ?s e) = auto_dials ?s @ [(now, d)] \<and>
          dialing (boot_step ?s e) = Some (d, True, HomeUnlessSession why) \<and>
          d_method d \<in> set quiet_methods \<and> pinned_endpoint (local_storage ?s) (d_connstring d)"
    if ch: "auto_dials (boot_step ?s e) \<noteq> auto_dials ?s"
  proof -
    from ch obtain now why kind code up where e: "e = EndReported now why kind code up"
      by (cases e) (simp_all add: settle_fields)
    with ch ended_cases[of now why kind code up ?s, OF refl]
    have k: "kind = Some (js ''lost'')" "autoReconnect now why ?s = Some (boot_step ?s e)" by auto
    from auto_fields[OF k(2)] ch e k(1) show ?thesis by (auto simp: auto_eligible_def)
  qed
  with inv show ?thesis unfolding Let_def auto_inv_def gap_def by blast
qed

definition lost_at :: "int \<Rightarrow> boot_event" where
  "lost_at t = EndReported t (js ''gone'') (Some (js ''lost'')) None None"

text \<open>Without a pin the end of a lost session goes home.\<close>

lemma auto_reconnect_guarded_witness:
  "auto_dials (boot_step (boot_run empty_storage [DialAsked some_dial NothingMore, DialSettles (js ''t0'') Resolved]) (lost_at 90000)) = []"
proof -
  let ?s = "boot_run empty_storage [DialAsked some_dial NothingMore, DialSettles (js ''t0'') Resolved]"
  have e: "endpointIdOf [] = None" by (simp add: endpointIdOf_def connstring_bytes_def atob_def drop_pad_def)
  have "auto_dials ?s = []" "lastConnected ?s = Some some_dial"
    by (simp_all add: booted_def dial_settles_def dial_result_def doConnect_def hideChrome_def)
  moreover have "\<not> pinned_endpoint (local_storage ?s) (d_connstring some_dial)"
    by (simp add: pinned_endpoint_def some_dial_def e del: js_simps)
  ultimately show ?thesis
    using auto_reconnect_guarded[of empty_storage "[DialAsked some_dial NothingMore, DialSettles (js ''t0'') Resolved]" "lost_at 90000"]
    by (auto simp: Let_def simp del: foldl.simps boot_step.simps)
qed

text \<open>The cards of a storage, each by its listener, user, relay and the time it last connected.\<close>

definition card_key :: "json \<Rightarrow> json option \<times> json option \<times> json option \<times> json option" where
  "card_key e = (jget e fid, jget e fuser, jget e frelay, jget e fat)"

definition card_keys :: "storage \<Rightarrow> (json option \<times> json option \<times> json option \<times> json option) set" where
  "card_keys st = card_key ` set (loadHistory st)"

lemma card_key_coerce [simp]: "card_key (coerce_entry e) = card_key e"
  by (simp add: card_key_def jget_coerce)

lemma card_keys_save: "card_keys (saveHistory es st) \<subseteq> card_key ` set es \<union> card_keys st"
  by (auto simp: card_keys_def load_save_any dest: in_set_takeD split: if_splits)

lemma card_keys_update:
  assumes "\<And>e. card_key (f e) = card_key e"
  shows "card_key ` set (update_first P f es) = card_key ` set es"
proof -
  have "map card_key (update_first P f es) = map card_key es" using assms by (rule map_update_first)
  then show ?thesis by (metis image_set)
qed

lemma card_keys_edit: "card_edit c \<Longrightarrow> card_keys (do_card c st) \<subseteq> card_keys st"
proof (cases c)
  case (UpdateCard i user patch)
  assume "card_edit c"
  then have "k \<notin> fst ` set patch" if "k \<in> {fid, fuser, frelay, fat}" for k
    using that by (auto simp: UpdateCard list_all_iff)
  then have "card_key (assign patch e) = card_key e" for e by (simp add: card_key_def jget_assign)
  then have "card_key ` set (update_first (is_entry i user) (assign patch) (loadHistory st)) = card_keys st"
    by (simp add: card_keys_update card_keys_def)
  then show ?thesis
    using card_keys_save[of "update_first (is_entry i user) (assign patch) (loadHistory st)" st]
    by (simp add: UpdateCard updateConnection_def)
next
  case (ForgetCommand i user)
  have "card_key (jdel fcommand e) = card_key e" for e by (simp add: card_key_def jget_jdel)
  then have "card_key ` set (map (\<lambda>e. if is_entry i user e then jdel fcommand e else e) (loadHistory st)) \<subseteq> card_keys st"
    by (auto simp: card_keys_def)
  from order_trans[OF card_keys_save Un_least[OF this order_refl]] show ?thesis
    by (simp only: ForgetCommand do_card.simps clearStoredCommand_def)
next
  case (ForgetCard i user)
  then show ?thesis
    using card_keys_save[of "filter (\<lambda>e. \<not> is_entry i user e) (loadHistory st)" st]
    by (auto simp: removeConnection_def card_keys_def)
qed simp

lemma loadHistory_other:
  "k \<noteq> HISTORY_KEY \<Longrightarrow> loadHistory (attempt st (setItem k v st)) = loadHistory st"
  "k \<noteq> HISTORY_KEY \<Longrightarrow> loadHistory (attempt st (removeItem k st)) = loadHistory st"
  by (simp_all add: loadHistory_def parseItem_def getItem_def setItem_def removeItem_def)

lemma other_keys:
  "PINS_KEY \<noteq> HISTORY_KEY" "SCROLLBACK_KEY \<noteq> HISTORY_KEY" "LINKS_KEY \<noteq> HISTORY_KEY" "REMEMBER_KEY \<noteq> HISTORY_KEY"
  "js ''wosh.eschint.v1'' \<noteq> HISTORY_KEY"
  by (simp_all add: PINS_KEY_def SCROLLBACK_KEY_def LINKS_KEY_def REMEMBER_KEY_def HISTORY_KEY_def)

text \<open>None of those writers brings in a card.\<close>

lemma card_keys_page: "card_keys (page_writes w st) \<subseteq> card_keys st"
proof (cases w)
  case (CardChanged c)
  then show ?thesis using card_keys_edit[of c st] by simp
next
  case CardsForgotten
  then show ?thesis using card_keys_save[of "[]" st] by simp
qed (simp_all only: page_writes.simps card_keys_def savePin_def removePin_def setScrollbackEnabled_def setLinksDirect_def
  setRememberEnabled_def loadHistory_other other_keys not_False_eq_True order_refl if_cancel split: if_split, simp_all)

lemma card_keys_step:
  assumes "\<not> card_keys (local_storage (boot_step s e)) \<subseteq> card_keys (local_storage s)" and "\<And>st. e \<noteq> OtherTabs st"
  shows "\<exists>now d q k. e = DialSettles now Resolved \<and> dialing s = Some (d, q, k) \<and>
       local_storage (boot_step s e) = remember_dial now d (local_storage s)"
proof (cases e)
  case (EndReported now why kind code up)
  have "local_storage (boot_step s e) = local_storage s"
    using ended_cases[of now why kind code up s, OF refl] by (auto simp: EndReported dest!: auto_fields)
  with assms(1) show ?thesis by simp
next
  case (PageWrites w)
  then show ?thesis using assms(1) card_keys_page by simp
qed (use assms in \<open>auto simp: settle_fields split: option.splits if_splits\<close>)

text \<open>C30: Only a connection that reached a session is remembered, and without its token. Whatever a step of the
  page writes into \<open>localStorage\<close> (pins, settings, edits of cards, a dial's end), it brings in a card only when
  the dial in flight has just reached its session, remembering is on, and the connection string decodes: then the
  card of its id, user and relay is recorded, it is the only one that comes in, and the string a later tap on
  that card dials is rebuilt from the id and relay alone, and leads to the same listener.\<close>

theorem only_sessions_are_remembered:
  assumes "\<not> card_keys (local_storage (boot_step s e)) \<subseteq> card_keys (local_storage s)" and "\<And>st. e \<noteq> OtherTabs st"
  shows "\<exists>now d q k i relay. e = DialSettles now Resolved \<and> dialing s = Some (d, q, k) \<and>
    rememberEnabled (local_storage s) \<and> connstringDetails (d_connstring d) = Some (i, relay) \<and>
    local_storage (boot_step s e) =
      recordConnection now i relay (d_user d) (d_command d) (d_method d) None (local_storage s) \<and>
    card_keys (local_storage (boot_step s e)) \<subseteq>
      insert (Some (JStr i), Some (JStr (d_user d)), Some (JStr relay), Some (JStr now)) (card_keys (local_storage s)) \<and>
    (hd relay \<noteq> 0xFEFF \<and> length (utf8_encode relay) < 2 ^ 53 \<longrightarrow>
      (\<exists>cs. tokenlessConnstring i relay = Some cs \<and> connstringDetails cs = Some (i, relay) \<and>
         endpointIdOf cs = endpointIdOf (d_connstring d)))"
proof -
  from card_keys_step[OF assms] obtain now d q k where
    e: "e = DialSettles now Resolved" "dialing s = Some (d, q, k)"
      "local_storage (boot_step s e) = remember_dial now d (local_storage s)" by blast
  have "local_storage (boot_step s e) \<noteq> local_storage s" using assms(1) by auto
  with e obtain i relay where r: "connstringDetails (d_connstring d) = Some (i, relay)" "rememberEnabled (local_storage s)"
    "local_storage (boot_step s e) = recordConnection now i relay (d_user d) (d_command d) (d_method d) None (local_storage s)"
    by (auto simp: remember_dial_def split: option.splits if_splits)
  have "card_keys (local_storage (boot_step s e)) \<subseteq>
      insert (Some (JStr i), Some (JStr (d_user d)), Some (JStr relay), Some (JStr now)) (card_keys (local_storage s))"
    unfolding r(3) recordConnection_def Let_def
    by (rule order_trans[OF card_keys_save]) (auto simp: card_keys_def card_key_def record_fields)
  moreover have "\<exists>cs. tokenlessConnstring i relay = Some cs \<and> connstringDetails cs = Some (i, relay) \<and>
      endpointIdOf cs = endpointIdOf (d_connstring d)" if "hd relay \<noteq> 0xFEFF \<and> length (utf8_encode relay) < 2 ^ 53"
    using connstringDetails_SomeD[OF r(1)] that v3_roundtrip[of i relay None]
    by (auto simp: relay_ok_def token_ok_def tokenlessConnstring_def)
  ultimately show ?thesis using e r by blast
qed

lemma only_sessions_are_remembered_witness:
  "\<exists>d now. let s = (booted empty_storage)\<lparr>dialing := Some (d, False, NothingMore)\<rparr> in
     \<not> card_keys (local_storage (boot_step s (DialSettles now Resolved))) \<subseteq> card_keys (local_storage s) \<and>
     rememberEnabled (local_storage s)"
proof -
  obtain cs where cs: "connstringDetails cs = Some (replicate 64 97, js ''https://r'')"
    using v3_roundtrip[OF example_inputs] by blast
  let ?d = "some_dial\<lparr>d_connstring := cs\<rparr>"
  let ?s = "(booted empty_storage)\<lparr>dialing := Some (?d, False, NothingMore)\<rparr>"
  let ?t = "boot_step ?s (DialSettles (js ''t'') Resolved)"
  have u: "storage_usable empty_storage" "loadHistory empty_storage = []" "rememberEnabled empty_storage"
    by (simp_all add: storage_usable_def empty_storage_def loadHistory_def parseItem_def getItem_def rememberEnabled_def)
  have m: "method_ok (d_method ?d)" by (simp add: some_dial_def method_ok_def METHODS_def)
  have "local_storage ?t = recordConnection (js ''t'') (replicate 64 97) (js ''https://r'') (d_user ?d) (d_command ?d) (d_method ?d) None empty_storage"
    by (simp add: settle_fields remember_dial_def booted_def cs u(3) del: js_simps)
  with record_load[OF u(1) m] have "loadHistory (local_storage ?t) \<noteq> []" by simp
  with u(2) have ch: "\<not> card_keys (local_storage ?t) \<subseteq> card_keys (local_storage ?s)"
    by (simp add: booted_def card_keys_def)
  from only_sessions_are_remembered[OF ch] ch show ?thesis unfolding Let_def by blast
qed

subsection \<open>A dial that fails\<close>

text \<open>Only the automatic reconnect dials quietly, and its caller goes home with the reason.\<close>

definition quiet_inv :: "boot \<Rightarrow> bool" where
  "quiet_inv s \<longleftrightarrow> (\<forall>d k. dialing s = Some (d, True, k) \<longrightarrow> (\<exists>why. k = HomeUnlessSession why))"

lemma quiet_inv_step [page_inv]: "quiet_inv s \<Longrightarrow> quiet_inv (boot_step s e)"
proof (cases e)
  case (EndReported now why kind code uptime)
  then show "quiet_inv s \<Longrightarrow> ?thesis"
    using ended_cases[of now why kind code uptime s, OF refl] by (auto simp: quiet_inv_def dest!: auto_fields)
qed (auto simp: quiet_inv_def doConnect_def hideChrome_def settle_fields)

interpretation quietly: started_machine boot_step quiet_inv "booted st"
  by unfold_locales (simp_all add: quiet_inv_step, simp add: quiet_inv_def booted_def)

text \<open>What a dial that came to no session says on the screen: the home screen with a line, or an ask.\<close>

definition told :: "connect_result \<Rightarrow> bool \<Rightarrow> after_dial \<Rightarrow> boot \<Rightarrow> bool" where
  "told r quiet k t \<longleftrightarrow>
     (let home = (\<lambda>line. chrome t = Some Home \<and> homeNotice t = line); asks = (\<lambda>kind. dataset_ask (boot_sheet t) = Some kind) in
      case r of
        Resolved \<Rightarrow> False
      | ResolvedNull line \<Rightarrow> (case k of HomeUnlessSession why \<Rightarrow> home why | _ \<Rightarrow> home line)
      | Threw msg \<Rightarrow>
         (case k of
            HomeUnlessSession why \<Rightarrow> home why
          | FormOnError \<Rightarrow> if str_includes REFUSE_PAIRING msg then asks (js ''repair'') else home msg \<and> asks (js ''connect'')
          | NothingMore \<Rightarrow> if str_includes REFUSE_PAIRING msg then asks (js ''repair'') else home msg))"

text \<open>C20: No dial fails silently. Whenever, on any run, the dial in flight comes to no session (the user refused the
  key, or anything threw): dialing is possible again, its end writes nothing into \<open>localStorage\<close> (a pin the user
  accepted with the box checked during the dial was written then, and stays), the last connection stays what it
  was, the session is not counted as live by it, and the screen says what happened: the re-pair sheet when the
  listener does not know this browser, the connect form over the home screen with the error when the user had
  dialled from a form or a card, the home screen with the line otherwise, and with the reason of the lost session
  after an automatic reconnect.\<close>

theorem failed_dial_is_told:
  assumes "s = boot_run st es" and "dialing s = Some (d, quiet, k)" and "r \<noteq> Resolved"
  shows "let t = boot_step s (DialSettles now r) in
    dialing t = None \<and> local_storage t = local_storage s \<and> lastConnected t = lastConnected s \<and> (live t \<longrightarrow> live s) \<and>
    told r quiet k t"
proof -
  have "quiet_inv s" unfolding assms(1) by (rule quietly.ok_reached)
  then have "quiet \<Longrightarrow> \<exists>why. k = HomeUnlessSession why" using assms(2) by (auto simp: quiet_inv_def)
  then show ?thesis using assms(2,3)
    by (cases r; cases k; cases quiet)
      (auto simp: told_def dial_settles_def dial_result_def after_outcome_def idleHome_def showChrome_def ask_sheet_def
        showSheet_def Let_def)
qed

lemma failed_dial_is_told_witness:
  "let t = boot_step (boot_run empty_storage [DialAsked some_dial FormOnError]) (DialSettles [] (Threw (js ''no route''))) in
     homeNotice t = js ''no route'' \<and> dataset_ask (boot_sheet t) = Some (js ''connect'') \<and> dialing t = None"
proof -
  have "dialing (boot_run empty_storage [DialAsked some_dial FormOnError]) = Some (some_dial, False, FormOnError)"
    by (simp add: booted_def doConnect_def hideChrome_def)
  from failed_dial_is_told[OF refl this, of "Threw (js ''no route'')" "[]"]
  show ?thesis by (simp add: told_def REFUSE_PAIRING_def starts_with_def Let_def)
qed

end
