(* ===== verification/Recovery.thy ===== *)
theory Recovery
  imports Dial ConnectForm
begin

text \<open>
  \<^verbatim>\<open>site/boot.mjs\<close>, what the page offers when a connection fails or its command ends: the re-pair sheet's answer
  (\<open>repairFlow\<close>), the sheet for a command that is not on the target (\<open>commandSessionEnded\<close>), the session sheet,
  and the countdown that resumes the last connection.
\<close>

subsection \<open>The re-pair sheet\<close>

text \<open>\<open>submit\<close> of the re-pair sheet: the connection string to redial, or the notice. \<open>details\<close> is what the
  refused connection string decodes to.\<close>

definition repair_notice :: "(jstr \<times> jstr) option \<Rightarrow> jstr" where
  "repair_notice details =
     (if details \<noteq> None
      then js ''that is neither a wosh link nor a pairing token (26 characters, as the listener prints it)''
      else js ''this connection has no saved endpoint to attach a token to '' @ [0x2014] @ js '' paste the whole link'')"

definition repair_submit :: "(jstr \<Rightarrow> jstr option) \<Rightarrow> (jstr \<times> jstr) option \<Rightarrow> jstr \<Rightarrow> jstr + jstr" where
  "repair_submit parse_url details raw =
     (let asLink = connstringFrom parse_url (Some raw) in
      if asLink \<noteq> [] \<and> connstringDetails asLink \<noteq> None then Inr asLink
      else case (decodeToken (Some raw), details) of
             (Some token, Some (i, relay)) \<Rightarrow>
               (case tokenedConnstring i relay token of Some cs \<Rightarrow> Inr cs | None \<Rightarrow> Inl (repair_notice details))
           | _ \<Rightarrow> Inl (repair_notice details))"

text \<open>Re-pairing dials the listener that refused, or one the user pasted. An accepted answer of the re-pair
  sheet is either the pasted link itself, which decodes, or the refused connection's own id and relay
  with the sixteen bytes of the token typed; and a token as the listener prints it is accepted.\<close>

theorem repair_redials_same_listener:
  assumes "connstringDetails refused = Some (i, relay)" and "hd relay \<noteq> 0xFEFF" and "length (utf8_encode relay) < 2 ^ 53"
    and "connstringDetails (connstringFrom parse_url (Some raw)) = None"
  shows "(\<forall>cs. repair_submit parse_url (Some (i, relay)) raw = Inr cs \<longrightarrow>
      (\<exists>token. decodeToken (Some raw) = Some token \<and> v3Connstring i relay (Some token) = Some cs \<and>
         connstringDetails cs = connstringDetails refused \<and> endpointIdOf cs = endpointIdOf refused)) \<and>
    (decodeToken (Some raw) \<noteq> None \<longrightarrow> (\<exists>cs. repair_submit parse_url (Some (i, relay)) raw = Inr cs))"
proof -
  note d = connstringDetails_SomeD[OF assms(1)]
  have r: "relay_ok relay" using d(3,4) assms(2,3) by (simp add: relay_ok_def)
  have t: "token_ok (decodeToken (Some raw))"
    using decodeToken_iff[of "Some raw"] by (auto simp: token_ok_def split: option.split)
  show ?thesis
  proof (cases "decodeToken (Some raw)")
    case None
    then show ?thesis using assms(4) by (simp add: repair_submit_def)
  next
    case (Some token)
    with v3_roundtrip[OF d(2) r t] obtain cs where "v3Connstring i relay (Some token) = Some cs"
      "connstringDetails cs = Some (i, relay)" "endpointIdOf cs = Some i" by auto
    with Some assms(1,4) d(1) show ?thesis by (simp add: repair_submit_def tokenedConnstring_def)
  qed
qed

subsection \<open>The command that is not there\<close>

text \<open>\<open>command.split(/&&|\|\||;/)\<close>\<close>

fun split_cmd :: "jstr \<Rightarrow> jstr list" where
  "split_cmd [] = [[]]"
| "split_cmd [c] = (if c = 59 then [[], []] else [[c]])"
| "split_cmd (c # d # s) =
     (if c = 38 \<and> d = 38 \<or> c = 124 \<and> d = 124 then [] # split_cmd s
      else if c = 59 then [] # split_cmd (d # s)
      else case split_cmd (d # s) of [] \<Rightarrow> [[c]] | y # ys \<Rightarrow> (c # y) # ys)"

text \<open>\<open>/^[A-Za-z_][A-Za-z0-9_]*=/\<close>: a variable assignment.\<close>

definition assignment_word :: "jstr \<Rightarrow> bool" where
  "assignment_word w =
     (case w of
        [] \<Rightarrow> False
      | c # s \<Rightarrow> (65 \<le> c \<and> c \<le> 90 \<or> 97 \<le> c \<and> c \<le> 122 \<or> c = 95) \<and>
          (case dropWhile (\<lambda>c. name_char c \<and> c \<noteq> 45) s of d # _ \<Rightarrow> d = 61 | [] \<Rightarrow> False))"

definition trouble_tool :: "jstr \<Rightarrow> jstr" where
  "trouble_tool command =
     (let lastSegment = last (split_cmd command);
          ws = filter (\<lambda>w. w \<noteq> js ''exec'' \<and> \<not> assignment_word w) (split_ws (trim lastSegment))
      in case ws of w # _ \<Rightarrow> w | [] \<Rightarrow> hd (split_ws (trim command)))"

text \<open>What the trouble sheet offers instead, by the tools detected on the host.\<close>

definition trouble_alternatives :: "json option \<Rightarrow> jstr \<Rightarrow> tool list" where
  "trouble_alternatives tools missing =
     (case tools of
        None \<Rightarrow> []
      | Some t \<Rightarrow> if \<not> truthy t then [] else
          filter (\<lambda>p. preset_id p \<noteq> missing \<and> jget t (preset_id p) = Some (JBool True)) PRESETS)"

datatype trouble_action = Swap tool | PlainOnce | PlainAlways

definition trouble_redial :: "jstr \<Rightarrow> trouble_action \<Rightarrow> jstr" where
  "trouble_redial command a =
     (case a of
        Swap p \<Rightarrow> preset_command p (case matchCommand (Some command) of Some (q, n) \<Rightarrow> n | None \<Rightarrow> js ''main'')
      | _ \<Rightarrow> [])"

lemma split_cmd_plain: "set s \<inter> {38, 124, 59} = {} \<Longrightarrow> split_cmd s = [s]"
  by (induction s rule: split_cmd.induct) auto

lemma split_cmd_and: "set a \<inter> {38, 124, 59} = {} \<Longrightarrow> split_cmd (a @ 38 # 38 # s) = a # split_cmd s"
proof (induction a)
  case (Cons c a)
  then show ?case by (cases a) auto
qed simp

lemma words_of_segment: "split_ws (trim (32 # s)) = split_ws (trim s)"
  by (simp add: trim_def trim_start_def)

text \<open>The first word that is neither \<open>exec\<close> nor an assignment, after an \<open>exec\<close>.\<close>

lemma tool_after_exec:
  assumes "s = js ''exec '' @ w @ 32 # t" "\<forall>c \<in> set w. \<not> is_ws c" "w \<noteq> []" "w \<noteq> js ''exec''" "\<not> assignment_word w" "trim s = s"
  shows "\<exists>ws. filter (\<lambda>w. w \<noteq> js ''exec'' \<and> \<not> assignment_word w) (split_ws (trim s)) = w # ws"
proof -
  have "split_ws s = js ''exec'' # split_ws (dropWhile is_ws (w @ 32 # t))"
    using split_ws_Cons[of "js ''exec''" 32 "w @ 32 # t"] assms(1) by simp
  moreover have "split_ws (w @ 32 # t) = w # split_ws (dropWhile is_ws t)" by (rule split_ws_Cons[OF assms(2)]) simp
  moreover have "dropWhile is_ws (w @ 32 # t) = w @ 32 # t" using assms(2,3) by (cases w) auto
  ultimately show ?thesis using assms(4-6) by auto
qed

lemma name_no_op: "validName (Some n) \<Longrightarrow> set n \<inter> {38, 124, 59} = {}"
  by (auto simp: validName_def list_all_iff name_char_def)

lemma trouble_tool_segment:
  assumes "last (split_cmd c) \<in> {s, 32 # s}" "s = js ''exec '' @ w @ 32 # t" "trim s = s"
    and "\<forall>c \<in> set w. \<not> is_ws c" "w \<noteq> []" "w \<noteq> js ''exec''" "\<not> assignment_word w"
  shows "trouble_tool c = w"
proof -
  have "split_ws (trim (last (split_cmd c))) = split_ws (trim s)" using assms(1) words_of_segment by auto
  with tool_after_exec[OF assms(2,4-7,3)] show ?thesis by (auto simp: trouble_tool_def)
qed

lemma trouble_tool_preset:
  assumes "validName (Some name)"
  shows "trouble_tool (preset_command p name) = preset_id p"
proof -
  note n = name_no_op[OF assms] trim_command[OF assms]
  have ok: "\<forall>c \<in> set (preset_id p). \<not> is_ws c" "preset_id p \<noteq> []" "preset_id p \<noteq> js ''exec''" "\<not> assignment_word (preset_id p)"
    by (cases p; simp add: assignment_word_def name_char_def)+
  show ?thesis
  proof (cases "p = Dtach")
    case True
    let ?a = "js ''mkdir -p \"$HOME/.wosh\" ''"
    let ?t = "js ''-A \"$HOME/.wosh/'' @ name @ js ''.dtach\" -r winch \"$SHELL\"''"
    let ?s = "js ''exec '' @ preset_id p @ 32 # ?t"
    have "set (32 # ?s) \<inter> {38, 124, 59} = {}" "set ?a \<inter> {38, 124, 59} = {}" using n(1) by (auto simp: True)
    then have "split_cmd (?a @ 38 # 38 # 32 # ?s) = [?a, 32 # ?s]" by (simp only: split_cmd_and split_cmd_plain)
    moreover have "preset_command p name = ?a @ 38 # 38 # 32 # ?s" by (simp add: True)
    ultimately have l: "last (split_cmd (preset_command p name)) \<in> {?s, 32 # ?s}"
      by (simp only: last.simps list.simps simp_thms if_False insert_iff if_True)
    have "trim ?s = ?s" by (rule trim_id) simp
    then show ?thesis by (rule trouble_tool_segment[OF l refl _ ok])
  next
    case False
    then obtain t where s: "preset_command p name = js ''exec '' @ preset_id p @ 32 # t"
      by (cases p) simp_all
    have "set (preset_command p name) \<inter> {38, 124, 59} = {}" using n(1) False by (cases p) auto
    then have l: "last (split_cmd (preset_command p name)) \<in> {preset_command p name, 32 # preset_command p name}"
      by (simp only: split_cmd_plain last.simps insert_iff simp_thms if_True)
    show ?thesis by (rule trouble_tool_segment[OF l s n(2) ok])
  qed
qed

text \<open>The sheet names the tool that is missing. For the command line of every preset on every valid session
  name, the tool the trouble sheet names (and never offers as its own replacement) is that preset's.\<close>

theorem trouble_names_the_tool:
  assumes "validName (Some name)"
  shows "trouble_tool (preset_command p name) = preset_id p \<and>
    p \<notin> set (trouble_alternatives tools (trouble_tool (preset_command p name))) \<and>
    (\<forall>q. trouble_redial (preset_command p name) (Swap q) = preset_command q name)"
proof -
  have "p \<notin> set (trouble_alternatives tools (preset_id p))" by (auto simp: trouble_alternatives_def split: option.split)
  then show ?thesis
    using trouble_tool_preset[OF assms] matchCommand_of_command[OF assms, of p] by (simp add: trouble_redial_def)
qed

lemma trouble_names_the_tool_witness:
  "trouble_tool (preset_command Dtach (js ''main'')) = js ''dtach''"
proof -
  have "validName (Some (js ''main''))" by (simp add: validName_def name_char_def)
  from trouble_names_the_tool[OF this, of Dtach] show ?thesis by simp
qed

subsection \<open>A token typed on the sheet\<close>

lemma in_drop_pad: "x \<in> set u \<Longrightarrow> x \<noteq> 61 \<Longrightarrow> x \<in> set (drop_pad u)"
proof -
  have "x \<in> set v \<Longrightarrow> x \<noteq> 61 \<Longrightarrow> last v = 61 \<Longrightarrow> x \<in> set (butlast v)" for v :: jstr
    by (cases v rule: rev_cases) auto
  then show "x \<in> set u \<Longrightarrow> x \<noteq> 61 \<Longrightarrow> x \<in> set (drop_pad u)" by (auto simp: drop_pad_def Let_def)
qed

text \<open>A colon, which a token may carry, keeps a text from being read as a connection string.\<close>

lemma colon_no_link: "58 \<in> set (trim s) \<Longrightarrow> connstringDetails s = None"
proof -
  assume c: "58 \<in> set (trim s)"
  let ?u = "filter (\<lambda>c. c \<notin> {9, 10, 12, 13, 32}) (map from_url_alphabet (trim s))"
  have "from_url_alphabet 58 \<in> set (map from_url_alphabet (trim s))" using c by (metis image_eqI set_map)
  then have "58 \<in> set ?u" by (auto simp: from_url_alphabet_def)
  then have "58 \<in> set (drop_pad ?u)" by (rule in_drop_pad) simp
  moreover have "b64_val 58 = None" by (simp add: b64_val_def)
  ultimately have "\<not> list_all (\<lambda>c. b64_val c \<noteq> None) (drop_pad ?u)" unfolding list_all_iff by blast
  then have "atob (map from_url_alphabet (trim s)) = None" unfolding atob_def Let_def by simp
  then show "connstringDetails s = None" by (simp add: connstringDetails_def connstring_bytes_def)
qed

definition typed_token :: jstr where
  "typed_token = js ''aaaaaa:AAAAAAAAAAAAAAAAAAAA''"

lemma typed_token: "decodeToken (Some typed_token) = Some (replicate 16 0)"
proof -
  have "retyped (token_encode (replicate 16 0)) typed_token"
    unfolding zero_token typed_token_def by (simp add: misreadings_def ascii_lower_def separator_def)
  with retyped_folds[OF _ token_encode_alphabet] show ?thesis by (simp add: decodeToken_iff is_bytes_def list_all_iff)
qed

lemma repair_redials_same_listener_witness:
  "\<exists>cs. repair_submit (\<lambda>_. None) (Some (replicate 64 97, js ''https://r'')) typed_token = Inr cs \<and>
     v3Connstring (replicate 64 97) (js ''https://r'') (Some (replicate 16 0)) = Some cs"
proof -
  obtain s where s: "connstringDetails s = Some (replicate 64 97, js ''https://r'')"
    using v3_roundtrip[OF example_inputs] by blast
  have r: "hd (js ''https://r'') \<noteq> 0xFEFF" "length (utf8_encode (js ''https://r'')) < 2 ^ 53"
    using example_inputs(2) unfolding relay_ok_def by blast+
  have t: "trim typed_token = typed_token" by (rule trim_id) (simp add: typed_token_def)
  then have "connstringFrom (\<lambda>_. None) (Some typed_token) = typed_token"
    by (simp add: connstringFrom_def starts_with_def typed_token_def)
  moreover have "connstringDetails typed_token = None" by (rule colon_no_link) (simp add: t, simp add: typed_token_def)
  ultimately show ?thesis
    using repair_redials_same_listener[OF s r, of "\<lambda>_. None" typed_token] typed_token by auto
qed

subsection \<open>Resuming by itself\<close>

text \<open>The countdown on the first card of the home screen. \<open>resumePending\<close> starts true on a load without a
  fragment link; \<open>secs\<close> is there while the ticker runs; \<open>resumed\<close> counts the dials it made.\<close>

record resume =
  resumePending :: bool
  secs :: "nat option"
  resumed :: nat

text \<open>The most recent card asked for it, runs a command, and its listener's key is pinned.\<close>

definition resume_eligible :: "storage \<Rightarrow> bool" where
  "resume_eligible st =
     (case loadHistory st of
        [] \<Rightarrow> False
      | e # _ \<Rightarrow> opt_truthy (jget e fauto) \<and> opt_truthy (jget e fcommand) \<and>
          (case json_text (jget e fid) of
             Some i \<Rightarrow> (case pinnedFp st i of Some fp \<Rightarrow> truthy fp | None \<Rightarrow> False)
           | None \<Rightarrow> False))"

definition cancelResume :: "resume \<Rightarrow> resume" where
  "cancelResume r = r\<lparr>secs := None, resumePending := False\<rparr>"

datatype resume_event = RenderHome storage bool | Second | Interaction

fun resume_step :: "resume \<Rightarrow> resume_event \<Rightarrow> resume" where
  "resume_step r (RenderHome st is_live) =
     r\<lparr>secs := (if resumePending r \<and> \<not> is_live \<and> resume_eligible st then Some 4 else None)\<rparr>"
| "resume_step r Second =
     (case secs r of
        None \<Rightarrow> r
      | Some n \<Rightarrow> if n - 1 > 0 then r\<lparr>secs := Some (n - 1)\<rparr>
                  else (cancelResume r)\<lparr>resumed := resumed r + 1\<rparr>)"
| "resume_step r Interaction = cancelResume r"

definition page_loaded :: "bool \<Rightarrow> resume" where
  "page_loaded has_fragment = \<lparr>resumePending = (\<not> has_fragment), secs = None, resumed = 0\<rparr>"

definition resume_inv :: "resume \<Rightarrow> bool" where
  "resume_inv r \<longleftrightarrow> (secs r \<noteq> None \<longrightarrow> resumePending r) \<and> resumed r \<le> 1 \<and> (resumePending r \<longrightarrow> resumed r = 0)"

lemma resume_inv_step [page_inv]: "resume_inv r \<Longrightarrow> resume_inv (resume_step r e)"
  by (cases e) (auto simp: resume_inv_def cancelResume_def split: option.splits)

interpretation countdown: started_machine resume_step resume_inv "page_loaded f"
  by unfold_locales (simp_all add: resume_inv_step, simp add: resume_inv_def page_loaded_def)

lemma resume_off: "\<not> resumePending r \<Longrightarrow> resume_inv r \<Longrightarrow> resumed (foldl resume_step r es) = resumed r"
proof (rule countdown.frozen_run[where Q = "\<lambda>r. \<not> resumePending r"])
  fix r e
  assume "resume_inv r" "\<not> resumePending r"
  then show "\<not> resumePending (resume_step r e) \<and> resumed (resume_step r e) = resumed r"
    by (cases e) (auto simp: resume_inv_def cancelResume_def split: option.splits)
qed

text \<open>A page load resumes at most once, never after an interaction, and never without the four ticks.\<close>

lemma resume_needs_consent:
  "resumed (foldl resume_step (page_loaded f) es) \<le> 1 \<and>
   resumed (foldl resume_step (page_loaded f) (es @ Interaction # es')) = resumed (foldl resume_step (page_loaded f) es)"
proof -
  let ?r = "foldl resume_step (page_loaded f) es"
  have "resume_inv ?r" by (rule countdown.ok_reached)
  moreover have "resumed (foldl resume_step (cancelResume ?r) es') = resumed (cancelResume ?r)"
    using resume_inv_step[OF \<open>resume_inv ?r\<close>, of Interaction] by (intro resume_off) (simp_all add: cancelResume_def)
  ultimately show ?thesis by (simp add: resume_inv_def cancelResume_def)
qed

subsection \<open>The session sheet\<close>

text \<open>What the session sheet makes of its answer, for the last connection \<open>lc\<close> and the manager \<open>p\<close> its command
  was recognised as.\<close>

datatype session_action = AttachTo jstr | DisconnectNow | OpenSettings

datatype session_effect = Redial dial_params | Disconnects | ShowsSettings

definition session_sheet_done :: "dial_params \<Rightarrow> tool \<Rightarrow> session_action \<Rightarrow> session_effect" where
  "session_sheet_done lc p a =
     (case a of
        AttachTo n \<Rightarrow> Redial (lc\<lparr>d_command := preset_command p n\<rparr>)
      | DisconnectNow \<Rightarrow> Disconnects
      | OpenSettings \<Rightarrow> ShowsSettings)"

text \<open>The rows that can be attached to: the listed sessions but the current one, and a new name that is valid.\<close>

definition attachable :: "tool \<Rightarrow> jstr \<Rightarrow> jstr option \<Rightarrow> jstr list" where
  "attachable p current listing = filter (\<lambda>n. n \<noteq> current) (map row_name (preset_parseList p listing))"

definition new_session :: "jstr \<Rightarrow> jstr option" where
  "new_session typed = (if validName (Some (trim typed)) then Some (trim typed) else None)"

text \<open>Switching lands in the session that was picked, on the same machine as the same user.\<close>

lemma attach_lands:
  assumes "n \<in> set (attachable p current listing) \<or> new_session typed = Some n"
  shows "\<exists>d. session_sheet_done lc p (AttachTo n) = Redial d \<and> d_connstring d = d_connstring lc \<and> d_user d = d_user lc \<and>
    matchCommand (Some (d_command d)) = Some (p, n)"
proof -
  have "validName (Some n)"
    using assms parsed_rows_valid[of p listing]
    by (auto simp: attachable_def new_session_def list_all_iff split: if_splits)
  from matchCommand_of_command[OF this] show ?thesis by (simp add: session_sheet_done_def)
qed

end
