(* ===== verification/TransferFmt.thy ===== *)
theory TransferFmt
  imports Codec
begin

text \<open>
  The pure helpers of \<^verbatim>\<open>site/transfer-ui.mjs\<close>: remote paths as arrays of byte segments, the name a
  browser will save a file under, sizes for people, and the two shapes an outcome arrives in.
\<close>

subsection \<open>Paths\<close>

text \<open>\<open>enc.encode(s)\<close>\<close>

definition enc_encode :: "jstr \<Rightarrow> bytes" where
  "enc_encode s = map of_nat (utf8_encode s)"

text \<open>\<open>out.set(s, o)\<close> on a typed array: a RangeError (None) when it does not fit.\<close>

definition typed_set :: "nat \<Rightarrow> bytes \<Rightarrow> bytes \<Rightarrow> bytes option" where
  "typed_set off s out =
     (if off + length s \<le> length out then Some (take off out @ s @ drop (off + length s) out) else None)"

text \<open>The loop of \<open>joinSegments\<close> over the zeroed array; a write by index past the end does nothing.\<close>

fun join_loop :: "bytes list \<Rightarrow> nat \<Rightarrow> bytes \<Rightarrow> bytes option" where
  "join_loop [] off out = Some out"
| "join_loop (s # rest) off out =
     (case typed_set off s out of
        None \<Rightarrow> None
      | Some out1 \<Rightarrow>
         if rest \<noteq> [] then join_loop rest (off + length s + 1) (out1[off + length s := 0x2F])
         else Some out1)"

definition joinSegments :: "bytes list \<Rightarrow> bytes option" where
  "joinSegments segments =
     (if length segments = 0 then Some (enc_encode (js ''.''))
      else (let total = foldl (\<lambda>a s. a + length s) 0 segments + (length segments - 1)
            in join_loop segments 0 (replicate total 0)))"

text \<open>\<open>segsEqual\<close>, with its two loops by index.\<close>

definition segsEqual :: "bytes list \<Rightarrow> bytes list \<Rightarrow> bool" where
  "segsEqual a b \<longleftrightarrow>
     length a = length b \<and>
     list_all (\<lambda>i. length (a ! i) = length (b ! i) \<and>
       list_all (\<lambda>j. a ! i ! j = b ! i ! j) [0..<length (a ! i)]) [0..<length a]"

text \<open>What the two are for: a path is the names with slashes between them, the empty one the dot.\<close>

fun slashed :: "bytes list \<Rightarrow> bytes" where
  "slashed [] = []"
| "slashed [s] = s"
| "slashed (s # rest) = s @ 0x2F # slashed rest"

definition path_of :: "bytes list \<Rightarrow> bytes" where
  "path_of segs = (if segs = [] then [0x2E] else slashed segs)"

lemma segsEqual_eq: "segsEqual a b \<longleftrightarrow> a = b"
proof
  assume "segsEqual a b"
  then have "length a = length b" "\<forall>i < length a. a ! i = b ! i"
    by (auto simp: segsEqual_def list_all_iff intro!: nth_equalityI)
  then show "a = b" by (simp add: nth_equalityI)
qed (simp add: segsEqual_def list_all_iff)

lemma total_length: "foldl (\<lambda>a s. a + length s) n segs = n + length (concat segs)"
  by (induction segs arbitrary: n) auto

lemma length_slashed: "segs \<noteq> [] \<Longrightarrow> length (slashed segs) = length (concat segs) + (length segs - 1)"
  by (induction segs rule: slashed.induct) auto

text \<open>The loop fills the array exactly: each segment lands on zeros, right behind what is written.\<close>

lemma join_loop_Cons:
  "join_loop (s # rest) (length pre) (pre @ replicate (length s) 0 @ z) =
     (if rest \<noteq> [] then join_loop rest (length (pre @ s @ [0x2F])) ((pre @ s @ z)[length (pre @ s) := 0x2F])
      else Some (pre @ s @ z))"
  by (simp add: typed_set_def)

declare join_loop.simps(2) [simp del]

lemma join_loop_fills:
  "segs \<noteq> [] \<Longrightarrow> join_loop segs (length pre) (pre @ replicate (length (slashed segs)) 0) = Some (pre @ slashed segs)"
proof (induction segs arbitrary: pre rule: slashed.induct)
  case (2 s)
  show ?case using join_loop_Cons[of s "[]" pre "[]"] by simp
next
  case (3 s t rest)
  let ?more = "slashed (t # rest)"
  have "(pre @ s @ replicate (Suc (length ?more)) 0)[length (pre @ s) := 0x2F] =
      (pre @ s @ [0x2F]) @ replicate (length ?more) (0 :: 8 word)"
    by (simp add: list_update_append)
  moreover have "replicate (length (slashed (s # t # rest))) 0 =
      replicate (length s) (0 :: 8 word) @ replicate (Suc (length ?more)) 0"
    by (simp add: replicate_add[symmetric] del: replicate_Suc)
  ultimately show ?case
    using join_loop_Cons[of s "t # rest" pre "replicate (Suc (length ?more)) 0"] "3.IH"[of "pre @ s @ [0x2F]"] by simp
qed simp

lemma enc_dot: "enc_encode (js ''.'') = [0x2E]"
  by (simp add: enc_encode_def utf8_encode_def utf8_cp_def js_def is_high_def is_low_def)

lemma joinSegments_path: "joinSegments segs = Some (path_of segs)"
  using join_loop_fills[of segs "[]"] length_slashed[of segs]
  by (cases "segs = []") (simp_all add: joinSegments_def path_of_def total_length enc_dot del: js_simps)

text \<open>A name as a server lists it: not empty, no slash, not the dot entry.\<close>

definition file_name :: "bytes \<Rightarrow> bool" where
  "file_name s \<longleftrightarrow> s \<noteq> [] \<and> 0x2F \<notin> set s \<and> s \<noteq> [0x2E]"

fun unslash :: "bytes \<Rightarrow> bytes list" where
  "unslash [] = [[]]"
| "unslash (b # bs) = (if b = 0x2F then [] # unslash bs
     else (case unslash bs of [] \<Rightarrow> [[b]] | s # ss \<Rightarrow> (b # s) # ss))"

lemma unslash_plain: "0x2F \<notin> set s \<Longrightarrow> unslash s = [s]"
  by (induction s) auto

lemma unslash_append: "0x2F \<notin> set s \<Longrightarrow> unslash (s @ 0x2F # t) = s # unslash t"
  by (induction s) auto

lemma unslash_slashed: "segs \<noteq> [] \<Longrightarrow> \<forall>s \<in> set segs. 0x2F \<notin> set s \<Longrightarrow> unslash (slashed segs) = segs"
  by (induction segs rule: slashed.induct) (simp_all add: unslash_plain unslash_append)

lemma path_of_inj:
  assumes "\<forall>s \<in> set a. file_name s" and "\<forall>s \<in> set b. file_name s" and "path_of a = path_of b"
  shows "a = b"
proof -
  have dot: "slashed c \<noteq> [0x2E]" if "c \<noteq> []" "\<forall>s \<in> set c. file_name s" for c
  proof
    assume "slashed c = [0x2E]"
    then have "unslash (slashed c) = [[0x2E]]" by simp
    with that show False by (auto simp: unslash_slashed file_name_def)
  qed
  show ?thesis
  proof (cases "a = [] \<or> b = []")
    case True
    then show ?thesis using assms dot[of a] dot[of b] by (fastforce simp: path_of_def split: if_splits)
  next
    case False
    then have "unslash (slashed a) = unslash (slashed b)" using assms by (simp add: path_of_def)
    then show ?thesis using False assms(1,2) by (simp add: unslash_slashed file_name_def)
  qed
qed

text \<open>The byte paths are exact. Joining never overruns its array and gives the names with slashes
  between them; and for names as a server lists them the loop comparing two directories segment by
  segment agrees with comparing the paths sent for them, so an upload refreshes exactly its own
  directory.\<close>

theorem segsEqual_same_path:
  assumes "\<forall>s \<in> set a. file_name s" and "\<forall>s \<in> set b. file_name s"
  shows "joinSegments a = Some (path_of a) \<and> (segsEqual a b \<longleftrightarrow> joinSegments a = joinSegments b) \<and>
    (a \<noteq> [] \<longrightarrow> unslash (path_of a) = a)"
proof (intro conjI)
  show "joinSegments a = Some (path_of a)" by (rule joinSegments_path)
  show "segsEqual a b \<longleftrightarrow> joinSegments a = joinSegments b"
    using path_of_inj[OF assms] by (auto simp only: joinSegments_path segsEqual_eq option.inject)
  show "a \<noteq> [] \<longrightarrow> unslash (path_of a) = a"
    using assms(1) unslash_slashed[of a] by (simp add: path_of_def file_name_def)
qed

lemma segsEqual_same_path_witness:
  "joinSegments [[0x61], [0x2E, 0x62]] = Some [0x61, 0x2F, 0x2E, 0x62] \<and>
   \<not> segsEqual [[0x61], [0x2E, 0x62]] [[0x61]] \<and> unslash [0x61, 0x2F, 0x2E, 0x62] = [[0x61], [0x2E, 0x62]]"
proof -
  have "\<forall>s \<in> set [[0x61], [0x2E, 0x62]]. file_name s" "\<forall>s \<in> set [[0x61 :: 8 word]]. file_name s"
    by (auto simp: file_name_def)
  from segsEqual_same_path[OF this] show ?thesis by (simp add: path_of_def segsEqual_eq)
qed

subsection \<open>The name a browser saves under\<close>

definition predictSavedName :: "jstr \<Rightarrow> jstr" where
  "predictSavedName name = (let stripped = dropWhile (\<lambda>c. c = 46) name in if stripped = [] then name else stripped)"

lemma predictSavedName_eq: "predictSavedName name = name \<longleftrightarrow> name = [] \<or> hd name \<noteq> 46 \<or> (\<forall>c \<in> set name. c = 46)"
proof (cases "\<forall>c \<in> set name. c = 46")
  case False
  then have ne: "dropWhile (\<lambda>c. c = 46) name \<noteq> []" by (simp add: dropWhile_eq_Nil_conv)
  then have "hd name \<noteq> 46 \<longleftrightarrow> dropWhile (\<lambda>c. c = 46) name = name"
  proof (cases name)
    case (Cons c cs)
    have "length (dropWhile (\<lambda>c. c = 46) cs) \<le> length cs" by (rule length_dropWhile_le)
    then have "dropWhile (\<lambda>c. c = 46) cs \<noteq> 46 # cs" by (auto dest: arg_cong[where f = length])
    then show ?thesis by (simp add: Cons)
  qed simp
  with ne False show ?thesis by (auto simp: predictSavedName_def Let_def)
qed (simp add: predictSavedName_def Let_def)

subsection \<open>Sizes\<close>

text \<open>\<open>x.toFixed(digits)\<close> of the non-negative number \<open>num / den\<close>: the nearest decimal, the larger one of two.\<close>

definition fixed_digits :: "nat \<Rightarrow> nat \<Rightarrow> nat \<Rightarrow> nat" where
  "fixed_digits digits num den = (2 * num * 10 ^ digits + den) div (2 * den)"

definition toFixed :: "nat \<Rightarrow> nat \<Rightarrow> nat \<Rightarrow> jstr" where
  "toFixed digits num den =
     (let n = fixed_digits digits num den in
      if digits = 0 then show_nat n
      else show_nat (n div 10 ^ digits) @ js ''.'' @
        (let r = show_nat (n mod 10 ^ digits) in replicate (digits - length r) 48 @ r))"

definition units :: "jstr list" where
  "units = map js [''KiB'', ''MiB'', ''GiB'', ''TiB'']"

text \<open>The do-while loop of \<open>fmtBytes\<close>: the number is \<open>n / den\<close>, and dividing by 1024 is exact in a double.\<close>

function fmt_loop :: "nat \<Rightarrow> nat \<Rightarrow> nat \<Rightarrow> nat \<times> nat" where
  "fmt_loop n den u =
     (if n \<ge> 1024 * den \<and> u < length units - 1 then fmt_loop n (den * 1024) (u + 1) else (den, u))"
  by pat_completeness auto
termination by (relation "measure (\<lambda>(n, den, u). length units - u)") auto

declare fmt_loop.simps [simp del]

text \<open>\<open>Number(n)\<close> of a bigint: a double has 53 bits, so above \<open>2 ^ 53\<close> it is the nearest multiple of a power of
  two, the even one of two. \<open>excess\<close> is how many bits are too many.\<close>

fun excess :: "nat \<Rightarrow> nat" where
  "excess n = (if n < 2 ^ 53 then 0 else Suc (excess (n div 2)))"

declare excess.simps [simp del]

definition to_number :: "nat \<Rightarrow> nat" where
  "to_number n =
     (let step = 2 ^ excess n; q = n div step; r = n mod step in
      (if 2 * r < step \<or> 2 * r = step \<and> even q then q else q + 1) * step)"

definition fmtBytes :: "nat option \<Rightarrow> jstr" where
  "fmtBytes bytes =
     (case bytes of
        None \<Rightarrow> js ''?''
      | Some sz \<Rightarrow>
         (let n = to_number sz in
          if n < 1024 then show_nat n @ js '' B''
          else (case fmt_loop n 1024 0 of
                  (den, u) \<Rightarrow> toFixed (if n < 10 * den then 1 else 0) n den @ js '' '' @ units ! u)))"

lemma to_number_exact [simp]: "n < 2 ^ 53 \<Longrightarrow> to_number n = n"
  by (simp add: to_number_def excess.simps[of n])

lemma excess_le: "2 ^ 53 \<le> n \<Longrightarrow> 2 ^ 52 * 2 ^ excess n \<le> n"
proof (induction n rule: excess.induct)
  case (1 n)
  have e: "excess n = Suc (excess (n div 2))" using "1.prems" by (simp add: excess.simps[of n])
  show ?case
  proof (cases "n div 2 < 2 ^ 53")
    case True
    then have "excess (n div 2) = 0" by (simp add: excess.simps[of "n div 2"])
    then show ?thesis using "1.prems" e by simp
  next
    case False
    then have "2 ^ 52 * 2 ^ excess (n div 2) \<le> n div 2" using 1 by simp
    then have "2 ^ 52 * 2 ^ excess (n div 2) * 2 \<le> n" by linarith
    then show ?thesis by (simp only: e power_Suc ac_simps)
  qed
qed

text \<open>The conversion is off by at most one part in \<open>2 ^ 53\<close>.\<close>

lemma to_number_near: "2 ^ 53 * (to_number n - n) \<le> n" "2 ^ 53 * (n - to_number n) \<le> n"
proof -
  define s where "s = (2::nat) ^ excess n"
  define q where "q = n div s"
  define r where "r = n mod s"
  have n: "n = q * s + r" "r < s" by (simp_all only: q_def r_def s_def div_mult_mod_eq, simp)
  have m: "to_number n = (if 2 * r < s \<or> 2 * r = s \<and> even q then q * s else q * s + s)"
    by (simp add: to_number_def Let_def s_def q_def r_def)
  have near: "2 * (to_number n - n) \<le> s" "2 * (n - to_number n) \<le> s"
    unfolding m using n by (simp_all split: if_split) arith+
  have "2 ^ 53 * (to_number n - n) \<le> n \<and> 2 ^ 53 * (n - to_number n) \<le> n"
  proof (cases "n < 2 ^ 53")
    case False
    then have "2 ^ 52 * s \<le> n" using excess_le[of n] by (simp add: s_def)
    moreover from near have "2 ^ 52 * (2 * (to_number n - n)) \<le> 2 ^ 52 * s" "2 ^ 52 * (2 * (n - to_number n)) \<le> 2 ^ 52 * s"
      by simp_all
    ultimately show ?thesis by simp
  qed simp
  then show "2 ^ 53 * (to_number n - n) \<le> n" "2 ^ 53 * (n - to_number n) \<le> n" by blast+
qed

lemma to_number_ge: "1024 \<le> n \<Longrightarrow> 1024 \<le> to_number n"
proof (cases "n < 2 ^ 53")
  case False
  then have "9007199254740992 \<le> n" "9007199254740992 * (n - to_number n) \<le> n" using to_number_near(2)[of n] by simp_all
  then show ?thesis by arith
qed simp

text \<open>The bytes of each unit.\<close>

definition unit_bytes :: "nat \<Rightarrow> nat" where
  "unit_bytes u = 1024 ^ Suc u"

lemma unit_bytes_simps [simp]: "unit_bytes 0 = 1024" "unit_bytes (Suc u) = unit_bytes u * 1024" "0 < unit_bytes u"
  by (simp_all add: unit_bytes_def)

lemma fmt_loop_result:
  assumes "den = unit_bytes u" and "u < 4" and "den \<le> n" and "fmt_loop n den u = (den', u')"
  shows "den' = unit_bytes u' \<and> u' < 4 \<and> den' \<le> n \<and> (u' < 3 \<longrightarrow> n < 1024 * den')"
  using assms
proof (induction n den u rule: fmt_loop.induct)
  case (1 n den u)
  have u3: "length units = 4" by (simp add: units_def)
  show ?case
  proof (cases "n \<ge> 1024 * den \<and> u < 3")
    case True
    with 1(5) have "fmt_loop n (den * 1024) (u + 1) = (den', u')" by (simp add: fmt_loop.simps[of n den u] u3)
    moreover have "den * 1024 = unit_bytes (u + 1)" "u + 1 < 4" "den * 1024 \<le> n" using True 1(2) by simp_all
    moreover have "n \<ge> 1024 * den \<and> u < length units - 1" using True u3 by simp
    ultimately show ?thesis using "1.IH" by blast
  next
    case False
    with 1(5) u3 have "den' = den" "u' = u" by (auto simp: fmt_loop.simps[of n den u] split: if_splits)
    with 1(2-4) False show ?thesis by auto
  qed
qed

text \<open>The printed figure is the nearest one: within half a unit of its last digit.\<close>

lemma fixed_near:
  assumes "0 < den"
  shows "2 * fixed_digits d num den * den \<le> 2 * num * 10 ^ d + den"
    "2 * num * 10 ^ d < 2 * fixed_digits d num den * den + den"
proof -
  let ?x = "2 * num * 10 ^ d + den"
  have "?x div (2 * den) * (2 * den) \<le> ?x" by (rule div_times_less_eq_dividend)
  then show "2 * fixed_digits d num den * den \<le> ?x" by (simp add: fixed_digits_def ac_simps)
  have "?x < ?x div (2 * den) * (2 * den) + 2 * den"
    using assms by (metis mod_less_divisor div_mult_mod_eq nat_add_left_cancel_less mult_pos_pos zero_less_numeral)
  then show "2 * num * 10 ^ d < 2 * fixed_digits d num den * den + den" by (simp add: fixed_digits_def ac_simps)
qed

text \<open>C37: A size as shown is right to half of its last digit. From a kibibyte up the figure is in the
  largest unit not above the size as a number (tebibytes at most), with one decimal below ten units; it is the
  nearest such decimal, and below tebibytes it never shows more than 1024. The size as a number is the size itself
  below \<open>2 ^ 53\<close> bytes, and within one part in \<open>2 ^ 53\<close> of it above.\<close>

theorem fmtBytes_near:
  assumes "1024 \<le> sz"
  shows "\<exists>u < 4. let n = to_number sz; den = unit_bytes u; d = (if n < 10 * den then 1 else 0); q = fixed_digits d n den in
    fmtBytes (Some sz) = toFixed d n den @ js '' '' @ units ! u \<and> den \<le> n \<and> (u < 3 \<longrightarrow> n < 1024 * den) \<and>
    2 * q * den \<le> 2 * n * 10 ^ d + den \<and> 2 * n * 10 ^ d < 2 * q * den + den \<and>
    (if d = 1 then q \<le> 100 else u < 3 \<longrightarrow> q \<le> 1024) \<and>
    (sz < 2 ^ 53 \<longrightarrow> n = sz) \<and> 2 ^ 53 * (n - sz) \<le> sz \<and> 2 ^ 53 * (sz - n) \<le> sz"
proof -
  define n where "n = to_number sz"
  have big: "1024 \<le> n" using assms by (simp add: n_def to_number_ge)
  obtain den u where l: "fmt_loop n 1024 0 = (den, u)" by (cases "fmt_loop n 1024 0")
  have r: "den = unit_bytes u" "u < 4" "den \<le> n" "u < 3 \<longrightarrow> n < 1024 * den"
    using fmt_loop_result[OF unit_bytes_simps(1)[symmetric] zero_less_numeral big l] by blast+
  define d :: nat where "d = (if n < 10 * den then 1 else 0)"
  define q where "q = fixed_digits d n den"
  have pos: "0 < den" by (simp add: r)
  have near: "2 * q * den \<le> 2 * n * 10 ^ d + den" "2 * n * 10 ^ d < 2 * q * den + den"
    using fixed_near(1)[OF pos, of d n] fixed_near(2)[OF pos, of n d] by (simp_all add: q_def)
  have "q \<le> k" if "n * 10 ^ d < k * den" for k
  proof (rule ccontr)
    assume "\<not> q \<le> k"
    then have "Suc k * den \<le> q * den" by (intro mult_le_mono1) simp
    with that near(1) show False by simp
  qed
  then have small: "if d = 1 then q \<le> 100 else u < 3 \<longrightarrow> q \<le> 1024" using r(4) by (auto simp: d_def)
  have f: "fmtBytes (Some sz) = toFixed d n den @ js '' '' @ units ! u"
    using big by (simp add: fmtBytes_def n_def[symmetric] l d_def Let_def)
  have num: "sz < 2 ^ 53 \<longrightarrow> n = sz" "2 ^ 53 * (n - sz) \<le> sz" "2 ^ 53 * (sz - n) \<le> sz"
    using to_number_near[of sz] by (simp_all add: n_def)
  have all: "u < 4 \<and> fmtBytes (Some sz) = toFixed d n den @ js '' '' @ units ! u \<and> den \<le> n \<and>
    (u < 3 \<longrightarrow> n < 1024 * den) \<and> 2 * q * den \<le> 2 * n * 10 ^ d + den \<and> 2 * n * 10 ^ d < 2 * q * den + den \<and>
    (if d = 1 then q \<le> 100 else u < 3 \<longrightarrow> q \<le> 1024) \<and>
    (sz < 2 ^ 53 \<longrightarrow> n = sz) \<and> 2 ^ 53 * (n - sz) \<le> sz \<and> 2 ^ 53 * (sz - n) \<le> sz"
    using r(2-4) f near small num by simp
  show ?thesis using all unfolding q_def d_def r(1) n_def Let_def by (rule exI[of _ u])
qed

lemma fmtBytes_near_witness:
  "fmtBytes (Some 1536) = js ''1.5 KiB'' \<and> fmtBytes (Some 1048575) = js ''1024 KiB'' \<and>
   (\<exists>u < 4. unit_bytes u \<le> 1048575 \<and> (u < 3 \<longrightarrow> 1048575 < 1024 * unit_bytes u))"
proof -
  have "\<exists>u < 4. unit_bytes u \<le> 1048575 \<and> (u < 3 \<longrightarrow> 1048575 < 1024 * unit_bytes u)"
    using fmtBytes_near[of 1048575] by (auto simp: Let_def)
  moreover have "fmtBytes (Some 1536) = js ''1.5 KiB''" "fmtBytes (Some 1048575) = js ''1024 KiB''"
    by (simp_all add: fmtBytes_def fmt_loop.simps units_def toFixed_def fixed_digits_def show_nat.simps js_def)
  ultimately show ?thesis by blast
qed

text \<open>Above \<open>2 ^ 53\<close> bytes the conversion can show: this size is nearer to 8192 TiB.\<close>

lemma rounded_before_shown: "fmtBytes (Some (2 ^ 53 + 2 ^ 39 - 1)) = js ''8193 TiB''"
proof -
  have "to_number (2 ^ 53 + 2 ^ 39 - 1) = 2 ^ 53 + 2 ^ 39" by (simp add: to_number_def excess.simps)
  then show ?thesis
    by (simp add: fmtBytes_def Let_def fmt_loop.simps units_def toFixed_def fixed_digits_def show_nat.simps js_def)
qed

end
