(* ===== verification/TransferUi.thy ===== *)
theory TransferUi
  imports TransferFmt Idb
begin

text \<open>
  \<^verbatim>\<open>site/transfer-ui.mjs\<close>: the files panel. Objects the code shares by reference (a row's \<open>t\<close>) are
  addressed by number; the Map of transfers is the specification's list, where a deletion leaves a hole
  so that a running iteration keeps its place; every await is a task that some later event settles, so
  all orders of the browser's answers are runs. Ids come from \<open>randomUUID\<close>, which never repeats one.
\<close>

subsection \<open>Data\<close>

record dir_entry =
  de_name :: bytes
  de_display :: jstr
  de_dir :: bool
  de_size :: "nat option"

datatype direction = Upload | Download

record file_meta =
  fm_name :: jstr
  fm_size :: nat
  fm_modified :: int

record transfer_record =
  r_id :: jstr
  r_direction :: direction
  r_label :: jstr
  r_segments :: "bytes list"
  r_staging :: jstr
  r_total :: "nat option"
  r_overwrite :: bool
  r_meta :: "file_meta option"
  r_bytes :: "nat option"

text \<open>The page's own outcomes, and the two spellings of the component's.\<close>

datatype outcome = OkPlain | ErrPlain jstr | KindOk | KindErr "jstr option" "jstr option"

definition outcomeOk :: "outcome option \<Rightarrow> bool" where
  "outcomeOk r = (case r of Some OkPlain \<Rightarrow> True | Some KindOk \<Rightarrow> True | _ \<Rightarrow> False)"

definition outcomeErrText :: "outcome option \<Rightarrow> jstr option" where
  "outcomeErrText r =
     (case r of
        None \<Rightarrow> None
      | Some (ErrPlain e) \<Rightarrow> Some e
      | Some (KindErr v w) \<Rightarrow> (case v of None \<Rightarrow> w | Some x \<Rightarrow> Some x)
      | Some _ \<Rightarrow> None)"

record progress =
  p_done :: nat
  p_total :: "nat option"
  p_outcome :: "outcome option"

datatype row_kind = Active | Resumable

record entry =
  e_record :: transfer_record
  e_kind :: row_kind
  e_handle :: "nat option"
  e_progress :: "progress option"
  e_seen :: bool
  e_settled :: bool

definition new_entry :: "row_kind \<Rightarrow> transfer_record \<Rightarrow> entry" where
  "new_entry k r = \<lparr>e_record = r, e_kind = k, e_handle = None, e_progress = None, e_seen = False, e_settled = False\<rparr>"

text \<open>The buttons of a row, from \<open>renderTransferRow\<close> and \<open>renderResumableRow\<close>: an empty error text is falsy.\<close>

datatype row_action = Retry | StartOver | CancelIt | ResumeIt | Discard

definition row_actions :: "bool \<Rightarrow> entry \<Rightarrow> row_action list" where
  "row_actions has_session t =
     (if e_kind t = Resumable then (if has_session then [ResumeIt] else []) @ [Discard]
      else (let r = (case e_progress t of None \<Rightarrow> None | Some p \<Rightarrow> p_outcome p) in
            if outcomeErrText r \<noteq> None \<and> outcomeErrText r \<noteq> Some [] then [Retry, StartOver]
            else if \<not> outcomeOk r then [CancelIt] else []))"

subsection \<open>The Map of transfers\<close>

type_synonym tmap = "(jstr \<times> nat) option list"

definition tmap_has :: "jstr \<Rightarrow> tmap \<Rightarrow> bool" where
  "tmap_has i m \<longleftrightarrow> i \<in> fst ` set (List.map_filter id m)"

definition tmap_set :: "jstr \<Rightarrow> nat \<Rightarrow> tmap \<Rightarrow> tmap" where
  "tmap_set i k m =
     (if tmap_has i m then map (\<lambda>x. if map_option fst x = Some i then Some (i, k) else x) m
      else m @ [Some (i, k)])"

definition tmap_delete :: "jstr \<Rightarrow> tmap \<Rightarrow> tmap" where
  "tmap_delete i m = map (\<lambda>x. if map_option fst x = Some i then None else x) m"

subsection \<open>The page\<close>

datatype poll_timer = PNull | PTrue | PTimer

text \<open>A run of \<open>tick\<close>: where its iterator is, \<open>anyActive\<close>, and what it awaits.\<close>

datatype wait = AwaitProgress nat | AwaitClose nat | AwaitBlob nat

record ticker =
  tk_next :: nat
  tk_any :: bool
  tk_wait :: wait

record begin_args =
  b_label :: jstr
  b_path :: bytes
  b_segments :: "bytes list"
  b_total :: "nat option"
  b_staging :: "jstr option"
  b_overwrite :: bool

datatype task =
    UploadPoly file_meta bool
  | BeginPoly begin_args | BeginRemoved begin_args jstr jstr | BeginPut transfer_record bytes
  | Calling nat
  | Listed bool
  | LoadAll | LoadBlob transfer_record "transfer_record list" | LoadHeal transfer_record "transfer_record list"
  | LoadDrop transfer_record "transfer_record list"
  | DiscardDelete transfer_record | DiscardPoly transfer_record | DiscardRemove transfer_record
  | CleanRemove nat | CleanDelete nat

text \<open>What the session was asked.\<close>

datatype session_call =
  ListDir bytes | UploadTo bytes bool | DownloadFrom bytes jstr bool | CancelHandle nat

record tpage =
  session :: bool
  segments :: "bytes list"
  labels :: "jstr list"
  listing :: "dir_entry list"
  objs :: "entry list"
  transfers :: tmap
  pollTimer :: poll_timer
  ticks :: "ticker list"
  timers :: nat
  visible :: bool
  dropdownOpen :: bool
  everHadTransfer :: bool
  panel_shown :: bool
  transfers_db :: "transfer_record idb"
  staged_files :: "jstr \<Rightarrow> nat option"
  minted :: "jstr list"
  tasks :: "task list"
  cleanups :: "nat list"
  pickers :: "(bool \<times> file_meta option) list"
  calls :: "session_call list"
  polled :: "(nat \<times> progress) list"
  handed :: "(nat \<times> jstr \<times> nat) list"

definition obj_upd :: "nat \<Rightarrow> (entry \<Rightarrow> entry) \<Rightarrow> tpage \<Rightarrow> tpage" where
  "obj_upd k f s = s\<lparr>objs := (objs s)[k := f (objs s ! k)]\<rparr>"

definition await :: "task \<Rightarrow> tpage \<Rightarrow> tpage" where
  "await t s = s\<lparr>tasks := tasks s @ [t]\<rparr>"

definition call :: "session_call \<Rightarrow> tpage \<Rightarrow> tpage" where
  "call c s = s\<lparr>calls := calls s @ [c]\<rparr>"

text \<open>\<open>transfers.set(id, entry)\<close> of a new object.\<close>

definition add_entry :: "entry \<Rightarrow> tpage \<Rightarrow> tpage" where
  "add_entry t s =
     s\<lparr>objs := objs s @ [t], transfers := tmap_set (r_id (e_record t)) (length (objs s)) (transfers s),
       everHadTransfer := True\<rparr>"

definition failed_start :: "jstr \<Rightarrow> entry \<Rightarrow> entry" where
  "failed_start e t = t\<lparr>e_progress := Some \<lparr>p_done = 0, p_total = None, p_outcome = Some (ErrPlain e)\<rparr>\<rparr>"

subsection \<open>Polling\<close>

text \<open>The for-of over \<open>transfers.values()\<close>, from a place in the Map's list to the next active object with
  a handle; at the end \<open>tick\<close> stops or schedules itself.\<close>

definition next_handle :: "nat \<Rightarrow> tpage \<Rightarrow> (nat \<times> nat) option" where
  "next_handle k s =
     List.find (\<lambda>(j, n). e_kind (objs s ! n) = Active \<and> e_handle (objs s ! n) \<noteq> None)
       (List.map_filter (\<lambda>j. map_option (\<lambda>x. (j, snd x)) (transfers s ! j)) [k..<length (transfers s)])"

definition tick_on :: "nat \<Rightarrow> bool \<Rightarrow> tpage \<Rightarrow> tpage" where
  "tick_on k anyActive s =
     (case next_handle k s of
        Some (j, n) \<Rightarrow> s\<lparr>ticks := ticks s @ [\<lparr>tk_next = Suc j, tk_any = anyActive, tk_wait = AwaitProgress n\<rparr>]\<rparr>
      | None \<Rightarrow>
         if \<not> anyActive \<and> \<not> visible s then s\<lparr>pollTimer := PNull\<rparr>
         else s\<lparr>pollTimer := PTimer, timers := timers s + 1\<rparr>)"

definition startPolling :: "tpage \<Rightarrow> tpage" where
  "startPolling s = (if pollTimer s \<noteq> PNull then s else tick_on 0 False (s\<lparr>pollTimer := PTrue\<rparr>))"

subsection \<open>Navigation\<close>

text \<open>\<open>refreshListing\<close>; the flag says that the panel is shown afterwards. The answer replaces the listing,
  whatever directory is current by then.\<close>

definition refreshListing :: "bool \<Rightarrow> tpage \<Rightarrow> tpage" where
  "refreshListing opening_panel s =
     (if \<not> session s then s\<lparr>listing := [], panel_shown := panel_shown s \<or> opening_panel\<rparr>
      else (case joinSegments (segments s) of
              None \<Rightarrow> s\<lparr>listing := [], panel_shown := panel_shown s \<or> opening_panel\<rparr>
            | Some path \<Rightarrow> await (Listed opening_panel) (call (ListDir path) s)))"

definition descend :: "dir_entry \<Rightarrow> tpage \<Rightarrow> tpage" where
  "descend e s =
     refreshListing False (s\<lparr>segments := segments s @ [de_name e], labels := labels s @ [de_display e]\<rparr>)"

definition navigateTo :: "nat \<Rightarrow> tpage \<Rightarrow> tpage" where
  "navigateTo depth s =
     refreshListing False (s\<lparr>segments := take depth (segments s), labels := take depth (labels s)\<rparr>)"

definition goUp :: "tpage \<Rightarrow> tpage" where
  "goUp s = (if segments s = [] then s else navigateTo (length (segments s) - 1) s)"

definition toggleDropdown :: "tpage \<Rightarrow> tpage" where
  "toggleDropdown s =
     (if \<not> everHadTransfer s then s
      else (let s1 = s\<lparr>dropdownOpen := \<not> dropdownOpen s, visible := \<not> dropdownOpen s\<rparr>
            in if dropdownOpen s1 then startPolling s1 else s1))"

subsection \<open>Uploads\<close>

definition same_file :: "file_meta \<Rightarrow> file_meta \<Rightarrow> bool" where
  "same_file file m \<longleftrightarrow> fm_name file = fm_name m \<and> fm_size file = fm_size m \<and> fm_modified file = fm_modified m"

definition startUpload :: "file_meta \<Rightarrow> bool \<Rightarrow> file_meta option \<Rightarrow> bool \<Rightarrow> tpage \<Rightarrow> tpage" where
  "startUpload file overwrite expectMeta proceed s =
     (if \<not> session s then s
      else if (case expectMeta of None \<Rightarrow> False | Some m \<Rightarrow> \<not> same_file file m) \<and> \<not> proceed then s
      else await (UploadPoly file overwrite) s)"

text \<open>After \<open>poly()\<close>: the destination is the directory shown by then; a session gone by then is a
  TypeError in the try block.\<close>

definition startUpload_rest :: "file_meta \<Rightarrow> bool \<Rightarrow> jstr \<Rightarrow> tpage \<Rightarrow> tpage" where
  "startUpload_rest file overwrite i s =
     (case joinSegments (segments s @ [enc_encode (fm_name file)]) of
        None \<Rightarrow> s
      | Some remotePath \<Rightarrow>
         (let r = \<lparr>r_id = i, r_direction = Upload, r_label = fm_name file,
                   r_segments = segments s @ [enc_encode (fm_name file)], r_staging = [], r_total = None,
                   r_overwrite = overwrite, r_meta = Some file, r_bytes = None\<rparr>;
              s1 = add_entry (new_entry Active r) s
          in if session s1 then await (Calling (length (objs s))) (call (UploadTo remotePath overwrite) s1)
             else obj_upd (length (objs s)) (failed_start (js ''TypeError'')) s1))"

subsection \<open>Downloads\<close>

definition beginDownload :: "begin_args \<Rightarrow> tpage \<Rightarrow> tpage" where
  "beginDownload a s = (if \<not> session s then s else await (BeginPoly a) s)"

definition begin_put :: "begin_args \<Rightarrow> jstr \<Rightarrow> jstr \<Rightarrow> tpage \<Rightarrow> tpage" where
  "begin_put a i sid s =
     await (BeginPut \<lparr>r_id = i, r_direction = Download, r_label = b_label a, r_segments = b_segments a,
       r_staging = sid, r_total = b_total a, r_overwrite = b_overwrite a, r_meta = None, r_bytes = None\<rparr> (b_path a)) s"

definition beginDownload_ids :: "begin_args \<Rightarrow> jstr \<Rightarrow> jstr \<Rightarrow> tpage \<Rightarrow> tpage" where
  "beginDownload_ids a i fresh s =
     (let sid = (case b_staging a of None \<Rightarrow> fresh | Some x \<Rightarrow> x) in
      if b_overwrite a then await (BeginRemoved a i sid) s else begin_put a i sid s)"

text \<open>The record is in the database: list the transfer, open the sink and ask the session.\<close>

definition beginDownload_stored :: "transfer_record \<Rightarrow> bytes \<Rightarrow> tpage \<Rightarrow> tpage" where
  "beginDownload_stored r remotePath s =
     (let s1 = add_entry (new_entry Active r) (s\<lparr>transfers_db := idb_put (r_id r) r (transfers_db s)\<rparr>) in
      if session s1
      then await (Calling (length (objs s))) (call (DownloadFrom remotePath (r_staging r) (r_overwrite r)) s1)
      else obj_upd (length (objs s)) (failed_start (js ''TypeError'')) s1)"

definition confirmDownload :: "dir_entry \<Rightarrow> bool \<Rightarrow> tpage \<Rightarrow> tpage" where
  "confirmDownload e ok s =
     (case joinSegments (segments s @ [de_name e]) of
        None \<Rightarrow> s
      | Some remotePath \<Rightarrow>
         if \<not> ok then s
         else beginDownload \<lparr>b_label = de_display e, b_path = remotePath, b_segments = segments s @ [de_name e],
                b_total = de_size e, b_staging = None, b_overwrite = False\<rparr> s)"

text \<open>The question asked before a download.\<close>

definition download_question :: "dir_entry \<Rightarrow> jstr" where
  "download_question e =
     (let savedAs = predictSavedName (de_display e);
          sizeNote = (case de_size e of None \<Rightarrow> [] | Some n \<Rightarrow> js '' ('' @ fmtBytes (Some n) @ js '')'')
      in js ''Download '' @ [34] @ de_display e @ [34] @ sizeNote @ js ''?'' @
         (if savedAs = de_display e then []
          else js '' Your browser will likely save it as '' @ [34] @ savedAs @ [34] @ js ''.''))"

text \<open>Beginning again from a record, as \<open>resumeDownload\<close> and \<open>retryTransfer\<close> do.\<close>

definition begin_again :: "transfer_record \<Rightarrow> bool \<Rightarrow> tpage \<Rightarrow> tpage" where
  "begin_again r overwrite s =
     (case joinSegments (r_segments r) of
        None \<Rightarrow> s
      | Some path \<Rightarrow>
         beginDownload \<lparr>b_label = r_label r, b_path = path, b_segments = r_segments r, b_total = r_total r,
           b_staging = Some (r_staging r), b_overwrite = overwrite\<rparr> s)"

definition drop_row :: "transfer_record \<Rightarrow> tpage \<Rightarrow> tpage" where
  "drop_row r s = s\<lparr>transfers := tmap_delete (r_id r) (transfers s)\<rparr>"

definition resumeDownload :: "nat \<Rightarrow> tpage \<Rightarrow> tpage" where
  "resumeDownload n s =
     (let r = e_record (objs s ! n) in
      if \<not> session s then s
      else if joinSegments (r_segments r) = None then s
      else begin_again r False (drop_row r s))"

definition discardResumable :: "nat \<Rightarrow> tpage \<Rightarrow> tpage" where
  "discardResumable n s =
     (let r = e_record (objs s ! n) in await (DiscardDelete r) (drop_row r s))"

definition retryTransfer :: "nat \<Rightarrow> bool \<Rightarrow> tpage \<Rightarrow> tpage" where
  "retryTransfer n overwrite s =
     (let r = e_record (objs s ! n); s1 = drop_row r s in
      if r_direction r = Download then begin_again r overwrite s1
      else s1\<lparr>pickers := pickers s1 @ [(overwrite, r_meta r)]\<rparr>)"

definition cancelTransfer :: "nat \<Rightarrow> tpage \<Rightarrow> tpage" where
  "cancelTransfer n s = (case e_handle (objs s ! n) of None \<Rightarrow> s | Some h \<Rightarrow> call (CancelHandle h) s)"

subsection \<open>The end of a transfer\<close>

text \<open>\<open>finishTransfer\<close> up to its first await: a finished upload refreshes its own directory.\<close>

definition finishTransfer :: "nat \<Rightarrow> tpage \<Rightarrow> tpage" where
  "finishTransfer n s =
     (let r = e_record (objs s ! n) in
      if segsEqual (butlast (r_segments r)) (segments s) then refreshListing False s else s)"

text \<open>One settled poll of object \<open>n\<close>, and how the tick goes on.\<close>

definition on_progress :: "nat \<Rightarrow> nat \<Rightarrow> bool \<Rightarrow> progress \<Rightarrow> tpage \<Rightarrow> tpage" where
  "on_progress next_place n anyActive p s =
     (let s1 = (obj_upd n (\<lambda>t. t\<lparr>e_progress := Some p, e_seen := e_seen t \<or> 0 < p_done p\<rparr>) s)
                 \<lparr>polled := polled s @ [(n, p)]\<rparr>
      in case p_outcome p of
           None \<Rightarrow> tick_on next_place True s1
         | Some r \<Rightarrow>
            if e_settled (objs s1 ! n) then tick_on next_place anyActive s1
            else (let s2 = obj_upd n (\<lambda>t. t\<lparr>e_settled := True\<rparr>) s1 in
                  if \<not> outcomeOk (Some r) then tick_on next_place anyActive s2
                  else if r_direction (e_record (objs s2 ! n)) = Download
                  then s2\<lparr>ticks := ticks s2 @ [\<lparr>tk_next = next_place, tk_any = anyActive, tk_wait = AwaitClose n\<rparr>]\<rparr>
                  else tick_on next_place anyActive (finishTransfer n s2)))"

text \<open>The hand-off of a staged file: the click on the link, and the cleanup thirty seconds later.\<close>

definition hand_over :: "nat \<Rightarrow> tpage \<Rightarrow> tpage" where
  "hand_over n s =
     (let sid = r_staging (e_record (objs s ! n)) in
      case staged_files s sid of
        None \<Rightarrow> s
      | Some len \<Rightarrow> s\<lparr>handed := handed s @ [(n, sid, len)], cleanups := cleanups s @ [n]\<rparr>)"

subsection \<open>Interrupted downloads\<close>

definition load_end :: "tpage \<Rightarrow> tpage" where
  "load_end s = refreshListing True s"

fun load_next :: "transfer_record list \<Rightarrow> tpage \<Rightarrow> tpage" where
  "load_next [] s = load_end s"
| "load_next (r # rest) s =
     (if r_direction r \<noteq> Download \<or> tmap_has (r_id r) (transfers s) then load_next rest s
      else await (LoadBlob r rest) s)"

definition load_offer :: "transfer_record \<Rightarrow> nat \<Rightarrow> transfer_record list \<Rightarrow> tpage \<Rightarrow> tpage" where
  "load_offer r len rest s =
     (if (case r_total r of None \<Rightarrow> False | Some n \<Rightarrow> n \<le> len) then await (LoadHeal r rest) s
      else load_next rest (add_entry (new_entry Resumable (r\<lparr>r_bytes := Some len\<rparr>)) s))"

definition unstage :: "jstr \<Rightarrow> tpage \<Rightarrow> tpage" where
  "unstage sid s = s\<lparr>staged_files := (staged_files s)(sid := None)\<rparr>"

definition idbDelete :: "jstr \<Rightarrow> tpage \<Rightarrow> tpage" where
  "idbDelete i s = s\<lparr>transfers_db := idb_del i (transfers_db s)\<rparr>"

subsection \<open>The browser's answers\<close>

datatype answer = Done | Broke jstr | Unread | Ids jstr jstr | Handle nat | Rows "dir_entry list" | Report progress

text \<open>Which answers a task can get; ids are new ones.\<close>

fun possible :: "task \<Rightarrow> answer \<Rightarrow> tpage \<Rightarrow> bool" where
  "possible (UploadPoly f ov) b s = (case b of Ids i j \<Rightarrow> i \<notin> set (minted s) | Broke e \<Rightarrow> True | _ \<Rightarrow> False)"
| "possible (BeginPoly a) b s =
     (case b of Ids i j \<Rightarrow> i \<notin> set (minted s) \<and> j \<notin> set (minted s) \<and> i \<noteq> j | Broke e \<Rightarrow> True | _ \<Rightarrow> False)"
| "possible (Calling n) b s = (case b of Handle h \<Rightarrow> True | Broke e \<Rightarrow> True | _ \<Rightarrow> False)"
| "possible (Listed f) b s = (case b of Rows rs \<Rightarrow> True | Broke e \<Rightarrow> True | _ \<Rightarrow> False)"
| "possible LoadAll b s = (case b of Done \<Rightarrow> True | Unread \<Rightarrow> True | Broke e \<Rightarrow> True | _ \<Rightarrow> False)"
| "possible t b s = (case b of Done \<Rightarrow> True | Broke e \<Rightarrow> True | _ \<Rightarrow> False)"

fun task_step :: "task \<Rightarrow> answer \<Rightarrow> tpage \<Rightarrow> tpage" where
  "task_step (UploadPoly f ov) b s =
     (case b of Ids i j \<Rightarrow> startUpload_rest f ov i (s\<lparr>minted := i # minted s\<rparr>) | _ \<Rightarrow> s)"
| "task_step (BeginPoly a) b s =
     (case b of Ids i j \<Rightarrow> beginDownload_ids a i j (s\<lparr>minted := i # j # minted s\<rparr>) | _ \<Rightarrow> s)"
| "task_step (BeginRemoved a i sid) b s = begin_put a i sid (if b = Done then unstage sid s else s)"
| "task_step (BeginPut r path) b s = (if b = Done then beginDownload_stored r path s else s)"
| "task_step (Calling n) b s =
     (case b of
        Handle h \<Rightarrow> startPolling (obj_upd n (\<lambda>t. t\<lparr>e_handle := Some h\<rparr>) s)
      | Broke e \<Rightarrow> obj_upd n (failed_start e) s
      | _ \<Rightarrow> s)"
| "task_step (Listed opening_panel) b s =
     s\<lparr>listing := (case b of Rows rs \<Rightarrow> rs | _ \<Rightarrow> []), panel_shown := panel_shown s \<or> opening_panel\<rparr>"
| "task_step LoadAll b s =
     (case b of Done \<Rightarrow> load_next (map snd (transfers_db s)) s | Unread \<Rightarrow> load_next [] s | _ \<Rightarrow> s)"
| "task_step (LoadBlob r rest) b s =
     (case (if b = Done then staged_files s (r_staging r) else None) of
        None \<Rightarrow> await (LoadDrop r rest) s
      | Some len \<Rightarrow> load_offer r len rest s)"
| "task_step (LoadHeal r rest) b s = await (LoadDrop r rest) (if b = Done then unstage (r_staging r) s else s)"
| "task_step (LoadDrop r rest) b s = (if b = Done then load_next rest (idbDelete (r_id r) s) else s)"
| "task_step (DiscardDelete r) b s = (if b = Done then await (DiscardPoly r) (idbDelete (r_id r) s) else s)"
| "task_step (DiscardPoly r) b s = (if b = Done then await (DiscardRemove r) s else s)"
| "task_step (DiscardRemove r) b s = (if b = Done then unstage (r_staging r) s else s)"
| "task_step (CleanRemove n) b s =
     await (CleanDelete n) (if b = Done then unstage (r_staging (e_record (objs s ! n))) s else s)"
| "task_step (CleanDelete n) b s = (if b = Done then idbDelete (r_id (e_record (objs s ! n))) s else s)"

definition tick_step :: "ticker \<Rightarrow> answer \<Rightarrow> tpage \<Rightarrow> tpage" where
  "tick_step k b s =
     (case tk_wait k of
        AwaitProgress n \<Rightarrow>
          (case b of Report p \<Rightarrow> on_progress (tk_next k) n (tk_any k) p s | _ \<Rightarrow> tick_on (tk_next k) (tk_any k) s)
      | AwaitClose n \<Rightarrow>
          if b = Done then s\<lparr>ticks := ticks s @ [k\<lparr>tk_wait := AwaitBlob n\<rparr>]\<rparr> else tick_on (tk_next k) (tk_any k) s
      | AwaitBlob n \<Rightarrow> tick_on (tk_next k) (tk_any k) (if b = Done then hand_over n s else s))"

subsection \<open>Events\<close>

datatype ui_event =
    OpenPanel bool | ClosePanel | PressOutside | Toggle | Refresh
  | TapDir dir_entry | TapFile dir_entry bool | TapCrumb nat | TapUp
  | PickButton | Picked nat file_meta bool | Dropped file_meta
  | Tap nat row_action
  | Settles nat answer | TickSettles nat answer | TickTimer | CleanupTimer nat
  | SinkWrites jstr nat

definition open_panel :: "bool \<Rightarrow> tpage \<Rightarrow> tpage" where
  "open_panel ready s =
     await LoadAll (startPolling (s\<lparr>session := ready, segments := [], labels := [], dropdownOpen := False\<rparr>))"

definition tap_row :: "nat \<Rightarrow> row_action \<Rightarrow> tpage \<Rightarrow> tpage" where
  "tap_row n a s =
     (case a of
        Retry \<Rightarrow> retryTransfer n False s
      | StartOver \<Rightarrow> retryTransfer n True s
      | CancelIt \<Rightarrow> cancelTransfer n s
      | ResumeIt \<Rightarrow> resumeDownload n s
      | Discard \<Rightarrow> discardResumable n s)"

definition without :: "nat \<Rightarrow> 'a list \<Rightarrow> 'a list" where
  "without k xs = take k xs @ drop (Suc k) xs"

fun ui_step :: "ui_event \<Rightarrow> tpage \<Rightarrow> tpage" where
  "ui_step (OpenPanel ready) s = open_panel ready s"
| "ui_step ClosePanel s = s\<lparr>panel_shown := False, visible := False, dropdownOpen := False\<rparr>"
| "ui_step PressOutside s = (if dropdownOpen s then s\<lparr>dropdownOpen := False, visible := False\<rparr> else s)"
| "ui_step Toggle s = toggleDropdown s"
| "ui_step Refresh s = refreshListing False s"
| "ui_step (TapDir e) s = (if e \<in> set (listing s) \<and> de_dir e then descend e s else s)"
| "ui_step (TapFile e ok) s = (if e \<in> set (listing s) \<and> \<not> de_dir e then confirmDownload e ok s else s)"
| "ui_step (TapCrumb depth) s = navigateTo depth s"
| "ui_step TapUp s = goUp s"
| "ui_step PickButton s = s\<lparr>pickers := pickers s @ [(False, None)]\<rparr>"
| "ui_step (Picked k f proceed) s =
     (if k < length (pickers s)
      then startUpload f (fst (pickers s ! k)) (snd (pickers s ! k)) proceed (s\<lparr>pickers := without k (pickers s)\<rparr>)
      else s)"
| "ui_step (Dropped f) s = startUpload f False None True s"
| "ui_step (Tap n a) s =
     (if n < length (objs s) \<and> a \<in> set (row_actions (session s) (objs s ! n)) then tap_row n a s else s)"
| "ui_step (Settles k b) s =
     (if k < length (tasks s) \<and> possible (tasks s ! k) b s
      then task_step (tasks s ! k) b (s\<lparr>tasks := without k (tasks s)\<rparr>) else s)"
| "ui_step (TickSettles k b) s =
     (if k < length (ticks s) then tick_step (ticks s ! k) b (s\<lparr>ticks := without k (ticks s)\<rparr>) else s)"
| "ui_step TickTimer s = (if 0 < timers s then tick_on 0 False (s\<lparr>timers := timers s - 1\<rparr>) else s)"
| "ui_step (CleanupTimer k) s =
     (if k < length (cleanups s) then await (CleanRemove (cleanups s ! k)) (s\<lparr>cleanups := without k (cleanups s)\<rparr>)
      else s)"
| "ui_step (SinkWrites sid n) s = s\<lparr>staged_files := (staged_files s)(sid \<mapsto> n)\<rparr>"

definition fresh_page :: "transfer_record idb \<Rightarrow> (jstr \<Rightarrow> nat option) \<Rightarrow> jstr list \<Rightarrow> tpage" where
  "fresh_page db files ids =
     \<lparr>session = False, segments = [], labels = [], listing = [], objs = [], transfers = [], pollTimer = PNull,
      ticks = [], timers = 0, visible = False, dropdownOpen = False, everHadTransfer = False, panel_shown = False,
      transfers_db = db, staged_files = files, minted = map fst db @ ids, tasks = [], cleanups = [], pickers = [],
      calls = [], polled = [], handed = []\<rparr>"

definition ui_run :: "ui_event list \<Rightarrow> tpage \<Rightarrow> tpage" where
  "ui_run es s = foldl (\<lambda>s e. ui_step e s) s es"

end
