(* ===== verification/TransferRuns.thy ===== *)
theory TransferRuns
  imports TransferUi
begin

text \<open>
  What holds on every run of the files panel of TransferUi: there is one polling loop, and each finished
  download is handed to the browser once.
\<close>

subsection \<open>The Map\<close>

definition live :: "tmap \<Rightarrow> (jstr \<times> nat) set" where
  "live m = set (List.map_filter id m)"

lemma in_live: "x \<in> live m \<longleftrightarrow> Some x \<in> set m"
  by (force simp: live_def List.map_filter_def)

lemma tmap_has_live: "tmap_has i m \<longleftrightarrow> (\<exists>n. (i, n) \<in> live m)"
  by (force simp: tmap_has_def live_def)

lemma live_delete: "live (tmap_delete i m) = {x \<in> live m. fst x \<noteq> i}"
  by (force simp: in_live tmap_delete_def split: if_splits)

lemma live_set: "live (tmap_set i n m) = {x \<in> live m. fst x \<noteq> i} \<union> {(i, n)}"
proof (cases "tmap_has i m")
  case True
  then obtain k where "Some (i, k) \<in> set m" by (auto simp: tmap_has_live in_live)
  moreover from True have "tmap_set i n m = map (\<lambda>x. if map_option fst x = Some i then Some (i, n) else x) m"
    by (simp add: tmap_set_def)
  ultimately show ?thesis by (force simp: in_live split: if_splits)
next
  case False
  then have "\<forall>x \<in> live m. fst x \<noteq> i" by (auto simp: tmap_has_live)
  moreover from False have "tmap_set i n m = m @ [Some (i, n)]" by (simp add: tmap_set_def)
  ultimately show ?thesis by (auto simp: in_live)
qed

lemma next_handleD:
  assumes "next_handle k s = Some (j, n)"
  shows "\<exists>i. (i, n) \<in> live (transfers s) \<and> e_kind (objs s ! n) = Active"
proof -
  let ?f = "\<lambda>j. map_option (\<lambda>x. (j, snd x)) (transfers s ! j)"
  have f: "(j, n) \<in> set (List.map_filter ?f [k..<length (transfers s)])" "e_kind (objs s ! n) = Active"
    using find_SomeD[OF assms[unfolded next_handle_def]] by auto
  obtain j' where j': "j' < length (transfers s)" "?f j' = Some (j, n)"
    using f(1) by (auto simp: List.map_filter_def)
  then obtain i where "transfers s ! j' = Some (i, n)" by auto
  then show ?thesis using nth_mem[OF j'(1)] f(2) by (auto simp: in_live)
qed

lemma in_without: "x \<in> set (without k xs) \<Longrightarrow> x \<in> set xs"
  by (auto simp: without_def dest: in_set_takeD in_set_dropD)

lemma without_nth: "k < length xs \<Longrightarrow> xs = take k xs @ xs ! k # drop (Suc k) xs"
  by (rule id_take_nth_drop)

lemma length_without [simp]: "k < length xs \<Longrightarrow> length (without k xs) = length xs - 1"
  by (simp add: without_def)

subsection \<open>One loop\<close>

definition poll_of :: "tpage \<Rightarrow> poll_timer \<times> ticker list \<times> nat" where
  "poll_of s = (pollTimer s, ticks s, timers s)"

definition poll_ok :: "tpage \<Rightarrow> bool" where
  "poll_ok s \<longleftrightarrow> (pollTimer s = PNull \<longleftrightarrow> ticks s = [] \<and> timers s = 0) \<and> length (ticks s) + timers s \<le> 1"

lemma poll_ok_same: "poll_of t = poll_of s \<Longrightarrow> poll_ok t = poll_ok s"
  by (simp add: poll_ok_def poll_of_def)

lemma poll_ok_tick_on: "ticks s = [] \<Longrightarrow> timers s = 0 \<Longrightarrow> pollTimer s \<noteq> PNull \<Longrightarrow> poll_ok (tick_on k a s)"
  by (simp add: poll_ok_def tick_on_def split: option.splits)

lemma poll_ok_startPolling: "poll_ok s \<Longrightarrow> poll_ok (startPolling s)"
  using poll_ok_tick_on[of "s\<lparr>pollTimer := PTrue\<rparr>"]
  by (cases "pollTimer s = PNull") (auto simp: startPolling_def poll_ok_def)

text \<open>What most operations leave alone: the objects, the Map, the database, the logs, and the tasks that
  will change any of them.\<close>

fun relevant :: "task \<Rightarrow> bool" where
  "relevant (UploadPoly f b) = False"
| "relevant (BeginPoly a) = False"
| "relevant (Calling n) = False"
| "relevant (Listed b) = False"
| "relevant LoadAll = False"
| "relevant (DiscardPoly r) = False"
| "relevant (DiscardRemove r) = False"
| "relevant t = True"

definition core_tasks :: "tpage \<Rightarrow> task list" where
  "core_tasks s = filter relevant (tasks s)"

definition frame :: "tpage \<Rightarrow> tpage \<Rightarrow> bool" where
  "frame s t \<longleftrightarrow> objs t = objs s \<and> transfers t = transfers s \<and> transfers_db t = transfers_db s \<and>
     polled t = polled s \<and> handed t = handed s \<and> cleanups t = cleanups s \<and> minted t = minted s \<and>
     core_tasks t = core_tasks s"

definition quiet :: "tpage \<Rightarrow> tpage \<Rightarrow> bool" where
  "quiet s t \<longleftrightarrow> frame s t \<and> poll_of t = poll_of s"

lemma core_tasks_await [simp]: "core_tasks (await t s) = core_tasks s @ (if relevant t then [t] else [])"
  by (simp add: core_tasks_def await_def)

lemma frame_refl [simp]: "frame s s" "quiet s s"
  by (simp_all add: frame_def quiet_def)

lemma quiet_trans [trans]: "quiet s t \<Longrightarrow> quiet t u \<Longrightarrow> quiet s u"
  by (simp add: quiet_def frame_def)

lemma frame_trans [trans]: "frame s t \<Longrightarrow> frame t u \<Longrightarrow> frame s u"
  by (simp add: frame_def)

lemma quiet_await: "\<not> relevant t \<Longrightarrow> quiet s (await t s)"
  by (simp add: quiet_def frame_def poll_of_def) (simp add: await_def)

lemma quiet_call: "quiet s (call c s)"
  by (simp add: quiet_def frame_def poll_of_def call_def core_tasks_def)

lemma quiet_unstage: "quiet s (unstage i s)"
  by (simp add: quiet_def frame_def poll_of_def unstage_def core_tasks_def)

lemma quiet_fields:
  "quiet s (s\<lparr>listing := l, panel_shown := b\<rparr>)" "quiet s (s\<lparr>segments := g, labels := n\<rparr>)"
  "quiet s (s\<lparr>dropdownOpen := b1, visible := b2\<rparr>)" "quiet s (s\<lparr>panel_shown := b1, visible := b2, dropdownOpen := b3\<rparr>)"
  "quiet s (s\<lparr>pickers := ps\<rparr>)" "quiet s (s\<lparr>staged_files := fs\<rparr>)"
  "quiet s (s\<lparr>session := b, segments := g, labels := n, dropdownOpen := b1\<rparr>)"
  by (simp_all add: quiet_def frame_def poll_of_def core_tasks_def)

lemma quiet_refreshListing: "quiet s (refreshListing b s)"
proof -
  have "quiet s (await (Listed b) (call (ListDir p) s))" for p
    by (rule quiet_trans[OF quiet_call quiet_await]) simp
  then show ?thesis by (simp add: refreshListing_def quiet_fields split: option.split)
qed

lemma quiet_beginDownload: "quiet s (beginDownload a s)"
  by (simp add: beginDownload_def quiet_await)

lemma quiet_begin_again: "quiet s (begin_again r b s)"
  by (simp add: begin_again_def quiet_beginDownload split: option.split)

lemma quiet_cancelTransfer: "quiet s (cancelTransfer n s)"
  by (simp add: cancelTransfer_def quiet_call split: option.split)

lemma quiet_navigate: "quiet s (descend e s)" "quiet s (navigateTo d s)" "quiet s (goUp s)"
proof -
  show "quiet s (descend e s)"
    unfolding descend_def by (rule quiet_trans[OF quiet_fields(2) quiet_refreshListing])
  have nav: "quiet s (navigateTo d s)" for d
    unfolding navigateTo_def by (rule quiet_trans[OF quiet_fields(2) quiet_refreshListing])
  show "quiet s (navigateTo d s)" by (rule nav)
  show "quiet s (goUp s)" by (simp add: goUp_def nav)
qed

lemma quiet_confirm: "quiet s (confirmDownload e b s)"
  by (simp add: confirmDownload_def quiet_beginDownload split: option.split)

lemma quiet_startUpload: "quiet s (startUpload f b m p s)"
  by (simp add: startUpload_def quiet_await)

lemma quiet_finish: "quiet s (finishTransfer n s)"
  by (simp add: finishTransfer_def Let_def quiet_refreshListing)

lemma frame_tick_on: "frame s (tick_on k a s)"
  by (simp add: tick_on_def frame_def core_tasks_def split: option.split)

lemma frame_startPolling: "frame s (startPolling s)"
  using frame_trans[of s "s\<lparr>pollTimer := PTrue\<rparr>", OF _ frame_tick_on]
  by (simp add: startPolling_def frame_def core_tasks_def)

text \<open>Objects are only added, and keep their record and kind; a settled one stays settled.\<close>

definition core :: "entry \<Rightarrow> transfer_record \<times> row_kind" where
  "core t = (e_record t, e_kind t)"

definition grows :: "tpage \<Rightarrow> tpage \<Rightarrow> bool" where
  "grows s t \<longleftrightarrow> length (objs s) \<le> length (objs t) \<and> set (polled s) \<subseteq> set (polled t) \<and>
     (\<forall>n < length (objs s). core (objs t ! n) = core (objs s ! n) \<and> (e_settled (objs s ! n) \<longrightarrow> e_settled (objs t ! n)))"

text \<open>A download that reported success and was noticed.\<close>

definition finished_download :: "tpage \<Rightarrow> nat \<Rightarrow> bool" where
  "finished_download s n \<longleftrightarrow> n < length (objs s) \<and> e_kind (objs s ! n) = Active \<and> e_settled (objs s ! n) \<and>
     r_direction (e_record (objs s ! n)) = Download \<and> (\<exists>p. (n, p) \<in> set (polled s) \<and> outcomeOk (p_outcome p))"

fun wait_ok :: "tpage \<Rightarrow> wait \<Rightarrow> bool" where
  "wait_ok s (AwaitProgress n) = (n < length (objs s) \<and> e_kind (objs s ! n) = Active)"
| "wait_ok s (AwaitClose n) = (finished_download s n \<and> n \<notin> fst ` set (handed s))"
| "wait_ok s (AwaitBlob n) = (finished_download s n \<and> n \<notin> fst ` set (handed s))"

definition live_ok :: "tpage \<Rightarrow> bool" where
  "live_ok s \<longleftrightarrow> (\<forall>x \<in> live (transfers s). snd x < length (objs s))"

definition hand_ok :: "tpage \<Rightarrow> bool" where
  "hand_ok s \<longleftrightarrow> live_ok s \<and> distinct (map fst (handed s)) \<and>
     (\<forall>h \<in> set (handed s). finished_download s (fst h) \<and> fst (snd h) = r_staging (e_record (objs s ! fst h))) \<and>
     (\<forall>k \<in> set (ticks s). wait_ok s (tk_wait k))"

lemma finished_grows: "finished_download s n \<Longrightarrow> grows s t \<Longrightarrow> finished_download t n"
  by (auto simp: finished_download_def grows_def core_def)

lemma wait_ok_grows: "wait_ok s w \<Longrightarrow> grows s t \<Longrightarrow> handed t = handed s \<Longrightarrow> wait_ok t w"
  by (cases w) (auto simp: finished_grows grows_def core_def)

lemma hand_ok_grows:
  assumes h: "hand_ok s" and g: "grows s t" and same: "handed t = handed s"
    and sub: "set (ticks t) \<subseteq> set (ticks s)" and lv: "live_ok t"
  shows "hand_ok t"
proof -
  have "finished_download t (fst x) \<and> fst (snd x) = r_staging (e_record (objs t ! fst x))" if "x \<in> set (handed s)" for x
  proof -
    have f: "finished_download s (fst x)" "fst (snd x) = r_staging (e_record (objs s ! fst x))"
      using h that by (simp_all add: hand_ok_def)
    then have "fst x < length (objs s)" by (simp add: finished_download_def)
    then have "core (objs t ! fst x) = core (objs s ! fst x)" using g by (simp add: grows_def)
    then show ?thesis using f finished_grows[OF f(1) g] by (simp add: core_def)
  qed
  moreover have "wait_ok t (tk_wait k)" if "k \<in> set (ticks t)" for k
    using h that sub by (intro wait_ok_grows[OF _ g same]) (auto simp: hand_ok_def)
  ultimately show ?thesis using h lv by (simp add: hand_ok_def same)
qed

lemma grows_same: "objs t = objs s \<Longrightarrow> set (polled s) \<subseteq> set (polled t) \<Longrightarrow> grows s t"
  by (simp add: grows_def)

lemma hand_ok_frame: "frame s t \<Longrightarrow> set (ticks t) \<subseteq> set (ticks s) \<Longrightarrow> hand_ok s \<Longrightarrow> hand_ok t"
  by (rule hand_ok_grows[of s]) (auto simp: frame_def grows_same hand_ok_def live_ok_def)

lemma hand_ok_quiet: "quiet s t \<Longrightarrow> hand_ok s \<Longrightarrow> hand_ok t"
  by (rule hand_ok_frame[of s]) (auto simp: quiet_def poll_of_def)

lemma hand_ok_tick_on: "hand_ok s \<Longrightarrow> hand_ok (tick_on k a s)"
proof (cases "next_handle k s")
  case None
  then show "hand_ok s \<Longrightarrow> ?thesis"
    by (elim hand_ok_frame[OF frame_tick_on, rotated]) (simp add: tick_on_def)
next
  case (Some p)
  obtain j n where p: "p = (j, n)" by (cases p)
  let ?t = "tick_on k a s"
  assume h: "hand_ok s"
  obtain i where "(i, n) \<in> live (transfers s)" "e_kind (objs s ! n) = Active" using next_handleD Some p by blast
  then have n: "n < length (objs s)" "e_kind (objs s ! n) = Active" using h by (force simp: hand_ok_def live_ok_def)+
  have t: "?t = s\<lparr>ticks := ticks s @ [\<lparr>tk_next = Suc j, tk_any = a, tk_wait = AwaitProgress n\<rparr>]\<rparr>"
    by (simp add: tick_on_def Some p)
  have g: "grows s ?t" by (rule grows_same) (simp_all add: t)
  have "hand_ok (?t\<lparr>ticks := ticks s\<rparr>)"
    by (rule hand_ok_grows[OF h]) (use h in \<open>auto simp: grows_same t hand_ok_def live_ok_def\<close>)
  moreover have "wait_ok (?t\<lparr>ticks := ticks s\<rparr>) w = wait_ok ?t w" for w
    by (cases w) (simp_all add: finished_download_def)
  ultimately show ?thesis using n by (simp add: hand_ok_def t live_ok_def finished_download_def)
qed

lemma hand_ok_startPolling: "hand_ok s \<Longrightarrow> hand_ok (startPolling s)"
proof -
  have "hand_ok (s\<lparr>pollTimer := PTrue\<rparr>)" if "hand_ok s"
    by (rule hand_ok_frame[OF _ _ that]) (simp_all add: frame_def core_tasks_def)
  then show "hand_ok s \<Longrightarrow> hand_ok (startPolling s)" by (simp add: startPolling_def hand_ok_tick_on)
qed

subsection \<open>The steps of the loop\<close>

definition loop_ok :: "tpage \<Rightarrow> bool" where
  "loop_ok s \<longleftrightarrow> poll_ok s \<and> hand_ok s"

lemma loop_quiet [page_inv]: "quiet s t \<Longrightarrow> loop_ok s \<Longrightarrow> loop_ok t"
  using hand_ok_quiet[of s t] poll_ok_same[of t s] by (simp add: loop_ok_def quiet_def)

lemma loop_startPolling: "loop_ok s \<Longrightarrow> loop_ok (startPolling s)"
  by (simp add: loop_ok_def hand_ok_startPolling poll_ok_startPolling)

lemma loop_grows:
  "loop_ok s \<Longrightarrow> grows s t \<Longrightarrow> handed t = handed s \<Longrightarrow> poll_of t = poll_of s \<Longrightarrow> live_ok t \<Longrightarrow> loop_ok t"
  using hand_ok_grows[of s t] poll_ok_same[of t s] by (simp add: loop_ok_def poll_of_def)

lemma loop_live: "loop_ok s \<Longrightarrow> live_ok s"
  by (simp add: loop_ok_def hand_ok_def)

lemma loop_liveD: "loop_ok s \<Longrightarrow> x \<in> live (transfers s) \<Longrightarrow> snd x < length (objs s)"
  using loop_live by (simp add: live_ok_def)

lemma grows_obj_upd: "(\<And>t. core (f t) = core t \<and> (e_settled t \<longrightarrow> e_settled (f t))) \<Longrightarrow> grows s (obj_upd n f s)"
  by (cases "n < length (objs s)") (auto simp: grows_def obj_upd_def nth_list_update)

lemma loop_obj_upd:
  assumes "\<And>t. core (f t) = core t \<and> (e_settled t \<longrightarrow> e_settled (f t))" and "loop_ok s"
  shows "loop_ok (obj_upd n f s)"
  using assms(2) grows_obj_upd[OF assms(1)]
  by (rule loop_grows) (use loop_live[OF assms(2)] in \<open>simp_all add: obj_upd_def live_ok_def poll_of_def\<close>)

lemma loop_failed: "loop_ok s \<Longrightarrow> loop_ok (obj_upd n (failed_start e) s)"
  by (rule loop_obj_upd) (simp_all add: failed_start_def core_def)

lemma loop_add_entry: "loop_ok s \<Longrightarrow> loop_ok (add_entry e s)"
  by (rule loop_grows, assumption)
    (auto simp: grows_def add_entry_def nth_append poll_of_def live_ok_def live_set dest!: loop_liveD intro: less_SucI)

lemma loop_drop_row: "loop_ok s \<Longrightarrow> loop_ok (drop_row r s)"
  by (rule loop_grows, assumption) (auto simp: grows_same drop_row_def poll_of_def live_ok_def live_delete dest!: loop_liveD)

lemma loop_same:
  "loop_ok s \<Longrightarrow> objs t = objs s \<Longrightarrow> polled t = polled s \<Longrightarrow> handed t = handed s \<Longrightarrow> transfers t = transfers s \<Longrightarrow>
     poll_of t = poll_of s \<Longrightarrow> loop_ok t"
  by (rule loop_grows, assumption) (auto simp: grows_same live_ok_def dest!: loop_liveD)

lemma loop_await [simp]: "loop_ok s \<Longrightarrow> loop_ok (await t s)"
  by (erule loop_same) (simp_all add: await_def poll_of_def)

lemma loop_load_next: "loop_ok s \<Longrightarrow> loop_ok (load_next rs s)"
  by (induction rs s rule: load_next.induct) (auto simp: load_end_def intro: loop_quiet[OF quiet_refreshListing])

lemma loop_idbDelete: "loop_ok s \<Longrightarrow> loop_ok (idbDelete i s)"
  by (erule loop_same) (simp_all add: idbDelete_def poll_of_def)

lemma loop_mint: "loop_ok s \<Longrightarrow> loop_ok (s\<lparr>minted := m\<rparr>)"
  by (erule loop_same) (simp_all add: poll_of_def)

lemma loop_tasks: "loop_ok s \<Longrightarrow> loop_ok (s\<lparr>tasks := m\<rparr>)"
  by (erule loop_same) (simp_all add: poll_of_def)

lemma loop_cleanups: "loop_ok s \<Longrightarrow> loop_ok (s\<lparr>cleanups := m\<rparr>)"
  by (erule loop_same) (simp_all add: poll_of_def)

lemmas loop_intros = loop_idbDelete loop_mint loop_tasks loop_await loop_load_next loop_add_entry loop_drop_row
  loop_failed loop_startPolling loop_cleanups quiet_call[THEN loop_quiet] quiet_unstage[THEN loop_quiet]
  quiet_beginDownload[THEN loop_quiet] quiet_begin_again[THEN loop_quiet] quiet_fields[THEN loop_quiet]
  quiet_refreshListing[THEN loop_quiet] quiet_cancelTransfer[THEN loop_quiet] quiet_startUpload[THEN loop_quiet]
  quiet_navigate[THEN loop_quiet] quiet_confirm[THEN loop_quiet] quiet_finish[THEN loop_quiet]

lemma loop_task_step: "loop_ok s \<Longrightarrow> loop_ok (task_step t b s)"
proof (induction t b s rule: task_step.induct)
  case (1 f ov b s)
  then show ?case by (auto simp: startUpload_rest_def Let_def split: answer.split option.split intro!: loop_intros)
next
  case (2 a b s)
  then show ?case by (auto simp: beginDownload_ids_def begin_put_def Let_def split: answer.split intro!: loop_intros)
next
  case (3 a i sid b s)
  then show ?case by (auto simp: begin_put_def intro!: loop_intros)
next
  case (4 r path b s)
  have "loop_ok (s\<lparr>transfers_db := d\<rparr>)" for d by (rule loop_same[OF 4]) (simp_all add: poll_of_def)
  then show ?case using 4 by (auto simp: beginDownload_stored_def Let_def intro!: loop_intros)
next
  case (5 n b s)
  have "loop_ok (obj_upd n (\<lambda>t. t\<lparr>e_handle := h\<rparr>) s)" for h by (rule loop_obj_upd[OF _ 5]) (simp add: core_def)
  with 5 show ?case by (auto split: answer.split intro!: loop_intros)
next
  case (8 r rest b s)
  then show ?case by (auto simp: load_offer_def split: option.split intro!: loop_intros)
qed (auto simp: load_end_def split: answer.split intro!: loop_intros)

lemma loop_tap_row: "loop_ok s \<Longrightarrow> loop_ok (tap_row n a s)"
  by (cases a) (auto simp: tap_row_def retryTransfer_def resumeDownload_def discardResumable_def Let_def intro!: loop_intros)

text \<open>Between two awaits of a tick.\<close>

definition ticking :: "tpage \<Rightarrow> bool" where
  "ticking s \<longleftrightarrow> hand_ok s \<and> ticks s = [] \<and> timers s = 0 \<and> pollTimer s \<noteq> PNull"

lemma ticking_on: "ticking s \<Longrightarrow> loop_ok (tick_on k a s)"
  by (simp add: ticking_def loop_ok_def poll_ok_tick_on hand_ok_tick_on)

lemma wait_ok_ticks [simp]: "wait_ok (s\<lparr>ticks := ks\<rparr>) w = wait_ok s w"
  by (cases w) (simp_all add: finished_download_def)

lemma ticking_wait: "ticking s \<Longrightarrow> wait_ok s (tk_wait k) \<Longrightarrow> loop_ok (s\<lparr>ticks := [k]\<rparr>)"
  by (auto simp: ticking_def loop_ok_def poll_ok_def hand_ok_def live_ok_def finished_download_def)

lemma ticking_grows: "ticking s \<Longrightarrow> grows s t \<Longrightarrow> handed t = handed s \<Longrightarrow> poll_of t = poll_of s \<Longrightarrow>
    transfers t = transfers s \<Longrightarrow> ticking t"
  using hand_ok_grows[of s t] by (auto simp: ticking_def poll_of_def hand_ok_def live_ok_def grows_def dest: less_le_trans)

lemma ticking_quiet: "ticking s \<Longrightarrow> quiet s t \<Longrightarrow> ticking t"
  by (rule ticking_grows[of s]) (auto simp: quiet_def frame_def grows_same)

lemma ticking_hand_over:
  assumes t: "ticking s" and f: "finished_download s n" and new: "n \<notin> fst ` set (handed s)"
  shows "ticking (hand_over n s)"
proof (cases "staged_files s (r_staging (e_record (objs s ! n)))")
  case None
  with t show ?thesis by (simp add: hand_over_def Let_def)
next
  case (Some len)
  then show ?thesis using t f new
    by (auto simp: hand_over_def Let_def ticking_def hand_ok_def live_ok_def finished_download_def)
qed

lemma loop_on_progress:
  assumes t: "ticking s" and n: "n < length (objs s)" "e_kind (objs s ! n) = Active"
  shows "loop_ok (on_progress k n a p s)"
proof -
  define s1 where "s1 = (obj_upd n (\<lambda>t. t\<lparr>e_progress := Some p, e_seen := e_seen t \<or> 0 < p_done p\<rparr>) s)
                 \<lparr>polled := polled s @ [(n, p)]\<rparr>"
  define s2 where "s2 = obj_upd n (\<lambda>t. t\<lparr>e_settled := True\<rparr>) s1"
  have "grows s s1" using n by (auto simp: s1_def grows_def obj_upd_def nth_list_update core_def)
  then have t1: "ticking s1" by (rule ticking_grows[OF t]) (simp_all add: s1_def obj_upd_def poll_of_def)
  have "grows s1 s2" unfolding s2_def by (rule grows_obj_upd) (simp add: core_def)
  then have t2: "ticking s2" by (rule ticking_grows[OF t1]) (simp_all add: s2_def obj_upd_def poll_of_def)
  have fin: "finished_download s2 n"
    if "p_outcome p = Some r" "outcomeOk (Some r)" "r_direction (e_record (objs s2 ! n)) = Download" for r
    using n that by (auto simp: finished_download_def s2_def s1_def obj_upd_def)
  have new: "n \<notin> fst ` set (handed s2)" if "\<not> e_settled (objs s1 ! n)"
    using t1 that by (auto simp: ticking_def hand_ok_def finished_download_def s2_def obj_upd_def)
  have up: "loop_ok (tick_on k a (finishTransfer n s2))"
    by (rule ticking_on[OF ticking_quiet[OF t2 quiet_finish]])
  have "loop_ok (s2\<lparr>ticks := [\<lparr>tk_next = k, tk_any = a, tk_wait = AwaitClose n\<rparr>]\<rparr>)"
    if "p_outcome p = Some r" "outcomeOk (Some r)" "r_direction (e_record (objs s2 ! n)) = Download"
      "\<not> e_settled (objs s1 ! n)" for r
    by (rule ticking_wait[OF t2]) (simp add: fin[OF that(1-3)] new[OF that(4)])
  moreover have "ticks s2 = []" using t2 by (simp add: ticking_def)
  ultimately show ?thesis
    unfolding on_progress_def s1_def[symmetric] Let_def s2_def[symmetric]
    using ticking_on[OF t1] ticking_on[OF t2] up by (auto split: option.split)
qed

lemma loop_tick_step:
  assumes t: "ticking s" and w: "wait_ok s (tk_wait k)"
  shows "loop_ok (tick_step k b s)"
proof -
  have tk: "ticks s = []" using t by (simp add: ticking_def)
  show ?thesis
  proof (cases "tk_wait k")
    case (AwaitProgress n)
    then show ?thesis using t w by (auto simp: tick_step_def intro: ticking_on loop_on_progress split: answer.split)
  next
    case (AwaitClose n)
    then have "loop_ok (s\<lparr>ticks := [k\<lparr>tk_wait := AwaitBlob n\<rparr>]\<rparr>)" using t w by (intro ticking_wait) simp_all
    then show ?thesis using ticking_on[OF t] by (simp add: tick_step_def AwaitClose tk)
  next
    case (AwaitBlob n)
    then show ?thesis using t w ticking_hand_over[of s n] by (simp add: tick_step_def ticking_on)
  qed
qed

lemma loop_step: "loop_ok s \<Longrightarrow> loop_ok (ui_step e s)"
proof (induction e s rule: ui_step.induct)
  case (1 ready s)
  then show ?case by (auto simp: open_panel_def intro!: loop_intros)
next
  case (4 s)
  then show ?case by (auto simp: toggleDropdown_def Let_def intro!: loop_intros)
next
  case (11 k f proceed s)
  then show ?case by (auto intro!: loop_intros)
next
  case (13 n a s)
  then show ?case by (simp add: loop_tap_row)
next
  case (14 k b s)
  then show ?case by (simp add: loop_task_step loop_tasks)
next
  case (15 k b s)
  show ?case
  proof (cases "k < length (ticks s)")
    case True
    let ?s = "s\<lparr>ticks := without k (ticks s)\<rparr>"
    have p: "poll_ok s" and h: "hand_ok s" using 15 by (simp_all add: loop_ok_def)
    have "length (ticks s) = 1" "timers s = 0" using p True by (auto simp: poll_ok_def)
    then have "without k (ticks s) = []" using True by (simp add: without_def)
    moreover have "pollTimer s \<noteq> PNull" using p True by (auto simp: poll_ok_def)
    moreover have "hand_ok ?s"
      by (rule hand_ok_frame[OF _ _ h]) (auto simp: frame_def core_tasks_def dest: in_without)
    ultimately have "ticking ?s" using \<open>timers s = 0\<close> by (simp add: ticking_def)
    moreover have "wait_ok ?s (tk_wait (ticks s ! k))" using h True by (simp add: hand_ok_def)
    ultimately show ?thesis using True by (simp add: loop_tick_step)
  qed (simp add: 15)
next
  case (16 s)
  show ?case
  proof (cases "0 < timers s")
    case True
    have "ticks s = []" "timers s = 1" "pollTimer s \<noteq> PNull"
      using 16 True by (cases "ticks s"; simp add: loop_ok_def poll_ok_def)+
    moreover have "hand_ok (s\<lparr>timers := timers s - 1\<rparr>)"
      by (rule hand_ok_frame[of s]) (use 16 in \<open>simp_all add: frame_def core_tasks_def loop_ok_def\<close>)
    ultimately show ?thesis by (auto simp: ticking_def intro!: ticking_on)
  qed (simp add: 16)
next
  case (17 k s)
  then show ?case by (auto intro!: loop_intros)
qed (auto intro!: loop_intros)

interpretation panel: started_machine "\<lambda>s e. ui_step e s" loop_ok "fresh_page db files ids"
  by unfold_locales
    (simp_all add: loop_step, simp add: loop_ok_def poll_ok_def hand_ok_def live_ok_def live_def fresh_page_def)

lemma loop_run: "loop_ok (ui_run es (fresh_page db files ids))"
  unfolding ui_run_def by (rule panel.ok_reached)

text \<open>C18: A download is handed to the browser once. On every run of the panel, whatever is tapped and in
  whatever order the browser answers, at most one polling loop is running or scheduled and the timer
  variable says so; no transfer is handed over twice; and what was handed over is a download's own
  staged file, after the component reported that it succeeded.\<close>

theorem handed_over_once:
  "let s = ui_run es (fresh_page db files ids) in
    length (ticks s) + timers s \<le> 1 \<and> (pollTimer s = PNull \<longleftrightarrow> ticks s = [] \<and> timers s = 0) \<and>
    distinct (map fst (handed s)) \<and>
    (\<forall>h \<in> set (handed s). r_direction (e_record (objs s ! fst h)) = Download \<and>
       fst (snd h) = r_staging (e_record (objs s ! fst h)) \<and>
       (\<exists>p. (fst h, p) \<in> set (polled s) \<and> outcomeOk (p_outcome p)))"
  using loop_run[of es db files ids]
  by (auto simp: Let_def loop_ok_def poll_ok_def hand_ok_def finished_download_def)

text \<open>A download from the tap to the hand-off.\<close>

definition tapped_row :: dir_entry where
  "tapped_row = \<lparr>de_name = [0x61], de_display = js ''a'', de_dir = False, de_size = Some 5\<rparr>"

definition one_download :: "ui_event list" where
  "one_download = [OpenPanel True, Settles 0 Done, Settles 0 (Rows [tapped_row]), TapFile tapped_row True,
     Settles 0 (Ids [1] [2]), Settles 0 Done, SinkWrites [2] 5, Settles 0 (Handle 7),
     TickSettles 0 (Report \<lparr>p_done = 5, p_total = Some 5, p_outcome = Some KindOk\<rparr>), TickSettles 0 Done, TickSettles 0 Done]"

lemmas ui_eval = fresh_page_def open_panel_def startPolling_def tick_on_def next_handle_def List.map_filter_def await_def
  refreshListing_def joinSegments_path path_of_def call_def without_def load_end_def tapped_row_def confirmDownload_def
  beginDownload_def beginDownload_ids_def begin_put_def beginDownload_stored_def add_entry_def new_entry_def
  tmap_set_def tmap_has_def obj_upd_def on_progress_def outcomeOk_def hand_over_def tick_step_def Let_def

lemma handed_over_once_witness:
  "let s = ui_run one_download (fresh_page [] (\<lambda>_. None) []) in
    handed s = [(0, [2], 5)] \<and> length (ticks s) + timers s \<le> 1"
proof -
  have "handed (ui_run one_download (fresh_page [] (\<lambda>_. None) [])) = [(0, [2], 5)]"
    by (simp add: ui_run_def one_download_def ui_eval)
  then show ?thesis using handed_over_once[of one_download "[]" "\<lambda>_. None" "[]"] by (simp add: Let_def)
qed

end
