(* ===== verification/TransferRecords.thy ===== *)
theory TransferRecords
  imports TransferRuns
begin

text \<open>
  The resume records of the files panel: on every run of TransferUi a download in progress is in the
  database under what it was started with, whatever is resumed, retried or discarded around it, and a
  page loaded later offers it again.
\<close>

subsection \<open>A running download is on record\<close>

text \<open>The ids a pending task will give out, still refers to, is about to delete from the database, and the
  objects whose record a cleanup will delete.\<close>

fun task_new :: "task \<Rightarrow> jstr list" where
  "task_new (BeginRemoved a i sid) = [i]"
| "task_new (BeginPut r path) = [r_id r]"
| "task_new _ = []"

fun task_old :: "task \<Rightarrow> jstr set" where
  "task_old (LoadBlob r rest) = r_id ` set (r # rest)"
| "task_old (LoadHeal r rest) = r_id ` set (r # rest)"
| "task_old (LoadDrop r rest) = r_id ` set (r # rest)"
| "task_old (DiscardDelete r) = {r_id r}"
| "task_old _ = {}"

fun task_doomed :: "task \<Rightarrow> jstr set" where
  "task_doomed (LoadBlob r rest) = {r_id r}"
| "task_doomed (LoadHeal r rest) = {r_id r}"
| "task_doomed (LoadDrop r rest) = {r_id r}"
| "task_doomed (DiscardDelete r) = {r_id r}"
| "task_doomed _ = {}"

fun task_clean :: "task \<Rightarrow> nat set" where
  "task_clean (CleanRemove n) = {n}"
| "task_clean (CleanDelete n) = {n}"
| "task_clean _ = {}"

lemma irrelevant_tasks: "\<not> relevant t \<Longrightarrow> task_new t = [] \<and> task_old t = {} \<and> task_doomed t = {} \<and> task_clean t = {}"
  by (cases t) simp_all

definition new_ids :: "tpage \<Rightarrow> jstr list" where
  "new_ids s = concat (map task_new (core_tasks s))"

definition old_ids :: "tpage \<Rightarrow> jstr set" where
  "old_ids s = fst ` set (transfers_db s) \<union> (r_id \<circ> fst) ` set (map core (objs s)) \<union> \<Union> (task_old ` set (core_tasks s))"

definition doomed_ids :: "tpage \<Rightarrow> jstr set" where
  "doomed_ids s = \<Union> (task_doomed ` set (core_tasks s)) \<union>
     (r_id \<circ> fst) ` {c \<in> set (map core (objs s)). snd c = Resumable}"

definition clean_objs :: "tpage \<Rightarrow> nat set" where
  "clean_objs s = set (cleanups s) \<union> \<Union> (task_clean ` set (core_tasks s))"

definition active :: "tpage \<Rightarrow> nat \<Rightarrow> bool" where
  "active s n \<longleftrightarrow> n < length (objs s) \<and> e_kind (objs s ! n) = Active"

definition rid :: "tpage \<Rightarrow> nat \<Rightarrow> jstr" where
  "rid s n = r_id (e_record (objs s ! n))"

definition db_ok :: "transfer_record idb \<Rightarrow> bool" where
  "db_ok db \<longleftrightarrow> idb_ok db \<and> list_all (\<lambda>e. r_id (snd e) = fst e) db"

definition ids_ok :: "tpage \<Rightarrow> bool" where
  "ids_ok s \<longleftrightarrow> db_ok (transfers_db s) \<and> old_ids s \<union> set (new_ids s) \<subseteq> set (minted s) \<and>
     distinct (new_ids s) \<and> set (new_ids s) \<inter> old_ids s = {} \<and>
     (\<forall>x \<in> live (transfers s). snd x < length (objs s) \<and> rid s (snd x) = fst x) \<and>
     (\<forall>n m. active s n \<longrightarrow> active s m \<longrightarrow> rid s n = rid s m \<longrightarrow> n = m)"

text \<open>What the database must hold for a row.\<close>

definition row_stored :: "tpage \<Rightarrow> jstr \<times> nat \<Rightarrow> bool" where
  "row_stored s x \<longleftrightarrow> (active s (snd x) \<longrightarrow> fst x \<notin> doomed_ids s \<and>
     (r_direction (e_record (objs s ! snd x)) = Download \<longrightarrow> snd x \<notin> fst ` set (handed s) \<longrightarrow>
        idb_get (fst x) (transfers_db s) = Some (e_record (objs s ! snd x))))"

definition stored_ok :: "tpage \<Rightarrow> bool" where
  "stored_ok s \<longleftrightarrow> clean_objs s \<subseteq> fst ` set (handed s) \<and> (\<forall>n \<in> fst ` set (handed s). active s n) \<and>
     (\<forall>x \<in> live (transfers s). row_stored s x)"

definition rec_ok :: "tpage \<Rightarrow> bool" where
  "rec_ok s \<longleftrightarrow> ids_ok s \<and> stored_ok s"

text \<open>Both only depend on records and kinds, and losing tasks or rows never hurts.\<close>

lemma same_core:
  assumes c: "map core (objs t) = map core (objs s)"
  shows "length (objs t) = length (objs s)" "active t n = active s n"
    "n < length (objs s) \<Longrightarrow> e_record (objs t ! n) = e_record (objs s ! n)"
    "n < length (objs s) \<Longrightarrow> rid t n = rid s n"
proof -
  show l: "length (objs t) = length (objs s)" using c by (metis length_map)
  have k: "core (objs t ! n) = core (objs s ! n)" if "n < length (objs s)" for n
    using c that l by (metis nth_map)
  show "active t n = active s n" using k[of n] l by (auto simp: active_def core_def)
  show "n < length (objs s) \<Longrightarrow> e_record (objs t ! n) = e_record (objs s ! n)" using k[of n] by (simp add: core_def)
  then show "n < length (objs s) \<Longrightarrow> rid t n = rid s n" by (simp add: rid_def)
qed

lemma active_less: "active s n \<Longrightarrow> n < length (objs s)"
  by (simp add: active_def)

lemma rec_ok_weaken:
  assumes r: "rec_ok s" and c: "map core (objs t) = map core (objs s)" and db: "transfers_db t = transfers_db s"
    and lv: "live (transfers t) \<subseteq> live (transfers s)" and hd: "handed t = handed s" and mi: "set (minted s) \<subseteq> set (minted t)"
    and ni: "distinct (new_ids t)" "set (new_ids t) \<subseteq> set (new_ids s)"
    and ol: "old_ids t \<subseteq> old_ids s" and dm: "doomed_ids t \<subseteq> doomed_ids s" and cl: "clean_objs t \<subseteq> clean_objs s"
  shows "rec_ok t"
proof -
  have ids: "ids_ok s" and st: "stored_ok s" using r by (simp_all add: rec_ok_def)
  have "snd x < length (objs t) \<and> rid t (snd x) = fst x" if "x \<in> live (transfers t)" for x
  proof -
    have "snd x < length (objs s) \<and> rid s (snd x) = fst x" using ids lv that by (auto simp: ids_ok_def)
    then show ?thesis using same_core(1,4)[OF c] by simp
  qed
  moreover have "n = m" if "active t n" "active t m" "rid t n = rid t m" for n m
    using ids that same_core(2,4)[OF c] active_less[of s] unfolding ids_ok_def by metis
  moreover have "old_ids t \<union> set (new_ids t) \<subseteq> set (minted t)" "set (new_ids t) \<inter> old_ids t = {}"
    using ids ni ol mi by (auto simp: ids_ok_def)
  ultimately have "ids_ok t" using ids ni(1) by (simp add: ids_ok_def db)
  moreover have "row_stored t x" if x: "x \<in> live (transfers t)" for x
  proof -
    have "row_stored s x" using st lv x by (auto simp: stored_ok_def)
    then show ?thesis using same_core(2,3)[OF c] dm active_less[of s "snd x"]
      by (auto simp: row_stored_def db hd)
  qed
  moreover have "clean_objs t \<subseteq> fst ` set (handed t)" "\<forall>n \<in> fst ` set (handed t). active t n"
    using st cl same_core(2)[OF c] by (auto simp: stored_ok_def hd)
  ultimately show ?thesis by (simp add: rec_ok_def stored_ok_def)
qed

lemma rec_ok_frame: "frame s t \<Longrightarrow> rec_ok s \<Longrightarrow> rec_ok t"
  by (rule rec_ok_weaken[of s])
    (auto simp: frame_def new_ids_def old_ids_def doomed_ids_def clean_objs_def rec_ok_def ids_ok_def)

lemma rec_ok_quiet: "quiet s t \<Longrightarrow> rec_ok s \<Longrightarrow> rec_ok t"
  by (simp add: quiet_def rec_ok_frame[of s t])

lemma rec_ok_objs:
  assumes "rec_ok s" and "map core (objs t) = map core (objs s)" and "transfers_db t = transfers_db s"
    and "live (transfers t) \<subseteq> live (transfers s)" and "handed t = handed s" and "set (minted s) \<subseteq> set (minted t)"
    and "core_tasks t = core_tasks s" and "set (cleanups t) \<subseteq> set (cleanups s)"
  shows "rec_ok t"
  using assms(1) by (rule rec_ok_weaken)
    (use assms in \<open>auto simp: new_ids_def old_ids_def doomed_ids_def clean_objs_def rec_ok_def ids_ok_def\<close>)

lemma rec_ok_obj_upd: "(\<And>t. core (f t) = core t) \<Longrightarrow> rec_ok s \<Longrightarrow> rec_ok (obj_upd n f s)"
proof -
  assume f: "\<And>t. core (f t) = core t" and r: "rec_ok s"
  have "map core (objs (obj_upd n f s)) = map core (objs s)"
    by (cases "n < length (objs s)")
      (simp_all add: obj_upd_def map_update f list_update_beyond list_update_same_conv)
  then show ?thesis by (rule rec_ok_objs[OF r]) (simp_all add: obj_upd_def core_tasks_def)
qed

lemma rec_ok_failed: "rec_ok s \<Longrightarrow> rec_ok (obj_upd n (failed_start e) s)"
  by (rule rec_ok_obj_upd) (simp add: failed_start_def core_def)

lemma rec_ok_drop_row: "rec_ok s \<Longrightarrow> rec_ok (drop_row r s)"
  by (erule rec_ok_objs) (auto simp: drop_row_def core_tasks_def live_delete)

lemma rec_ok_mint: "rec_ok s \<Longrightarrow> set (minted s) \<subseteq> set m \<Longrightarrow> rec_ok (s\<lparr>minted := m\<rparr>)"
  by (erule rec_ok_objs) (auto simp: core_tasks_def)

text \<open>Taking a task off the list, and what the rest then says about it.\<close>

definition task_off :: "nat \<Rightarrow> tpage \<Rightarrow> tpage" where
  "task_off k s = s\<lparr>tasks := without k (tasks s)\<rparr>"

lemma core_tasks_off:
  assumes "k < length (tasks s)"
  shows "\<exists>a b. core_tasks (task_off k s) = a @ b \<and>
    core_tasks s = a @ (if relevant (tasks s ! k) then [tasks s ! k] else []) @ b"
proof (intro exI conjI)
  show "core_tasks (task_off k s) = filter relevant (take k (tasks s)) @ filter relevant (drop (Suc k) (tasks s))"
    by (simp add: core_tasks_def task_off_def without_def)
  show "core_tasks s = filter relevant (take k (tasks s)) @ (if relevant (tasks s ! k) then [tasks s ! k] else []) @
      filter relevant (drop (Suc k) (tasks s))"
    unfolding core_tasks_def by (subst without_nth[OF assms]) (simp del: append_take_drop_id)
qed

lemma rec_ok_off:
  assumes r: "rec_ok s" and k: "k < length (tasks s)"
  shows "rec_ok (task_off k s)" and
    "\<forall>i \<in> set (task_new (tasks s ! k)). i \<notin> set (new_ids (task_off k s)) \<and> i \<notin> old_ids (task_off k s) \<and> i \<in> set (minted s)" and
    "task_old (tasks s ! k) \<subseteq> set (minted s) - set (new_ids (task_off k s))" and
    "\<forall>x \<in> live (transfers s). active s (snd x) \<longrightarrow> fst x \<notin> task_doomed (tasks s ! k)" and
    "task_clean (tasks s ! k) \<subseteq> fst ` set (handed s)"
proof -
  let ?t = "task_off k s"
  obtain a b where t: "core_tasks ?t = a @ b"
    and s: "core_tasks s = a @ (if relevant (tasks s ! k) then [tasks s ! k] else []) @ b"
    using core_tasks_off[OF k] by blast
  have ids: "ids_ok s" and st: "stored_ok s" using r by (simp_all add: rec_ok_def)
  have same [simp]: "objs ?t = objs s" "transfers ?t = transfers s" "transfers_db ?t = transfers_db s" "handed ?t = handed s"
    "minted ?t = minted s" "cleanups ?t = cleanups s"
    by (simp_all add: task_off_def)
  have dist: "distinct (new_ids s)" "set (new_ids s) \<inter> old_ids s = {}" "old_ids s \<union> set (new_ids s) \<subseteq> set (minted s)"
    using ids by (simp_all add: ids_ok_def)
  show "rec_ok ?t"
    by (rule rec_ok_weaken[OF r])
      (use dist in \<open>auto simp: new_ids_def old_ids_def doomed_ids_def clean_objs_def t s split: if_splits\<close>)
  show "\<forall>i \<in> set (task_new (tasks s ! k)). i \<notin> set (new_ids ?t) \<and> i \<notin> old_ids ?t \<and> i \<in> set (minted s)"
    using dist irrelevant_tasks[of "tasks s ! k"] by (auto simp: new_ids_def old_ids_def t s split: if_splits)
  show "task_old (tasks s ! k) \<subseteq> set (minted s) - set (new_ids ?t)"
    using dist irrelevant_tasks[of "tasks s ! k"] by (auto simp: new_ids_def old_ids_def t s split: if_splits)
  show "\<forall>x \<in> live (transfers s). active s (snd x) \<longrightarrow> fst x \<notin> task_doomed (tasks s ! k)"
    using st irrelevant_tasks[of "tasks s ! k"]
    by (cases "relevant (tasks s ! k)") (auto simp: stored_ok_def row_stored_def doomed_ids_def s)
  show "task_clean (tasks s ! k) \<subseteq> fst ` set (handed s)"
    using st irrelevant_tasks[of "tasks s ! k"]
    by (cases "relevant (tasks s ! k)") (auto simp: stored_ok_def clean_objs_def s)
qed

text \<open>A new task, and changes of the database.\<close>

lemma rec_ok_await:
  assumes r: "rec_ok s" and new: "set (task_new t) \<subseteq> set (minted s) - set (new_ids s) - old_ids s" "distinct (task_new t)"
    and old: "task_old t \<subseteq> set (minted s) - set (new_ids s)" "task_old t \<inter> set (task_new t) = {}"
    and dm: "\<forall>x \<in> live (transfers s). active s (snd x) \<longrightarrow> fst x \<notin> task_doomed t"
    and cl: "task_clean t \<subseteq> fst ` set (handed s)"
  shows "rec_ok (await t s)"
proof (cases "relevant t")
  case True
  let ?t = "await t s"
  have [simp]: "objs ?t = objs s" "transfers ?t = transfers s" "transfers_db ?t = transfers_db s" "handed ?t = handed s"
    "minted ?t = minted s" "cleanups ?t = cleanups s"
    by (simp_all add: await_def)
  have ids: "ids_ok s" and st: "stored_ok s" using r by (simp_all add: rec_ok_def)
  have ni: "new_ids ?t = new_ids s @ task_new t" and oi: "old_ids ?t = old_ids s \<union> task_old t"
    and di: "doomed_ids ?t = doomed_ids s \<union> task_doomed t" and ci: "clean_objs ?t = clean_objs s \<union> task_clean t"
    using True by (auto simp: new_ids_def old_ids_def doomed_ids_def clean_objs_def)
  have ac: "active ?t n = active s n" "rid ?t n = rid s n" for n by (simp_all add: active_def rid_def)
  have "ids_ok ?t" using ids new old unfolding ids_ok_def ni oi ac by auto
  moreover have "row_stored ?t x" if "x \<in> live (transfers s)" for x
    using st dm that by (auto simp: stored_ok_def row_stored_def di ac)
  moreover have "clean_objs ?t \<subseteq> fst ` set (handed s)" using st cl by (simp add: stored_ok_def ci)
  ultimately show ?thesis using st by (simp add: rec_ok_def stored_ok_def ac)
next
  case False
  then show ?thesis using rec_ok_quiet[OF quiet_await r] by simp
qed

lemma rec_ok_db:
  assumes r: "rec_ok s" and db: "db_ok d"
    and keys: "fst ` set d \<subseteq> insert i (fst ` set (transfers_db s))" "i \<in> set (minted s)" "i \<notin> set (new_ids s)"
    and same: "\<And>x. x \<in> live (transfers s) \<Longrightarrow> active s (snd x) \<Longrightarrow> snd x \<notin> fst ` set (handed s) \<Longrightarrow>
       r_direction (e_record (objs s ! snd x)) = Download \<Longrightarrow> idb_get (fst x) d = idb_get (fst x) (transfers_db s)"
  shows "rec_ok (s\<lparr>transfers_db := d\<rparr>)"
proof -
  let ?t = "s\<lparr>transfers_db := d\<rparr>"
  have ids: "ids_ok s" and st: "stored_ok s" using r by (simp_all add: rec_ok_def)
  have eq: "new_ids ?t = new_ids s" "doomed_ids ?t = doomed_ids s" "clean_objs ?t = clean_objs s"
    "active ?t n = active s n" "rid ?t n = rid s n" for n
    by (simp_all add: new_ids_def doomed_ids_def clean_objs_def active_def rid_def core_tasks_def)
  have "old_ids ?t \<subseteq> insert i (old_ids s)" using keys(1) by (auto simp: old_ids_def core_tasks_def)
  then have "old_ids ?t \<union> set (new_ids s) \<subseteq> set (minted s)" "set (new_ids s) \<inter> old_ids ?t = {}"
    using ids keys(2,3) by (auto simp: ids_ok_def)
  then have "ids_ok ?t" using ids db unfolding ids_ok_def eq by simp
  moreover have "row_stored ?t x" if "x \<in> live (transfers s)" for x
    using st same[OF that] that by (auto simp: stored_ok_def row_stored_def eq)
  ultimately show ?thesis using st by (simp add: rec_ok_def stored_ok_def eq)
qed

lemma idb_del_keys: "fst ` set (idb_del i db) \<subseteq> fst ` set db"
  by (auto simp: idb_del_def)

lemma db_ok_del: "db_ok db \<Longrightarrow> db_ok (idb_del i db)"
  by (auto simp: db_ok_def idb_ok_del) (simp add: idb_del_def list_all_iff)

lemma db_ok_put: "db_ok db \<Longrightarrow> db_ok (idb_put (r_id r) r db)"
proof -
  have "list_all (\<lambda>e. r_id (snd e) = fst e) (idb_put (r_id r) r d)" if "list_all (\<lambda>e. r_id (snd e) = fst e) d" for d
    using that by (induction d) auto
  then show "db_ok db \<Longrightarrow> db_ok (idb_put (r_id r) r db)" by (simp add: db_ok_def idb_ok_put)
qed

lemma rec_ok_delete:
  assumes r: "rec_ok s" and i: "i \<in> set (minted s)" "i \<notin> set (new_ids s)"
    and no: "\<And>x. x \<in> live (transfers s) \<Longrightarrow> active s (snd x) \<Longrightarrow> snd x \<notin> fst ` set (handed s) \<Longrightarrow> fst x \<noteq> i"
  shows "rec_ok (idbDelete i s)"
  unfolding idbDelete_def
  by (rule rec_ok_db[OF r, of _ i])
    (use assms idb_del_keys[of i "transfers_db s"] no in \<open>auto simp: rec_ok_def ids_ok_def db_ok_del idb_get_del\<close>)

text \<open>A new row.\<close>

lemma doomed_old: "task_doomed t \<subseteq> task_old t"
  by (cases t) auto

lemma new_entry_simps [simp]: "e_record (new_entry k r) = r" "e_kind (new_entry k r) = k" "core (new_entry k r) = (r, k)"
  by (simp_all add: new_entry_def core_def)

lemma add_entry_simps [simp]:
  "objs (add_entry e s) = objs s @ [e]" "transfers_db (add_entry e s) = transfers_db s" "handed (add_entry e s) = handed s"
  "minted (add_entry e s) = minted s" "cleanups (add_entry e s) = cleanups s" "core_tasks (add_entry e s) = core_tasks s"
  "live (transfers (add_entry e s)) = {x \<in> live (transfers s). fst x \<noteq> r_id (e_record e)} \<union> {(r_id (e_record e), length (objs s))}"
  by (simp_all add: add_entry_def live_set core_tasks_def)

lemma add_entry_rid: "n \<le> length (objs s) \<Longrightarrow> rid (add_entry e s) n = (if n < length (objs s) then rid s n else r_id (e_record e))"
  by (auto simp: rid_def nth_append)

lemma rec_ok_add_active:
  assumes r: "rec_ok s" and mi: "r_id r \<in> set (minted s)" "r_id r \<notin> set (new_ids s)"
    and fresh: "\<And>e. e \<in> set (objs s) \<Longrightarrow> r_id (e_record e) \<noteq> r_id r" "\<And>t. t \<in> set (core_tasks s) \<Longrightarrow> r_id r \<notin> task_old t"
    and db: "r_direction r = Download \<Longrightarrow> idb_get (r_id r) (transfers_db s) = Some r"
  shows "rec_ok (add_entry (new_entry Active r) s)"
proof -
  let ?t = "add_entry (new_entry Active r) s"
  have ids: "ids_ok s" and st: "stored_ok s" using r by (simp_all add: rec_ok_def)
  have eq: "new_ids ?t = new_ids s" "doomed_ids ?t = doomed_ids s" "clean_objs ?t = clean_objs s"
    "old_ids ?t = insert (r_id r) (old_ids s)"
    by (auto simp: new_ids_def doomed_ids_def clean_objs_def old_ids_def)
  have ac: "active ?t n \<longleftrightarrow> active s n \<or> n = length (objs s)" for n
    by (auto simp: active_def nth_append)
  note ri = add_entry_rid[of _ s "new_entry Active r", simplified]
  have other: "rid s n \<noteq> r_id r" if "active s n" for n
    using that fresh(1)[of "objs s ! n"] by (simp add: rid_def active_def)
  have notd: "r_id r \<notin> doomed_ids s"
    using fresh doomed_old by (fastforce simp: doomed_ids_def core_def)
  have uniq: "n = m" if "active ?t n" "active ?t m" "rid ?t n = rid ?t m" for n m
    using that other active_less[of s] ids ri[of n] ri[of m] unfolding ac ids_ok_def
    by (auto simp: less_imp_le split: if_splits) (metis less_irrefl)+
  have "ids_ok ?t"
    unfolding ids_ok_def eq
    using ids mi ri uniq by (auto simp: ids_ok_def)
  moreover have "row_stored ?t x" if x: "x \<in> live (transfers ?t)" for x
  proof (cases "x = (r_id r, length (objs s))")
    case True
    then show ?thesis using notd db by (simp add: row_stored_def eq)
  next
    case False
    then have x': "x \<in> live (transfers s)" using x by (auto simp: image_iff)
    then have "snd x < length (objs s)" using ids by (simp add: ids_ok_def)
    then show ?thesis using st x' by (auto simp: row_stored_def eq ac stored_ok_def nth_append)
  qed
  ultimately show ?thesis using st by (auto simp: rec_ok_def stored_ok_def eq ac)
qed

lemma rec_ok_add_resumable:
  assumes r: "rec_ok s" and mi: "r_id r \<in> set (minted s)" "r_id r \<notin> set (new_ids s)"
    and no: "\<forall>x \<in> live (transfers s). active s (snd x) \<longrightarrow> fst x \<noteq> r_id r"
  shows "rec_ok (add_entry (new_entry Resumable r) s)"
proof -
  let ?t = "add_entry (new_entry Resumable r) s"
  have ids: "ids_ok s" and st: "stored_ok s" using r by (simp_all add: rec_ok_def)
  have rs: "{c \<in> set (map core (objs ?t)). snd c = Resumable} =
      insert (r, Resumable) {c \<in> set (map core (objs s)). snd c = Resumable}" by auto
  have "doomed_ids ?t = insert (r_id r) (doomed_ids s)" unfolding doomed_ids_def rs by auto
  then have eq: "new_ids ?t = new_ids s" "doomed_ids ?t = insert (r_id r) (doomed_ids s)" "clean_objs ?t = clean_objs s"
    "old_ids ?t = insert (r_id r) (old_ids s)"
    by (auto simp: new_ids_def clean_objs_def old_ids_def)
  have ac: "active ?t n \<longleftrightarrow> active s n" for n
    by (auto simp: active_def nth_append)
  note ri = add_entry_rid[of _ s "new_entry Resumable r", simplified]
  have uniq: "n = m" if "active ?t n" "active ?t m" "rid ?t n = rid ?t m" for n m
    using that active_less[of s] ids ri[of n] ri[of m] unfolding ac ids_ok_def by (simp add: less_imp_le)
  have "ids_ok ?t"
    unfolding ids_ok_def eq
    using ids mi ri uniq by (auto simp: ids_ok_def)
  moreover have "row_stored ?t x" if x: "x \<in> live (transfers ?t)" for x
  proof (cases "active s (snd x)")
    case True
    then have x': "x \<in> live (transfers s)" using x active_less[OF True] by (auto simp: image_iff)
    then show ?thesis using st no True active_less[OF True] by (auto simp: row_stored_def eq ac stored_ok_def nth_append)
  qed (simp add: row_stored_def ac)
  ultimately show ?thesis using st by (auto simp: rec_ok_def stored_ok_def eq ac)
qed

lemma rec_ok_hand_over:
  assumes r: "rec_ok s" and a: "active s n"
  shows "rec_ok (hand_over n s)"
proof (cases "staged_files s (r_staging (e_record (objs s ! n)))")
  case None
  with r show ?thesis by (simp add: hand_over_def Let_def)
next
  case (Some len)
  let ?t = "hand_over n s"
  have [simp]: "objs ?t = objs s" "transfers ?t = transfers s" "transfers_db ?t = transfers_db s" "minted ?t = minted s"
    "core_tasks ?t = core_tasks s"
    and h: "handed ?t = handed s @ [(n, r_staging (e_record (objs s ! n)), len)]" "cleanups ?t = cleanups s @ [n]"
    by (simp_all add: hand_over_def Let_def Some core_tasks_def)
  have eq: "new_ids ?t = new_ids s" "doomed_ids ?t = doomed_ids s" "clean_objs ?t = insert n (clean_objs s)"
    "old_ids ?t = old_ids s" "active ?t m = active s m" "rid ?t m = rid s m" for m
    by (auto simp: new_ids_def doomed_ids_def clean_objs_def old_ids_def active_def rid_def h)
  show ?thesis using r a by (auto simp: rec_ok_def ids_ok_def stored_ok_def eq row_stored_def h)
qed

lemma rec_ok_load_next:
  assumes "rec_ok s" and "r_id ` set rs \<subseteq> set (minted s) - set (new_ids s)"
  shows "rec_ok (load_next rs s)"
  using assms
proof (induction rs s rule: load_next.induct)
  case (1 s)
  then show ?case by (simp add: load_end_def rec_ok_quiet[OF quiet_refreshListing])
next
  case (2 r rest s)
  show ?case
  proof (cases "r_direction r \<noteq> Download \<or> tmap_has (r_id r) (transfers s)")
    case False
    have "rec_ok (await (LoadBlob r rest) s)"
      by (rule rec_ok_await) (use 2 False in \<open>auto simp: tmap_has_live\<close>)
    with False show ?thesis by simp
  qed (use 2 in auto)
qed

lemma fresh_old: "i \<notin> old_ids s \<Longrightarrow> e \<in> set (objs s) \<Longrightarrow> r_id (e_record e) \<noteq> i"
  "i \<notin> old_ids s \<Longrightarrow> t \<in> set (core_tasks s) \<Longrightarrow> i \<notin> task_old t"
  "i \<notin> old_ids s \<Longrightarrow> i \<notin> fst ` set (transfers_db s)"
  by (force simp: old_ids_def core_def)+

lemma rec_ok_minted: "rec_ok s \<Longrightarrow> i \<notin> set (minted s) \<Longrightarrow> i \<notin> old_ids s \<and> i \<notin> set (new_ids s)"
  by (auto simp: rec_ok_def ids_ok_def)

lemma rec_ok_db_ok: "rec_ok s \<Longrightarrow> db_ok (transfers_db s)"
  by (simp add: rec_ok_def ids_ok_def)

lemma rec_ok_begin_put:
  "rec_ok s \<Longrightarrow> i \<in> set (minted s) \<Longrightarrow> i \<notin> set (new_ids s) \<Longrightarrow> i \<notin> old_ids s \<Longrightarrow> rec_ok (begin_put a i sid s)"
  unfolding begin_put_def by (erule rec_ok_await) auto

lemma rec_ok_stored:
  assumes r: "rec_ok s" and i: "r_id r \<in> set (minted s)" "r_id r \<notin> set (new_ids s)" "r_id r \<notin> old_ids s"
  shows "rec_ok (beginDownload_stored r path s)"
proof -
  let ?s = "s\<lparr>transfers_db := idb_put (r_id r) r (transfers_db s)\<rparr>"
  have db: "db_ok (transfers_db s)" by (rule rec_ok_db_ok[OF r])
  then have ok: "idb_ok (transfers_db s)" by (simp add: db_ok_def)
  have s: "rec_ok ?s"
  proof (rule rec_ok_db[OF r db_ok_put[OF db] _ i(1,2)])
    show "fst ` set (idb_put (r_id r) r (transfers_db s)) \<subseteq> insert (r_id r) (fst ` set (transfers_db s))"
      by (simp add: set_idb_put_keys)
  next
    fix x assume "x \<in> live (transfers s)" "active s (snd x)"
    then have "fst x \<noteq> r_id r"
      using r fresh_old(1)[OF i(3), of "objs s ! snd x"] by (auto simp: rec_ok_def ids_ok_def rid_def)
    then show "idb_get (fst x) (idb_put (r_id r) r (transfers_db s)) = idb_get (fst x) (transfers_db s)"
      by (simp add: idb_get_put[OF ok])
  qed
  have "new_ids ?s = new_ids s" "core_tasks ?s = core_tasks s" by (simp_all add: new_ids_def core_tasks_def)
  then have "rec_ok (add_entry (new_entry Active r) ?s)"
    using s i fresh_old[OF i(3)] by (intro rec_ok_add_active) (auto simp: idb_get_put[OF ok])
  then show ?thesis
    by (auto simp: beginDownload_stored_def Let_def
        intro!: rec_ok_failed rec_ok_quiet[OF quiet_trans[OF quiet_call quiet_await]])
qed

lemma rec_ok_upload:
  assumes r: "rec_ok s" and i: "i \<in> set (minted s)" "i \<notin> set (new_ids s)" "i \<notin> old_ids s"
  shows "rec_ok (startUpload_rest f ov i s)"
proof -
  have "rec_ok (add_entry (new_entry Active r) s)" if "r_id r = i" "r_direction r = Upload" for r
    using r that i fresh_old[OF i(3)] by (intro rec_ok_add_active) auto
  then show ?thesis
    using r by (auto simp: startUpload_rest_def Let_def split: option.split
        intro!: rec_ok_failed rec_ok_quiet[OF quiet_trans[OF quiet_call quiet_await]])
qed

subsection \<open>Every step keeps it\<close>

lemma rec_task_step:
  assumes r: "rec_ok s"
    and new: "\<forall>i \<in> set (task_new t). i \<notin> set (new_ids s) \<and> i \<notin> old_ids s \<and> i \<in> set (minted s)"
    and old: "task_old t \<subseteq> set (minted s) - set (new_ids s)"
    and dm: "\<forall>x \<in> live (transfers s). active s (snd x) \<longrightarrow> fst x \<notin> task_doomed t"
    and cl: "task_clean t \<subseteq> fst ` set (handed s)"
    and po: "possible t b s"
  shows "rec_ok (task_step t b s)"
proof -
  have un: "rec_ok (unstage i s)" for i by (rule rec_ok_quiet[OF quiet_unstage r])
  have [simp]: "minted (unstage i s) = minted s" "new_ids (unstage i s) = new_ids s" "old_ids (unstage i s) = old_ids s"
    "transfers (unstage i s) = transfers s" "handed (unstage i s) = handed s" "active (unstage i s) n = active s n" for i n
    by (simp_all add: unstage_def new_ids_def old_ids_def core_tasks_def active_def)
  have drop: "rec_ok (await (LoadDrop q rest) s')"
    if "rec_ok s'" "r_id q \<in> set (minted s') - set (new_ids s')" "r_id ` set rest \<subseteq> set (minted s') - set (new_ids s')"
      "\<forall>x \<in> live (transfers s'). active s' (snd x) \<longrightarrow> fst x \<noteq> r_id q" for q rest s'
    by (rule rec_ok_await) (use that in auto)
  show ?thesis
  proof (cases t)
    case (UploadPoly f ov)
    { fix i j assume b: "b = Ids i j" "i \<notin> set (minted s)"
      let ?s = "s\<lparr>minted := i # minted s\<rparr>"
      have "rec_ok ?s" by (rule rec_ok_mint[OF r]) auto
      moreover have "new_ids ?s = new_ids s" "old_ids ?s = old_ids s" by (simp_all add: new_ids_def old_ids_def core_tasks_def)
      ultimately have "rec_ok (startUpload_rest f ov i ?s)" using rec_ok_minted[OF r b(2)] by (intro rec_ok_upload) auto }
    with po r show ?thesis by (auto simp: UploadPoly split: answer.splits)
  next
    case (BeginPoly a)
    { fix i j assume b: "b = Ids i j" "i \<notin> set (minted s)"
      let ?s = "s\<lparr>minted := i # j # minted s\<rparr>"
      have m: "rec_ok ?s" by (rule rec_ok_mint[OF r]) auto
      have e: "new_ids ?s = new_ids s" "old_ids ?s = old_ids s" by (simp_all add: new_ids_def old_ids_def core_tasks_def)
      have "rec_ok (begin_put a i sid ?s)" for sid
        using m rec_ok_minted[OF r b(2)] by (intro rec_ok_begin_put) (auto simp: e)
      moreover have "rec_ok (await (BeginRemoved a i sid) ?s)" for sid
        using m rec_ok_minted[OF r b(2)] by (intro rec_ok_await) (auto simp: e)
      ultimately have "rec_ok (beginDownload_ids a i j ?s)" by (simp add: beginDownload_ids_def Let_def) }
    with po r show ?thesis by (auto simp: BeginPoly split: answer.splits)
  next
    case (BeginRemoved a i sid)
    have "rec_ok (begin_put a i sid s)" "rec_ok (begin_put a i sid (unstage sid s))"
      using r un new by (auto simp: BeginRemoved intro!: rec_ok_begin_put)
    then show ?thesis by (simp add: BeginRemoved)
  next
    case (BeginPut q path)
    then show ?thesis using r new rec_ok_stored[OF r, of q path] by simp
  next
    case (Calling n)
    have "rec_ok (startPolling (obj_upd n (\<lambda>t. t\<lparr>e_handle := h\<rparr>) s))" for h
      by (rule rec_ok_frame[OF frame_startPolling], rule rec_ok_obj_upd[OF _ r]) (simp add: core_def)
    then show ?thesis using r by (auto simp: Calling rec_ok_failed split: answer.split)
  next
    case (Listed b')
    then show ?thesis using rec_ok_quiet[OF quiet_fields(1) r] by simp
  next
    case LoadAll
    have "r_id ` set (map snd (transfers_db s)) \<subseteq> fst ` set (transfers_db s)"
      using rec_ok_db_ok[OF r] by (force simp: db_ok_def list_all_iff)
    also have "\<dots> \<subseteq> set (minted s) - set (new_ids s)"
      using r by (auto simp: rec_ok_def ids_ok_def old_ids_def)
    finally show ?thesis using r rec_ok_load_next[OF r, of "map snd (transfers_db s)"] rec_ok_load_next[OF r, of "[]"]
      by (auto simp: LoadAll split: answer.split)
  next
    case (LoadBlob q rest)
    note d = drop[OF r, of q rest]
    have "rec_ok (load_next rest (add_entry (new_entry Resumable (q\<lparr>r_bytes := len\<rparr>)) s))" for len
    proof (rule rec_ok_load_next)
      show "rec_ok (add_entry (new_entry Resumable (q\<lparr>r_bytes := len\<rparr>)) s)"
        by (rule rec_ok_add_resumable[OF r]) (use old dm in \<open>auto simp: LoadBlob\<close>)
    qed (use old in \<open>auto simp: LoadBlob new_ids_def\<close>)
    moreover have "rec_ok (await (LoadHeal q rest) s)"
      by (rule rec_ok_await[OF r]) (use old dm in \<open>auto simp: LoadBlob\<close>)
    ultimately show ?thesis using d old dm by (auto simp: LoadBlob load_offer_def split: option.split)
  next
    case (LoadHeal q rest)
    have "rec_ok (await (LoadDrop q rest) s)" by (rule drop[OF r]) (use old dm in \<open>auto simp: LoadHeal\<close>)
    moreover have "rec_ok (await (LoadDrop q rest) (unstage (r_staging q) s))"
      by (rule drop[OF un]) (use old dm in \<open>auto simp: LoadHeal\<close>)
    ultimately
    show ?thesis by (simp add: LoadHeal)
  next
    case (LoadDrop q rest)
    have "rec_ok (load_next rest (idbDelete (r_id q) s))"
    proof (rule rec_ok_load_next)
      show "rec_ok (idbDelete (r_id q) s)" by (rule rec_ok_delete[OF r]) (use old dm in \<open>auto simp: LoadDrop\<close>)
    qed (use old in \<open>auto simp: LoadDrop new_ids_def idbDelete_def core_tasks_def\<close>)
    with r show ?thesis by (simp add: LoadDrop)
  next
    case (DiscardDelete q)
    have "rec_ok (idbDelete (r_id q) s)" by (rule rec_ok_delete[OF r]) (use old dm in \<open>auto simp: DiscardDelete\<close>)
    then show ?thesis using r by (simp add: DiscardDelete rec_ok_quiet[OF quiet_await])
  next
    case (DiscardPoly q)
    then show ?thesis using r rec_ok_quiet[OF quiet_await r] by simp
  next
    case (DiscardRemove q)
    then show ?thesis using r un by simp
  next
    case (CleanRemove n)
    have n: "n \<in> fst ` set (handed s)" using cl by (simp add: CleanRemove)
    have "rec_ok (await (CleanDelete n) s)" by (rule rec_ok_await[OF r]) (simp_all add: n)
    moreover have "rec_ok (await (CleanDelete n) (unstage i s))" for i by (rule rec_ok_await[OF un]) (simp_all add: n)
    ultimately
    show ?thesis by (simp add: CleanRemove)
  next
    case (CleanDelete n)
    have n: "n \<in> fst ` set (handed s)" using cl by (simp add: CleanDelete)
    then have a: "active s n" using r unfolding rec_ok_def stored_ok_def by blast
    then have o: "rid s n \<in> old_ids s" by (force simp: rid_def old_ids_def active_def core_def)
    have "rec_ok (idbDelete (rid s n) s)"
    proof (rule rec_ok_delete[OF r])
      show "rid s n \<in> set (minted s)" "rid s n \<notin> set (new_ids s)" using o r by (auto simp: rec_ok_def ids_ok_def)
    next
      fix x assume x: "x \<in> live (transfers s)" "active s (snd x)" "snd x \<notin> fst ` set (handed s)"
      have i: "ids_ok s" using r by (simp add: rec_ok_def)
      then have "rid s (snd x) = fst x" using x(1) by (simp add: ids_ok_def)
      then show "fst x \<noteq> rid s n" using i x(2,3) n a by (metis ids_ok_def)
    qed
    with r show ?thesis by (simp add: CleanDelete rid_def)
  qed
qed

text \<open>The other events.\<close>

lemma rec_discard:
  assumes r: "rec_ok s" and n: "n < length (objs s)" "e_kind (objs s ! n) = Resumable"
  shows "rec_ok (discardResumable n s)"
proof -
  let ?q = "e_record (objs s ! n)" and ?s = "drop_row (e_record (objs s ! n)) s"
  have old: "r_id ?q \<in> old_ids s" using n by (force simp: old_ids_def core_def)
  have e: "new_ids ?s = new_ids s" "minted ?s = minted s" by (simp_all add: drop_row_def new_ids_def core_tasks_def)
  have "rec_ok (await (DiscardDelete ?q) ?s)"
  proof (rule rec_ok_await[OF rec_ok_drop_row[OF r]])
    show "task_old (DiscardDelete ?q) \<subseteq> set (minted ?s) - set (new_ids ?s)"
      using r old by (auto simp: rec_ok_def ids_ok_def e)
  qed (auto simp: drop_row_def live_delete)
  then show ?thesis by (simp add: discardResumable_def Let_def)
qed

lemma rec_tap_row:
  assumes r: "rec_ok s" and n: "n < length (objs s)" "a \<in> set (row_actions (session s) (objs s ! n))"
  shows "rec_ok (tap_row n a s)"
proof -
  have "rec_ok (drop_row q s)" for q by (rule rec_ok_drop_row[OF r])
  then have again: "rec_ok (begin_again q b (drop_row q' s))" "rec_ok ((drop_row q s)\<lparr>pickers := ps\<rparr>)" for q q' b ps
    by (auto intro: rec_ok_quiet quiet_begin_again quiet_fields)
  show ?thesis
  proof (cases a)
    case Discard
    then have "e_kind (objs s ! n) = Resumable" using n(2) by (auto simp: row_actions_def Let_def split: if_splits)
    then show ?thesis using rec_discard[OF r n(1)] by (simp add: tap_row_def Discard)
  qed (use r in \<open>auto simp: tap_row_def retryTransfer_def resumeDownload_def Let_def again
      intro: rec_ok_quiet[OF quiet_cancelTransfer]\<close>)
qed

lemma rec_tick_step:
  assumes r: "rec_ok s" and l: "loop_ok s" and k: "k \<in> set (ticks s)"
  shows "rec_ok (tick_step k b (s\<lparr>ticks := ks\<rparr>))"
proof -
  let ?s = "s\<lparr>ticks := ks\<rparr>"
  have s: "rec_ok ?s" by (rule rec_ok_frame[OF _ r]) (simp add: frame_def core_tasks_def)
  have on: "rec_ok (tick_on j a t)" if "rec_ok t" for j a t by (rule rec_ok_frame[OF frame_tick_on that])
  have w: "wait_ok s (tk_wait k)" using l k by (simp add: loop_ok_def hand_ok_def)
  have upd: "rec_ok ((obj_upd n f t)\<lparr>polled := ps\<rparr>)" if "\<And>t. core (f t) = core t" "rec_ok t" for n f ps t
  proof -
    have "rec_ok (obj_upd n f t)" by (rule rec_ok_obj_upd[OF that])
    then show ?thesis by (rule rec_ok_objs) (simp_all add: core_tasks_def)
  qed
  have tk: "rec_ok (t\<lparr>ticks := ks'\<rparr>)" if "rec_ok t" for t ks'
    by (rule rec_ok_frame[OF _ that]) (simp add: frame_def core_tasks_def)
  have "rec_ok (on_progress j n a p ?s)" for j n a p
    unfolding on_progress_def Let_def
    by (auto intro!: on upd tk rec_ok_obj_upd rec_ok_quiet[OF quiet_finish] s simp: core_def split: option.split)
  moreover have "rec_ok (hand_over n ?s)" if "tk_wait k = AwaitBlob n" for n
  proof (rule rec_ok_hand_over[OF s])
    show "active ?s n" using w that by (simp add: finished_download_def active_def)
  qed
  moreover have "rec_ok (s\<lparr>ticks := ks'\<rparr>)" for ks' by (rule tk[OF r])
  ultimately show ?thesis using s on
    by (auto simp: tick_step_def split: wait.split answer.split)
qed

lemma rec_step: "rec_ok s \<Longrightarrow> loop_ok s \<Longrightarrow> rec_ok (ui_step e s)"
proof (induction e s rule: ui_step.induct)
  case (1 ready s)
  have "rec_ok (startPolling (s\<lparr>session := ready, segments := [], labels := [], dropdownOpen := False\<rparr>))"
    by (rule rec_ok_frame[OF frame_startPolling], rule rec_ok_quiet[OF quiet_fields(7) 1(1)])
  then show ?case by (simp add: open_panel_def rec_ok_quiet[OF quiet_await])
next
  case (4 s)
  have "rec_ok (s\<lparr>dropdownOpen := b, visible := c\<rparr>)" for b c by (rule rec_ok_quiet[OF quiet_fields(3) 4(1)])
  then show ?case using 4 by (auto simp: toggleDropdown_def Let_def rec_ok_frame[OF frame_startPolling])
next
  case (11 k f proceed s)
  then show ?case by (auto intro: rec_ok_quiet[OF quiet_startUpload] rec_ok_quiet[OF quiet_fields(5)])
next
  case (13 n a s)
  then show ?case by (simp add: rec_tap_row)
next
  case (14 k b s)
  show ?case
  proof (cases "k < length (tasks s) \<and> possible (tasks s ! k) b s")
    case True
    note off = rec_ok_off[OF 14(1), of k]
    have [simp]: "minted (task_off k s) = minted s" "transfers (task_off k s) = transfers s" "handed (task_off k s) = handed s"
      "active (task_off k s) n = active s n" for n
      by (simp_all add: task_off_def active_def)
    have "possible t b (task_off k s) = possible t b s" for t by (cases t) (simp_all split: answer.split)
    then have "rec_ok (task_step (tasks s ! k) b (task_off k s))"
      using True off by (intro rec_task_step) simp_all
    with True show ?thesis by (simp add: task_off_def)
  qed (use 14 in auto)
next
  case (15 k b s)
  then show ?case by (auto simp: rec_tick_step)
next
  case (16 s)
  have "rec_ok (s\<lparr>timers := n\<rparr>)" for n by (rule rec_ok_frame[OF _ 16(1)]) (simp add: frame_def core_tasks_def)
  then show ?case using 16 by (simp add: rec_ok_frame[OF frame_tick_on])
next
  case (17 k s)
  show ?case
  proof (cases "k < length (cleanups s)")
    case True
    let ?s = "s\<lparr>cleanups := without k (cleanups s)\<rparr>"
    have s: "rec_ok ?s"
      by (rule rec_ok_objs[OF 17(1)]) (auto simp: core_tasks_def dest: in_without)
    have "cleanups s ! k \<in> clean_objs s" using nth_mem[OF True] by (simp add: clean_objs_def)
    then have "cleanups s ! k \<in> fst ` set (handed s)" using 17(1) by (auto simp: rec_ok_def stored_ok_def)
    then have "rec_ok (await (CleanRemove (cleanups s ! k)) ?s)" by (intro rec_ok_await[OF s]) simp_all
    with True show ?thesis by simp
  qed (use 17 in auto)
qed (auto intro: rec_ok_quiet quiet_fields quiet_refreshListing quiet_navigate quiet_confirm quiet_startUpload)

lemma rec_run: "db_ok db \<Longrightarrow> rec_ok (ui_run es (fresh_page db files ids))"
proof -
  assume db: "db_ok db"
  have s0: "rec_ok (fresh_page db files ids)"
    using db by (auto simp: rec_ok_def ids_ok_def stored_ok_def fresh_page_def core_tasks_def new_ids_def old_ids_def
        clean_objs_def live_def active_def)
  show ?thesis unfolding ui_run_def by (rule panel.kept_run[OF panel.ok_start s0 rec_step])
qed

subsection \<open>After a reload\<close>

text \<open>The browser answers every pending request in turn.\<close>

definition drain :: "nat \<Rightarrow> tpage \<Rightarrow> tpage" where
  "drain m s = ui_run (replicate m (Settles 0 Done)) s"

lemma drain_simps [simp]: "drain 0 s = s" "drain (Suc m) s = drain m (ui_step (Settles 0 Done) s)"
  by (simp_all add: drain_def ui_run_def)

definition offered :: "tpage \<Rightarrow> transfer_record \<Rightarrow> bool" where
  "offered s r \<longleftrightarrow> (\<exists>n < length (objs s). (r_id r, n) \<in> live (transfers s) \<and> objs s ! n = new_entry Resumable r)"

definition complete :: "transfer_record \<Rightarrow> nat \<Rightarrow> bool" where
  "complete r len \<longleftrightarrow> (case r_total r of None \<Rightarrow> False | Some n \<Rightarrow> n \<le> len)"

lemma offered_add:
  "offered s r \<Longrightarrow> r_id (e_record e) \<noteq> r_id r \<Longrightarrow> offered (add_entry e s) r"
  "offered (add_entry (new_entry Resumable r) s) r"
  by (force simp: offered_def nth_append intro: less_SucI)+

lemma listed_stuck: "tasks s = [Listed b] \<Longrightarrow> drain m s = s"
  by (induction m) simp_all

lemma idle_stuck: "tasks s = [] \<Longrightarrow> drain m s = s"
  by (induction m) simp_all

lemma offered_end: "tasks s = [] \<Longrightarrow> offered s r \<Longrightarrow> offered (drain m (load_end s)) r"
proof -
  assume s: "tasks s = []" "offered s r"
  have "tasks (load_end s) = [] \<or> tasks (load_end s) = [Listed True]"
    using s(1) by (auto simp: load_end_def refreshListing_def await_def call_def split: option.split)
  moreover have "offered (load_end s) r" using s(2) quiet_refreshListing[of s True]
    by (simp add: load_end_def offered_def quiet_def frame_def)
  ultimately show ?thesis using listed_stuck idle_stuck by metis
qed

text \<open>Working through the records: the ones before do not touch this one's file, the ones after do not
  touch its row.\<close>

lemma load_offers:
  assumes "3 * length rs \<le> m" and "tasks s = []" and "distinct (map r_id rs)"
    and "staged_files s (r_staging r) = Some len" and "\<not> complete r len"
    and "\<forall>q \<in> set rs. r_staging q = r_staging r \<longrightarrow> r_total q = r_total r"
    and "offered s (r\<lparr>r_bytes := Some len\<rparr>) \<and> r_id r \<notin> r_id ` set rs \<or>
      r \<in> set rs \<and> r_direction r = Download \<and> \<not> tmap_has (r_id r) (transfers s)"
  shows "offered (drain m (load_next rs s)) (r\<lparr>r_bytes := Some len\<rparr>)"
  using assms
proof (induction rs arbitrary: m s)
  case Nil
  then show ?case by (simp add: offered_end)
next
  case (Cons q rest)
  let ?r = "r\<lparr>r_bytes := Some len\<rparr>"
  have m: "m = Suc (Suc (Suc (m - 3)))" "3 * length rest \<le> m - 3" using Cons.prems(1) by simp_all
  have idle: "s\<lparr>tasks := []\<rparr> = s" using Cons.prems(2) by (cases s) simp
  have settle: "ui_step (Settles 0 Done) (await t s') = task_step t Done s'"
    if "tasks s' = []" "possible t Done s'" for t s'
  proof -
    have e: "s'\<lparr>tasks := []\<rparr> = s'" using that(1) by (cases s') simp
    have "possible t Done (await t s') = possible t Done s'" by (cases t) simp_all
    then have "ui_step (Settles 0 Done) (await t s') = task_step t Done (s'\<lparr>tasks := []\<rparr>)"
      using that by (simp add: await_def without_def)
    then show ?thesis unfolding e .
  qed
  have next_one: "offered (drain k (load_next rest s')) ?r"
    if "3 * length rest \<le> k" "tasks s' = []" "staged_files s' (r_staging r) = Some len"
      "q \<noteq> r \<and> objs s' = objs s \<and> transfers s' = transfers s \<or>
       s' = add_entry (new_entry Resumable (q\<lparr>r_bytes := staged_files s (r_staging q)\<rparr>)) s" for k s'
  proof (rule Cons.IH[OF that(1,2) _ that(3) Cons.prems(5)])
    show "distinct (map r_id rest)" "\<forall>q \<in> set rest. r_staging q = r_staging r \<longrightarrow> r_total q = r_total r"
      using Cons.prems by auto
    show "offered s' ?r \<and> r_id r \<notin> r_id ` set rest \<or>
      r \<in> set rest \<and> r_direction r = Download \<and> \<not> tmap_has (r_id r) (transfers s')"
    proof (cases "q = r")
      case True
      then show ?thesis using that(4) Cons.prems(3,4) offered_add(2)[of ?r s] by auto
    next
      case False
      show ?thesis
      proof (cases "offered s ?r \<and> r_id r \<notin> r_id ` set (q # rest)")
        case True
        then show ?thesis using that(4) offered_add(1)[of s ?r] by (auto simp: offered_def)
      next
        case other: False
        then have "r \<in> set rest" "r_direction r = Download" "\<not> tmap_has (r_id r) (transfers s)"
          using Cons.prems(7) False by auto
        moreover from this have "r_id q \<noteq> r_id r" using Cons.prems(3) by auto
        ultimately show ?thesis using that(4) by (auto simp: tmap_has_live)
      qed
    qed
  qed
  consider (skip) "r_direction q \<noteq> Download \<or> tmap_has (r_id q) (transfers s)"
    | (gone) "load_next (q # rest) s = await (LoadBlob q rest) s" "staged_files s (r_staging q) = None"
    | (there) l where "load_next (q # rest) s = await (LoadBlob q rest) s" "staged_files s (r_staging q) = Some l"
    by (cases "r_direction q \<noteq> Download \<or> tmap_has (r_id q) (transfers s)"; cases "staged_files s (r_staging q)") simp_all
  then show ?case
  proof cases
    case skip
    then have "q \<noteq> r" using Cons.prems(7) by auto
    then show ?thesis using skip m next_one[of m s] Cons.prems by simp
  next
    case gone
    then have "q \<noteq> r" using Cons.prems(4) by auto
    have "ui_step (Settles 0 Done) (load_next (q # rest) s) = await (LoadDrop q rest) s"
      using gone settle[of s "LoadBlob q rest"] Cons.prems(2) by simp
    moreover have "ui_step (Settles 0 Done) (await (LoadDrop q rest) s) = load_next rest (idbDelete (r_id q) s)"
      using settle[of s "LoadDrop q rest"] Cons.prems(2) by simp
    moreover have "offered (drain (Suc (m - 3)) (load_next rest (idbDelete (r_id q) s))) ?r"
      by (rule next_one) (use \<open>q \<noteq> r\<close> m Cons.prems in \<open>simp_all add: idbDelete_def\<close>)
    ultimately show ?thesis by (subst m(1)) (simp del: load_next.simps)
  next
    case (there l)
    show ?thesis
    proof (cases "complete q l")
      case True
      let ?u = "unstage (r_staging q) s"
      have keep: "r_staging q \<noteq> r_staging r" using True there(2) Cons.prems(4-6) by (auto simp: complete_def)
      have u: "tasks ?u = []" using Cons.prems(2) by (simp add: unstage_def)
      have "ui_step (Settles 0 Done) (load_next (q # rest) s) = await (LoadHeal q rest) s"
        using there True settle[of s "LoadBlob q rest"] Cons.prems(2) by (simp add: load_offer_def complete_def)
      moreover have "ui_step (Settles 0 Done) (await (LoadHeal q rest) s) = await (LoadDrop q rest) ?u"
        using settle[of s "LoadHeal q rest"] Cons.prems(2) by simp
      moreover have "ui_step (Settles 0 Done) (await (LoadDrop q rest) ?u) = load_next rest (idbDelete (r_id q) ?u)"
        using settle[OF u, of "LoadDrop q rest"] by simp
      moreover have "offered (drain (m - 3) (load_next rest (idbDelete (r_id q) ?u))) ?r"
        by (rule next_one) (use keep m Cons.prems in \<open>auto simp: idbDelete_def unstage_def\<close>)
      ultimately show ?thesis by (subst m(1)) (simp del: load_next.simps)
    next
      case False
      let ?a = "add_entry (new_entry Resumable (q\<lparr>r_bytes := Some l\<rparr>)) s"
      have "ui_step (Settles 0 Done) (load_next (q # rest) s) = load_next rest ?a"
        using there False settle[of s "LoadBlob q rest"] Cons.prems(2) by (simp add: load_offer_def complete_def)
      moreover have "offered (drain (Suc (Suc (m - 3))) (load_next rest ?a)) ?r"
        by (rule next_one) (use there m Cons.prems in \<open>simp_all add: add_entry_def\<close>)
      ultimately show ?thesis by (subst m(1)) (simp del: load_next.simps)
    qed
  qed
qed

text \<open>The panel of a freshly loaded page is opened and the browser answers.\<close>

definition reload_and_open :: "bool \<Rightarrow> (jstr \<Rightarrow> nat option) \<Rightarrow> tpage \<Rightarrow> tpage" where
  "reload_and_open ready files s =
     drain (Suc (3 * length (transfers_db s)))
       (ui_step (OpenPanel ready) (fresh_page (transfers_db s) files (minted s)))"

text \<open>C9: A running download survives a reload. On every run of the panel, a download that is listed as
  active and was not yet handed over is in the database exactly as it was started, with the byte path
  and the staging id its sink writes to, whatever other transfers are resumed, retried, discarded or
  cleaned up meanwhile and in whatever order the browser answers. So after a reload at any moment,
  opening the panel offers it again, with the staged length, if its file is there and short of the total.\<close>

theorem running_download_resumable:
  assumes "db_ok db" and "s = ui_run es (fresh_page db files ids)" and "Some (i, n) \<in> set (transfers s)"
    and "e_kind (objs s ! n) = Active" and "r = e_record (objs s ! n)" and "r_direction r = Download"
    and "n \<notin> fst ` set (handed s)"
  shows "r_id r = i \<and> idb_get i (transfers_db s) = Some r \<and>
    (\<forall>len. kept (r_staging r) = Some len \<and> \<not> complete r len \<and>
       list_all (\<lambda>q. r_staging (snd q) = r_staging r \<longrightarrow> r_total (snd q) = r_total r) (transfers_db s) \<longrightarrow>
       offered (reload_and_open ready kept s) (r\<lparr>r_bytes := Some len\<rparr>))"
proof -
  have ok: "rec_ok s" using rec_run[OF assms(1)] by (simp add: assms(2))
  have x: "(i, n) \<in> live (transfers s)" using assms(3) by (simp add: in_live)
  then have n: "n < length (objs s)" "r_id r = i" using ok by (auto simp: rec_ok_def ids_ok_def rid_def assms(5))
  have "row_stored s (i, n)" using ok x by (simp add: rec_ok_def stored_ok_def)
  then have get: "idb_get i (transfers_db s) = Some r"
    using n(1) assms(4,6,7) by (simp add: row_stored_def active_def assms(5))
  have db: "db_ok (transfers_db s)" by (rule rec_ok_db_ok[OF ok])
  then have ids: "map r_id (map snd (transfers_db s)) = map fst (transfers_db s)"
    by (simp add: db_ok_def list_all_iff)
  have mem: "(i, r) \<in> set (transfers_db s)" using get db by (simp add: idb_get_mem db_ok_def)
  have "offered (reload_and_open ready kept s) (r\<lparr>r_bytes := Some len\<rparr>)"
    if len: "kept (r_staging r) = Some len" "\<not> complete r len"
      and same: "list_all (\<lambda>q. r_staging (snd q) = r_staging r \<longrightarrow> r_total (snd q) = r_total r) (transfers_db s)" for len
  proof -
    let ?p = "(fresh_page (transfers_db s) kept (minted s))\<lparr>session := ready\<rparr>" and ?rs = "map snd (transfers_db s)"
    have "ui_step (OpenPanel ready) (fresh_page (transfers_db s) kept (minted s)) = await LoadAll ?p"
      by (simp add: open_panel_def startPolling_def tick_on_def next_handle_def fresh_page_def List.map_filter_def)
    moreover have "ui_step (Settles 0 Done) (await LoadAll ?p) = load_next ?rs ?p"
      by (simp add: await_def without_def fresh_page_def)
    moreover have "offered (drain (3 * length (transfers_db s)) (load_next ?rs ?p)) (r\<lparr>r_bytes := Some len\<rparr>)"
    proof (rule load_offers)
      show "distinct (map r_id ?rs)" using db by (simp only: ids db_ok_def idb_ok_distinct)
      show "\<forall>q \<in> set ?rs. r_staging q = r_staging r \<longrightarrow> r_total q = r_total r" using same by (simp add: list_all_iff)
      have "r \<in> set ?rs" using mem by force
      then show "offered ?p (r\<lparr>r_bytes := Some len\<rparr>) \<and> r_id r \<notin> r_id ` set ?rs \<or>
          r \<in> set ?rs \<and> r_direction r = Download \<and> \<not> tmap_has (r_id r) (transfers ?p)"
        using assms(6) by (simp add: fresh_page_def tmap_has_live live_def)
    qed (use len in \<open>simp_all add: fresh_page_def\<close>)
    ultimately show ?thesis by (simp add: reload_and_open_def)
  qed
  with n(2) get show ?thesis by blast
qed

text \<open>A download just begun, the page reloaded with three of its five bytes on disk.\<close>

lemma running_download_resumable_witness:
  "let s = ui_run (take 6 one_download) (fresh_page [] (\<lambda>_. None) []) in
    idb_get [1] (transfers_db s) = Some (e_record (objs s ! 0)) \<and>
    offered (reload_and_open True ((\<lambda>_. None)([2] \<mapsto> 3)) s) ((e_record (objs s ! 0))\<lparr>r_bytes := Some 3\<rparr>)"
proof -
  define s where "s = ui_run (take 6 one_download) (fresh_page [] (\<lambda>_. None) [])"
  let ?r = "e_record (objs s ! 0)"
  have s: "transfers s = [Some ([1], 0)]" "e_kind (objs s ! 0) = Active" "r_direction ?r = Download" "handed s = []"
    "r_staging ?r = [2]" "r_total ?r = Some 5" "transfers_db s = [([1], ?r)]"
    by (simp_all add: s_def ui_run_def one_download_def ui_eval)
  have "db_ok []" by (simp add: db_ok_def idb_ok_def)
  from running_download_resumable[OF this s_def, of "[1]" 0 ?r "(\<lambda>_. None)([2] \<mapsto> 3)" True]
  have "idb_get [1] (transfers_db s) = Some ?r \<and>
      offered (reload_and_open True ((\<lambda>_. None)([2] \<mapsto> 3)) s) (?r\<lparr>r_bytes := Some 3\<rparr>)"
    by (simp add: s complete_def)
  then show ?thesis by (simp add: s_def Let_def)
qed

subsection \<open>Two ways it goes wrong\<close>

text \<open>The rows stay on screen until the new listing arrives, while the path has already changed: a second
  tap on the same directory row goes down a directory that was never listed.\<close>

definition tapped_dir :: dir_entry where
  "tapped_dir = \<lparr>de_name = [0x64], de_display = js ''d'', de_dir = True, de_size = None\<rparr>"

lemma double_tap_descends_twice:
  "calls (ui_run [OpenPanel True, Settles 0 Done, Settles 0 (Rows [tapped_dir]), TapDir tapped_dir, TapDir tapped_dir]
     (fresh_page [] (\<lambda>_. None) [])) = [ListDir [0x2E], ListDir [0x64], ListDir [0x64, 0x2F, 0x64]]"
  by (simp add: ui_run_def ui_eval tapped_dir_def descend_def)

text \<open>Resuming leaves the old record in the database: opening the panel again offers the same staged file a
  second time while it is being written.\<close>

definition interrupted :: transfer_record where
  "interrupted = \<lparr>r_id = [1], r_direction = Download, r_label = js ''a'', r_segments = [[0x61]], r_staging = [2],
     r_total = Some 5, r_overwrite = False, r_meta = None, r_bytes = None\<rparr>"

lemma resumed_download_offered_again:
  "let s = ui_run [OpenPanel True, Settles 0 Done, Settles 0 Done, Settles 0 (Rows []), Tap 0 ResumeIt,
      Settles 0 (Ids [3] [4]), Settles 0 Done, Settles 0 (Handle 7), OpenPanel True, Settles 0 Done, Settles 0 Done]
      (fresh_page [([1], interrupted)] ((\<lambda>_. None)([2] \<mapsto> 3)) [])
   in transfers s = [None, Some ([3], 1), Some ([1], 2)] \<and>
      e_kind (objs s ! 1) = Active \<and> e_kind (objs s ! 2) = Resumable \<and>
      r_staging (e_record (objs s ! 1)) = r_staging (e_record (objs s ! 2))"
  by (simp add: ui_run_def ui_eval interrupted_def row_actions_def tap_row_def resumeDownload_def begin_again_def
      drop_row_def tmap_delete_def load_offer_def tick_step_def)

end
