(* ===== verification/Passkey.thy ===== *)
theory Passkey
  imports Prelude "HOL-Library.Word"
begin

text \<open>
  \<^verbatim>\<open>site/passkey-store.ts\<close>: the signature conversion with JavaScript's index and 32-bit rules, and the
  record of the enrolled passkey with the operations of the WIT interface. WebCrypto's verification and
  SHA-256, the host name and the browser's ceremony are parameters.
\<close>

unbundle bit_operations_syntax

subsection \<open>From DER to raw\<close>

text \<open>\<open>der[i]\<close>: undefined (None) outside the array; a bitwise operation reads undefined as 0.\<close>

definition byte_of :: "bytes \<Rightarrow> int \<Rightarrow> nat option" where
  "byte_of der i = (if 0 \<le> i \<and> i < int (length der) then Some (unat (der ! nat i)) else None)"

text \<open>\<open>der.subarray(b, e)\<close> with its relative indices.\<close>

definition rel_index :: "nat \<Rightarrow> int \<Rightarrow> nat" where
  "rel_index n i = (if i < 0 then nat (int n + i) else min n (nat i))"

definition subarray :: "bytes \<Rightarrow> int \<Rightarrow> int \<Rightarrow> bytes" where
  "subarray der b e =
     (let b' = rel_index (length der) b in take (rel_index (length der) e - b') (drop b' der))"

text \<open>The loop of the long form, in signed 32-bit arithmetic.\<close>

fun long_len :: "bytes \<Rightarrow> nat \<Rightarrow> int \<Rightarrow> 32 word \<Rightarrow> 32 word" where
  "long_len der 0 off acc = acc"
| "long_len der (Suc n) off acc =
     long_len der n (off + 1)
       (push_bit 8 acc OR (case byte_of der off of None \<Rightarrow> 0 | Some b \<Rightarrow> of_nat b))"

text \<open>A length and the offset behind it. None where the length byte is undefined: every use then compares
  or indexes with NaN and fails.\<close>

definition read_len :: "bytes \<Rightarrow> int \<Rightarrow> (int \<times> int) option" where
  "read_len der off =
     (case byte_of der off of
        None \<Rightarrow> None
      | Some b \<Rightarrow>
         if b AND 0x80 \<noteq> 0
         then (let nBytes = b AND 0x7F
               in Some (sint (long_len der nBytes (off + 1) 0), off + 1 + int nBytes))
         else Some (int b, off + 1))"

definition readInt :: "bytes \<Rightarrow> int \<Rightarrow> (bytes \<times> int) option" where
  "readInt der off =
     (if byte_of der off \<noteq> Some 0x02 then None
      else (case read_len der (off + 1) of
              None \<Rightarrow> None
            | Some (len, off2) \<Rightarrow> Some (subarray der off2 (off2 + len), off2 + len)))"

text \<open>\<open>fit32\<close>: strip leading zeros while too long, pad on the left.\<close>

function strip_guard :: "bytes \<Rightarrow> bytes" where
  "strip_guard x = (if length x > 32 \<and> hd x = 0 then strip_guard (tl x) else x)"
  by pat_completeness auto
termination by (relation "measure length") auto

declare strip_guard.simps [simp del]

definition fit32 :: "bytes \<Rightarrow> bytes option" where
  "fit32 b = (let x = strip_guard b in if length x > 32 then None else Some (replicate (32 - length x) 0 @ x))"

definition derToRawEcdsaSignature :: "bytes \<Rightarrow> bytes option" where
  "derToRawEcdsaSignature der =
     (if byte_of der 0 \<noteq> Some 0x30 then None
      else case read_len der 1 of
        None \<Rightarrow> None
      | Some (seqLen, off) \<Rightarrow>
         if off + seqLen \<noteq> int (length der) then None
         else case readInt der off of
           None \<Rightarrow> None
         | Some (r, off1) \<Rightarrow>
            (case readInt der off1 of
               None \<Rightarrow> None
             | Some (s, off2) \<Rightarrow>
                if off2 \<noteq> int (length der) then None
                else (case fit32 r of
                        None \<Rightarrow> None
                      | Some r32 \<Rightarrow> (case fit32 s of None \<Rightarrow> None | Some s32 \<Rightarrow> Some (r32 @ s32)))))"

lemma length_fit32: "fit32 b = Some x \<Longrightarrow> length x = 32"
  by (auto simp: fit32_def Let_def split: if_splits)

lemma length_raw: "derToRawEcdsaSignature der = Some raw \<Longrightarrow> length raw = 64"
  by (auto simp: derToRawEcdsaSignature_def dest!: length_fit32 split: if_splits option.splits prod.splits)

text \<open>The encoding an authenticator sends: both numbers without leading zeros but for the one that keeps
  them positive, in the short form.\<close>

definition positive :: "bytes \<Rightarrow> bytes" where
  "positive x = (if x = [] \<or> 0x80 \<le> hd x then 0 # x else x)"

definition der_integer :: "bytes \<Rightarrow> bytes" where
  "der_integer b =
     (let y = positive (dropWhile (\<lambda>c. c = 0) b) in 0x02 # of_nat (length y) # y)"

definition der_signature :: "bytes \<Rightarrow> bytes \<Rightarrow> bytes" where
  "der_signature r s = (let body = der_integer r @ der_integer s in 0x30 # of_nat (length body) # body)"

lemma byte_of_append [simp]:
  "byte_of (pre @ c # post) (int (length pre)) = Some (unat c)"
  "byte_of (pre @ c # d # post) (int (length pre) + 1) = Some (unat d)"
  by (simp_all add: byte_of_def nth_append nat_add_distrib)

lemma unat_len: "n < 128 \<Longrightarrow> unat (of_nat n :: 8 word) = n"
  by (simp add: unat_of_nat)

lemma short_form: "byte_of der off = Some b \<Longrightarrow> b < 128 \<Longrightarrow> read_len der off = Some (int b, off + 1)"
proof -
  assume b: "byte_of der off = Some b" "b < 128"
  have "take_bit 7 b = b" using b(2) by (simp add: take_bit_nat_eq_self)
  then have "b AND 2 ^ 7 = take_bit 7 b AND 2 ^ 7" by simp
  also have "\<dots> = 0" by (intro bit_eqI) (auto simp only: bit_and_iff bit_take_bit_iff bit_exp_iff bit_0_eq bot_apply bot_bool_def)
  finally have "b AND 0x80 = 0" by simp
  with b show ?thesis by (simp add: read_len_def)
qed

lemma subarray_middle: "subarray (pre @ y @ post) (int (length pre)) (int (length pre) + int (length y)) = y"
  by (simp add: subarray_def rel_index_def Let_def nat_add_distrib)

lemma readInt_der:
  assumes "length y < 128"
  shows "readInt (pre @ 0x02 # of_nat (length y) # y @ post) (int (length pre)) = Some (y, int (length pre) + 2 + int (length y))"
proof -
  let ?der = "pre @ 0x02 # of_nat (length y) # y @ post"
  have "byte_of ?der (int (length pre) + 1) = Some (length y)" using assms by (simp add: unat_len)
  from short_form[OF this assms] have l: "read_len ?der (int (length pre) + 1) = Some (int (length y), int (length pre) + 2)"
    by simp
  have "subarray ?der (int (length pre) + 2) (int (length pre) + 2 + int (length y)) = y"
    using subarray_middle[of "pre @ [0x02, of_nat (length y)]" y post] by (simp add: add.commute add.left_commute)
  then show ?thesis by (simp add: readInt_def l)
qed

lemma split_zeros: "b = replicate (length b - length (dropWhile (\<lambda>c. c = 0) b)) 0 @ dropWhile (\<lambda>c. c = 0) b"
proof (induction b)
  case (Cons c b)
  have "length (dropWhile (\<lambda>c. c = 0) b) \<le> length b" by (rule length_dropWhile_le)
  then show ?case using Cons by (simp add: Suc_diff_le)
qed simp

lemma fit32_positive:
  assumes "length b = 32"
  shows "fit32 (positive (dropWhile (\<lambda>c. c = 0) b)) = Some b" "length (positive (dropWhile (\<lambda>c. c = 0) b)) \<le> 33"
proof -
  let ?x = "dropWhile (\<lambda>c. c = 0) b"
  have l: "length ?x \<le> 32" using assms length_dropWhile_le[of "\<lambda>c. c = 0" b] by simp
  have b: "b = replicate (32 - length ?x) 0 @ ?x" using split_zeros[of b] by (simp add: assms)
  have stop: "strip_guard y = y" if "length y \<le> 32" for y using that by (simp add: strip_guard.simps)
  have "replicate (31 - length ?x) 0 @ 0 # ?x = replicate (32 - length ?x) 0 @ ?x" if "length ?x \<le> 31"
  proof -
    have "32 - length ?x = (31 - length ?x) + 1" using that by simp
    then show ?thesis by (simp only: replicate_add) simp
  qed
  moreover have "strip_guard (0 # ?x) = ?x" if "length ?x = 32"
    using that by (simp add: strip_guard.simps[of "0 # ?x"] stop)
  ultimately show "fit32 (positive ?x) = Some b"
    using l b by (cases "length ?x = 32") (auto simp: fit32_def positive_def Let_def stop)
  show "length (positive ?x) \<le> 33" using l by (simp add: positive_def)
qed

lemma der_roundtrip:
  assumes "length r = 32" and "length s = 32"
  shows "derToRawEcdsaSignature (der_signature r s) = Some (r @ s)"
proof -
  let ?r = "positive (dropWhile (\<lambda>c. c = 0) r)" and ?s = "positive (dropWhile (\<lambda>c. c = 0) s)"
  have l: "length ?r \<le> 33" "length ?s \<le> 33" using fit32_positive(2) assms by blast+
  let ?body = "der_integer r @ der_integer s"
  have body: "?body = 0x02 # of_nat (length ?r) # ?r @ 0x02 # of_nat (length ?s) # ?s"
    by (simp add: der_integer_def Let_def)
  have n: "length ?body = length ?r + length ?s + 4" by (simp add: body)
  let ?der = "0x30 # of_nat (length ?body) # ?body"
  define k where "k = length ?body"
  have k: "k < 128" using l n by (simp add: k_def)
  have "byte_of ?der 1 = Some (length ?body)"
    using unat_len[OF k] unfolding k_def by (simp add: byte_of_def del: length_append of_nat_add)
  from short_form[OF this k[unfolded k_def]] have seq: "read_len ?der 1 = Some (int (length ?body), 2)"
    by (simp only: one_add_one)
  have r: "readInt ?der 2 = Some (?r, 4 + int (length ?r))"
    using readInt_der[of ?r "[0x30, of_nat (length ?body)]" "0x02 # of_nat (length ?s) # ?s"] l by (simp add: body)
  have s: "readInt ?der (4 + int (length ?r)) = Some (?s, 6 + int (length ?r) + int (length ?s))"
    using readInt_der[of ?s "[0x30, of_nat (length ?body), 0x02, of_nat (length ?r)] @ ?r" "[]"] l by (simp add: body algebra_simps)
  have zero: "byte_of ?der 0 = Some 0x30" by (simp add: byte_of_def)
  define d where "d = ?der"
  note facts = zero[folded d_def] seq[folded d_def k_def] r[folded d_def] s[folded d_def]
  have "length d = k + 2" by (simp add: d_def k_def)
  moreover have "k = length ?r + length ?s + 4" using n by (simp only: k_def)
  ultimately have "derToRawEcdsaSignature d = Some (r @ s)"
    using fit32_positive(1)[OF assms(1)] fit32_positive(1)[OF assms(2)]
    by (simp add: derToRawEcdsaSignature_def facts)
  then show ?thesis by (simp add: der_signature_def Let_def d_def)
qed

text \<open>C33: Signatures are converted exactly. A raw signature that comes out always has 64 bytes, whatever
  came in; and the DER encoding of any two 32-byte numbers converts to these numbers side by side.\<close>

theorem der_to_raw_exact:
  assumes "length r = 32" and "length s = 32"
  shows "derToRawEcdsaSignature (der_signature r s) = Some (r @ s) \<and>
    (\<forall>der raw. derToRawEcdsaSignature der = Some raw \<longrightarrow> length raw = 64)"
  using der_roundtrip[OF assms] length_raw by blast

lemma der_to_raw_exact_witness:
  "derToRawEcdsaSignature (der_signature (replicate 31 0 @ [0x81]) (replicate 32 0x7F)) =
   Some (replicate 31 0 @ [0x81] @ replicate 32 0x7F)"
  using der_to_raw_exact[of "replicate 31 0 @ [0x81]" "replicate 32 0x7F"] by simp

subsection \<open>The stored record\<close>

record passkey_record =
  pk_credentialId :: "bytes option"
  pk_publicKey :: bytes
  pk_rpId :: jstr
  pk_transports :: "jstr list option"

text \<open>What the object store holds under the key: nothing, something else, or a record.\<close>

datatype stored_value = NoValue | OddValue | RecordValue passkey_record

record passkeys =
  pk_db :: stored_value
  memRecord :: "passkey_record option"

text \<open>How the database behaves for one operation: it does not open, its request fails, or it works.\<close>

datatype db_state = Closed | Broken jstr | Working

text \<open>\<open>errArm\<close>\<close>

definition pk_err :: "jstr \<Rightarrow> jstr \<Rightarrow> jstr" where
  "pk_err what e = what @ js '': '' @ e"

definition usable_record :: "stored_value \<Rightarrow> passkey_record option" where
  "usable_record v =
     (case v of RecordValue r \<Rightarrow> if length (pk_publicKey r) = 65 then Some r else None | _ \<Rightarrow> None)"

definition loadRecord :: "db_state \<Rightarrow> passkeys \<Rightarrow> jstr + passkey_record option" where
  "loadRecord d s =
     (case d of
        Closed \<Rightarrow> Inr (memRecord s)
      | Broken e \<Rightarrow> Inl e
      | Working \<Rightarrow> Inr (usable_record (pk_db s)))"

text \<open>\<open>saveRecord\<close> and \<open>clearRecord\<close>: the error of the transaction, if any, and the new state.\<close>

definition saveRecord :: "db_state \<Rightarrow> passkey_record \<Rightarrow> passkeys \<Rightarrow> jstr option \<times> passkeys" where
  "saveRecord d r s =
     (case d of
        Closed \<Rightarrow> (None, s\<lparr>memRecord := Some r\<rparr>)
      | Broken e \<Rightarrow> (Some e, s)
      | Working \<Rightarrow> (None, s\<lparr>pk_db := RecordValue r\<rparr>))"

definition clearRecord :: "db_state \<Rightarrow> passkeys \<Rightarrow> jstr option \<times> passkeys" where
  "clearRecord d s =
     (case d of
        Closed \<Rightarrow> (None, s\<lparr>memRecord := None\<rparr>)
      | Broken e \<Rightarrow> (Some e, s)
      | Working \<Rightarrow> (None, s\<lparr>pk_db := NoValue\<rparr>))"

subsection \<open>Ceremonies\<close>

text \<open>WebCrypto: importing a raw public key (None, or the error), the raw form of an SPKI key, SHA-256, and
  ECDSA verification.\<close>

record webcrypto =
  wc_import :: "bytes \<Rightarrow> jstr option"
  wc_export :: "bytes \<Rightarrow> jstr + bytes"
  wc_sha256 :: "bytes \<Rightarrow> bytes"
  wc_verify :: "bytes \<Rightarrow> bytes \<Rightarrow> bytes \<Rightarrow> bool"

record assertion =
  a_rawId :: bytes
  a_authenticatorData :: bytes
  a_clientDataJSON :: bytes
  a_signature :: bytes
  a_platform :: bool

definition verifyAssertion :: "webcrypto \<Rightarrow> bytes \<Rightarrow> assertion \<Rightarrow> jstr + bool" where
  "verifyAssertion wc publicKey a =
     (case wc_import wc publicKey of
        Some e \<Rightarrow> Inl e
      | None \<Rightarrow>
         (let signedOver = a_authenticatorData a @ wc_sha256 wc (a_clientDataJSON a) in
          case derToRawEcdsaSignature (a_signature a) of
            None \<Rightarrow> Inr False
          | Some raw \<Rightarrow> Inr (wc_verify wc publicKey raw signedOver)))"

text \<open>\<open>maybeGate\<close>: whether the page asks for a tap first, from \<open>userActivation?.isActive\<close>.\<close>

definition maybeGate :: "bool option \<Rightarrow> bool \<Rightarrow> bool" where
  "maybeGate isActive gate_installed \<longleftrightarrow> isActive = Some False \<and> gate_installed"

text \<open>\<open>allowCredentials\<close> of a later ceremony.\<close>

definition allow_credentials :: "passkey_record \<Rightarrow> (bytes \<times> jstr list) list" where
  "allow_credentials r =
     (case pk_credentialId r of
        None \<Rightarrow> []
      | Some i \<Rightarrow> [(i, case pk_transports r of None \<Rightarrow> [] | Some ts \<Rightarrow> ts)])"

subsection \<open>The operations\<close>

definition identity :: "db_state \<Rightarrow> passkeys \<Rightarrow> jstr + (bytes \<times> jstr) option" where
  "identity d s =
     (case loadRecord d s of
        Inl e \<Rightarrow> Inl (pk_err (js ''passkey identity'') e)
      | Inr r \<Rightarrow> Inr (map_option (\<lambda>r. (pk_publicKey r, pk_rpId r)) r))"

text \<open>A new credential: its id, its SPKI public key if the browser gives one, and its transports.\<close>

type_synonym creation = "bytes \<times> bytes option \<times> jstr list option"

definition save_as :: "jstr \<Rightarrow> db_state \<Rightarrow> passkey_record \<Rightarrow> 'a \<Rightarrow> passkeys \<Rightarrow> (jstr + 'a) \<times> passkeys" where
  "save_as what d r v s =
     (case saveRecord d r s of (Some e, t) \<Rightarrow> (Inl (pk_err what e), t) | (None, t) \<Rightarrow> (Inr v, t))"

definition enroll :: "webcrypto \<Rightarrow> jstr \<Rightarrow> db_state \<Rightarrow> jstr + creation option \<Rightarrow> passkeys \<Rightarrow> (jstr + (bytes \<times> jstr)) \<times> passkeys" where
  "enroll wc hostname d made s =
     (let what = js ''passkey enroll'' in
      case made of
        Inl e \<Rightarrow> (Inl (pk_err what e), s)
      | Inr None \<Rightarrow> (Inl (pk_err what (js ''no credential returned'')), s)
      | Inr (Some (rawId, spki, transports)) \<Rightarrow>
         (case spki of
            None \<Rightarrow> (Inl (pk_err what (js ''authenticator did not return a public key (getPublicKey unsupported or credential not ES256)'')), s)
          | Some k \<Rightarrow>
             (case wc_export wc k of
                Inl e \<Rightarrow> (Inl (pk_err what e), s)
              | Inr publicKey \<Rightarrow>
                 save_as what d
                   \<lparr>pk_credentialId = Some rawId, pk_publicKey = publicKey, pk_rpId = hostname,
                    pk_transports = (case transports of Some (t # ts) \<Rightarrow> Some (t # ts) | _ \<Rightarrow> None)\<rparr>
                   (publicKey, hostname) s)))"

definition wrong_site :: "jstr \<Rightarrow> jstr \<Rightarrow> jstr" where
  "wrong_site rp hostname =
     js ''passkey is scoped to '' @ [34] @ rp @ [34] @ js '', not this site ('' @ [34] @ hostname @ [34] @ js '')''"

definition adopt :: "webcrypto \<Rightarrow> jstr \<Rightarrow> db_state \<Rightarrow> bytes \<times> jstr \<Rightarrow> jstr + assertion option \<Rightarrow> passkeys \<Rightarrow> (jstr + unit) \<times> passkeys" where
  "adopt wc hostname d candidate got s =
     (let what = js ''passkey adopt'' in
      if snd candidate \<noteq> hostname then (Inl (pk_err what (wrong_site (snd candidate) hostname)), s)
      else case got of
        Inl e \<Rightarrow> (Inl (pk_err what e), s)
      | Inr None \<Rightarrow> (Inl (pk_err what (js ''no assertion returned'')), s)
      | Inr (Some a) \<Rightarrow>
         (case verifyAssertion wc (fst candidate) a of
            Inl e \<Rightarrow> (Inl (pk_err what e), s)
          | Inr False \<Rightarrow>
              (Inl (pk_err what (js ''the passkey selected does not match the claimed public key -- a different passkey was picked'')), s)
          | Inr True \<Rightarrow>
              save_as what d
                \<lparr>pk_credentialId = Some (a_rawId a), pk_publicKey = fst candidate, pk_rpId = snd candidate,
                 pk_transports = (if a_platform a then Some [js ''internal''] else None)\<rparr> () s))"

definition forget :: "db_state \<Rightarrow> passkeys \<Rightarrow> (jstr + unit) \<times> passkeys" where
  "forget d s =
     (case clearRecord d s of (Some e, t) \<Rightarrow> (Inl (pk_err (js ''passkey forget'') e), t) | (None, t) \<Rightarrow> (Inr (), t))"

definition remember :: "db_state \<Rightarrow> bytes \<times> jstr \<Rightarrow> bytes \<Rightarrow> passkeys \<Rightarrow> (jstr + unit) \<times> passkeys" where
  "remember d ident credentialId s =
     save_as (js ''passkey remember'') d
       \<lparr>pk_credentialId = Some credentialId, pk_publicKey = fst ident, pk_rpId = snd ident, pk_transports = None\<rparr> () s"

text \<open>\<open>assert\<close> waits for the human between reading the record and using it, so it is two operations.\<close>

definition assert_start :: "db_state \<Rightarrow> passkeys \<Rightarrow> jstr + passkey_record" where
  "assert_start d s =
     (let what = js ''passkey assert'' in
      case loadRecord d s of
        Inl e \<Rightarrow> Inl (pk_err what e)
      | Inr None \<Rightarrow> Inl (pk_err what (js ''no passkey enrolled''))
      | Inr (Some r) \<Rightarrow> Inr r)"

definition learned :: "passkey_record \<Rightarrow> assertion \<Rightarrow> passkey_record" where
  "learned r a =
     (let r1 = (if pk_credentialId r = None then r\<lparr>pk_credentialId := Some (a_rawId a)\<rparr> else r)
      in if (pk_transports r = None \<or> pk_transports r = Some []) \<and> a_platform a
         then r1\<lparr>pk_transports := Some [js ''internal'']\<rparr> else r1)"

definition assert_end :: "webcrypto \<Rightarrow> db_state \<Rightarrow> passkey_record \<Rightarrow> jstr + assertion option \<Rightarrow> passkeys \<Rightarrow> (jstr + assertion) \<times> passkeys" where
  "assert_end wc d r got s =
     (let what = js ''passkey assert'' in
      case got of
        Inl e \<Rightarrow> (Inl (pk_err what e), s)
      | Inr None \<Rightarrow> (Inl (pk_err what (js ''no assertion returned'')), s)
      | Inr (Some a) \<Rightarrow>
         (case verifyAssertion wc (pk_publicKey r) a of
            Inl e \<Rightarrow> (Inl (pk_err what e), s)
          | Inr False \<Rightarrow>
              (Inl (pk_err what (js ''the signed assertion does not match the stored passkey -- a different passkey was selected'')), s)
          | Inr True \<Rightarrow> if learned r a \<noteq> r then save_as what d (learned r a) a s else (Inr a, s)))"

definition assertUnknown :: "jstr \<Rightarrow> jstr + assertion option \<Rightarrow> jstr + (bytes \<times> jstr \<times> assertion)" where
  "assertUnknown hostname got =
     (let what = js ''passkey assert-unknown'' in
      case got of
        Inl e \<Rightarrow> Inl (pk_err what e)
      | Inr None \<Rightarrow> Inl (pk_err what (js ''no assertion returned''))
      | Inr (Some a) \<Rightarrow> Inr (a_rawId a, hostname, a))"

subsection \<open>Runs\<close>

text \<open>How a key came to be trusted, the assertions under way, those \<open>assert\<close> gave the component (\<open>signed\<close>), and
  those \<open>assertUnknown\<close> gave it (\<open>unknowns\<close>): recovery asks for these when there is no record to verify against,
  so the component gets them as the platform made them.\<close>

datatype vouch = Enrolled bytes jstr | Adopted bytes jstr assertion | Remembered bytes jstr | Found bytes jstr

fun vouched_key :: "vouch \<Rightarrow> bytes \<times> jstr" where
  "vouched_key (Enrolled k rp) = (k, rp)"
| "vouched_key (Adopted k rp a) = (k, rp)"
| "vouched_key (Remembered k rp) = (k, rp)"
| "vouched_key (Found k rp) = (k, rp)"

record pk_page =
  pk_keys :: passkeys
  asserting :: "passkey_record list"
  vouches :: "vouch list"
  signed :: "(passkey_record \<times> assertion) list"
  unknowns :: "(bytes \<times> jstr \<times> assertion) list"

datatype pk_event =
    Enroll db_state "jstr + creation option"
  | Adopt db_state "bytes \<times> jstr" "jstr + assertion option"
  | Remember db_state "bytes \<times> jstr" bytes
  | Forget db_state
  | AssertStart db_state
  | AssertEnd nat db_state "jstr + assertion option"
  | AssertUnknown "jstr + assertion option"

definition done_as :: "vouch option \<Rightarrow> passkeys \<Rightarrow> pk_page \<Rightarrow> pk_page" where
  "done_as v t s = s\<lparr>pk_keys := t, vouches := vouches s @ (case v of None \<Rightarrow> [] | Some x \<Rightarrow> [x])\<rparr>"

fun pk_step :: "webcrypto \<Rightarrow> jstr \<Rightarrow> pk_event \<Rightarrow> pk_page \<Rightarrow> pk_page" where
  "pk_step wc h (Enroll d made) s =
     (case enroll wc h d made (pk_keys s) of
        (Inl e, t) \<Rightarrow> done_as None t s
      | (Inr (k, rp), t) \<Rightarrow> done_as (Some (Enrolled k rp)) t s)"
| "pk_step wc h (Adopt d c got) s =
     (case adopt wc h d c got (pk_keys s) of
        (Inl e, t) \<Rightarrow> done_as None t s
      | (Inr _, t) \<Rightarrow>
          (case got of Inr (Some a) \<Rightarrow> done_as (Some (Adopted (fst c) (snd c) a)) t s | _ \<Rightarrow> done_as None t s))"
| "pk_step wc h (Remember d c i) s =
     (case remember d c i (pk_keys s) of
        (Inl e, t) \<Rightarrow> done_as None t s
      | (Inr _, t) \<Rightarrow> done_as (Some (Remembered (fst c) (snd c))) t s)"
| "pk_step wc h (Forget d) s = done_as None (snd (forget d (pk_keys s))) s"
| "pk_step wc h (AssertStart d) s =
     (case assert_start d (pk_keys s) of Inl e \<Rightarrow> s | Inr r \<Rightarrow> s\<lparr>asserting := asserting s @ [r]\<rparr>)"
| "pk_step wc h (AssertEnd n d got) s =
     (if n < length (asserting s)
      then (let r = asserting s ! n; s1 = s\<lparr>asserting := take n (asserting s) @ drop (Suc n) (asserting s)\<rparr> in
            case assert_end wc d r got (pk_keys s) of
              (Inl e, t) \<Rightarrow> done_as None t s1
            | (Inr a, t) \<Rightarrow> (done_as None t s1)\<lparr>signed := signed s @ [(r, a)]\<rparr>)
      else s)"
| "pk_step wc h (AssertUnknown got) s =
     (case assertUnknown h got of Inl e \<Rightarrow> s | Inr u \<Rightarrow> s\<lparr>unknowns := unknowns s @ [u]\<rparr>)"

text \<open>A page over what an earlier one left in the database.\<close>

definition pk_start :: "stored_value \<Rightarrow> pk_page" where
  "pk_start v =
     \<lparr>pk_keys = \<lparr>pk_db = v, memRecord = None\<rparr>, asserting = [],
      vouches = (case v of RecordValue r \<Rightarrow> [Found (pk_publicKey r) (pk_rpId r)] | _ \<Rightarrow> []), signed = [], unknowns = []\<rparr>"

definition pk_run :: "webcrypto \<Rightarrow> jstr \<Rightarrow> stored_value \<Rightarrow> pk_event list \<Rightarrow> pk_page" where
  "pk_run wc h v es = foldl (\<lambda>s e. pk_step wc h e s) (pk_start v) es"

subsection \<open>Only vouched keys are used\<close>

definition trusted :: "vouch list \<Rightarrow> passkey_record \<Rightarrow> bool" where
  "trusted vs r \<longleftrightarrow> (pk_publicKey r, pk_rpId r) \<in> vouched_key ` set vs"

definition keys_ok :: "vouch list \<Rightarrow> passkeys \<Rightarrow> bool" where
  "keys_ok vs t \<longleftrightarrow> (\<forall>r. pk_db t = RecordValue r \<longrightarrow> trusted vs r) \<and> (\<forall>r. memRecord t = Some r \<longrightarrow> trusted vs r)"

definition vouch_ok :: "webcrypto \<Rightarrow> jstr \<Rightarrow> vouch \<Rightarrow> bool" where
  "vouch_ok wc h v \<longleftrightarrow> (case v of Adopted k rp a \<Rightarrow> rp = h \<and> verifyAssertion wc k a = Inr True | Enrolled k rp \<Rightarrow> rp = h | _ \<Rightarrow> True)"

definition signed_ok :: "webcrypto \<Rightarrow> passkey_record \<times> assertion \<Rightarrow> bool" where
  "signed_ok wc x \<longleftrightarrow> verifyAssertion wc (pk_publicKey (fst x)) (snd x) = Inr True"

definition pk_ok :: "webcrypto \<Rightarrow> jstr \<Rightarrow> pk_page \<Rightarrow> bool" where
  "pk_ok wc h s \<longleftrightarrow> keys_ok (vouches s) (pk_keys s) \<and> list_all (trusted (vouches s)) (asserting s) \<and>
     list_all (vouch_ok wc h) (vouches s) \<and> list_all (\<lambda>x. trusted (vouches s) (fst x) \<and> signed_ok wc x) (signed s) \<and>
     list_all (\<lambda>u. fst (snd u) = h) (unknowns s)"

lemma trusted_mono: "trusted vs r \<Longrightarrow> trusted (vs @ ws) r"
  by (auto simp: trusted_def)

lemma keys_ok_mono: "keys_ok vs t \<Longrightarrow> keys_ok (vs @ ws) t"
  by (auto simp: keys_ok_def trusted_mono)

lemma saved_keys: "keys_ok vs s \<Longrightarrow> trusted vs r \<Longrightarrow> saveRecord d r s = (e, t) \<Longrightarrow> keys_ok vs t"
  by (auto simp: saveRecord_def keys_ok_def split: db_state.splits)

lemma save_as_keys: "keys_ok vs s \<Longrightarrow> trusted vs r \<Longrightarrow> save_as w d r v s = (x, t) \<Longrightarrow> keys_ok vs t"
  by (auto simp: save_as_def dest: saved_keys split: prod.splits option.splits)

lemma save_as_failed: "save_as w d r v s = (Inl e, t) \<Longrightarrow> t = s"
  by (auto simp: save_as_def saveRecord_def split: prod.splits option.splits db_state.splits)

lemma save_as_value: "save_as w d r v s = (Inr x, t) \<Longrightarrow> x = v"
  by (auto simp: save_as_def split: prod.splits option.splits)

lemma done_as_ok:
  assumes "pk_ok wc h s" and "keys_ok (vouches s @ (case v of None \<Rightarrow> [] | Some x \<Rightarrow> [x])) t" and "\<And>x. v = Some x \<Longrightarrow> vouch_ok wc h x"
  shows "pk_ok wc h (done_as v t s)"
  using assms by (auto simp: pk_ok_def done_as_def list_all_iff trusted_mono split: option.split)

lemma done_as_None: "pk_ok wc h s \<Longrightarrow> keys_ok (vouches s) t \<Longrightarrow> pk_ok wc h (done_as None t s)"
  by (rule done_as_ok) simp_all

lemma learned_key [simp]: "pk_publicKey (learned r a) = pk_publicKey r" "pk_rpId (learned r a) = pk_rpId r"
  by (simp_all add: learned_def Let_def)

lemma loaded_trusted: "keys_ok vs s \<Longrightarrow> loadRecord d s = Inr (Some r) \<Longrightarrow> trusted vs r"
  by (auto simp: loadRecord_def keys_ok_def usable_record_def split: db_state.splits stored_value.splits if_splits)

lemma enrollD:
  "enroll wc h d made s = (Inr y, t) \<Longrightarrow>
     \<exists>w r. save_as w d r y s = (Inr y, t) \<and> y = (pk_publicKey r, pk_rpId r) \<and> pk_rpId r = h"
  by (simp add: enroll_def Let_def split: sum.splits option.splits prod.splits)
    (frule save_as_value, (rule exI)+, rule conjI, blast, simp)+

lemma pk_ok_step: "pk_ok wc h s \<Longrightarrow> pk_ok wc h (pk_step wc h e s)"
proof (induction wc h e s rule: pk_step.induct)
  case (1 wc h d made s)
  have k: "keys_ok (vouches s) (pk_keys s)" using 1 by (simp add: pk_ok_def)
  obtain x t where x: "enroll wc h d made (pk_keys s) = (x, t)" by (cases "enroll wc h d made (pk_keys s)")
  show ?case
  proof (cases x)
    case (Inl e)
    then have "t = pk_keys s" using x
      by (auto simp: enroll_def Let_def dest!: save_as_failed split: sum.splits option.splits prod.splits)
    then show ?thesis using 1 k by (simp add: x Inl done_as_None)
  next
    case (Inr y)
    then obtain w r where r: "save_as w d r y (pk_keys s) = (Inr y, t)"
      "y = (pk_publicKey r, pk_rpId r)" "pk_rpId r = h" using enrollD x by blast
    then have "keys_ok (vouches s @ [Enrolled (fst y) (snd y)]) t"
      by (intro save_as_keys[OF _ _ r(1)] keys_ok_mono k) (simp add: trusted_def)
    then show ?thesis using 1 r by (cases y) (auto simp: x Inr vouch_ok_def intro!: done_as_ok)
  qed
next
  case (2 wc h d c got s)
  have k: "keys_ok (vouches s) (pk_keys s)" using 2 by (simp add: pk_ok_def)
  obtain x t where x: "adopt wc h d c got (pk_keys s) = (x, t)" by (cases "adopt wc h d c got (pk_keys s)")
  show ?case
  proof (cases x)
    case (Inl e)
    then have "t = pk_keys s" using x
      by (auto simp: adopt_def Let_def dest!: save_as_failed split: sum.splits option.splits if_splits bool.splits)
    then show ?thesis using 2 k by (simp add: x Inl done_as_None)
  next
    case (Inr y)
    then obtain a r where a: "got = Inr (Some a)" "snd c = h" "verifyAssertion wc (fst c) a = Inr True"
      and r: "save_as (js ''passkey adopt'') d r () (pk_keys s) = (Inr y, t)" "pk_publicKey r = fst c" "pk_rpId r = snd c"
      using x by (auto simp: adopt_def Let_def split: sum.splits option.splits if_splits bool.splits)
    then have "keys_ok (vouches s @ [Adopted (fst c) (snd c) a]) t"
      by (intro save_as_keys[OF _ _ r(1)] keys_ok_mono k) (simp add: trusted_def)
    then have "pk_ok wc h (done_as (Some (Adopted (fst c) (snd c) a)) t s)"
      using 2 a by (intro done_as_ok) (auto simp: vouch_ok_def)
    then show ?thesis by (simp add: a(1) x[unfolded a(1) Inr])
  qed
next
  case (3 wc h d c i s)
  have k: "keys_ok (vouches s) (pk_keys s)" using 3 by (simp add: pk_ok_def)
  obtain x t where x: "remember d c i (pk_keys s) = (x, t)" by (cases "remember d c i (pk_keys s)")
  show ?case
  proof (cases x)
    case (Inl e)
    then have "t = pk_keys s" using x by (auto simp: remember_def dest!: save_as_failed)
    then show ?thesis using 3 k by (simp add: x Inl done_as_None)
  next
    case (Inr y)
    have "keys_ok (vouches s @ [Remembered (fst c) (snd c)]) t"
      using x by (intro save_as_keys[OF _ _ x[unfolded remember_def]] keys_ok_mono k) (simp add: trusted_def)
    then show ?thesis using 3 by (auto simp: x Inr vouch_ok_def intro!: done_as_ok)
  qed
next
  case (4 wc h d s)
  have "keys_ok (vouches s) (snd (forget d (pk_keys s)))"
    using 4 by (auto simp: pk_ok_def keys_ok_def forget_def clearRecord_def split: db_state.splits)
  then show ?case using 4 by (simp add: done_as_None)
next
  case (5 wc h d s)
  then show ?case
    by (auto simp: pk_ok_def assert_start_def Let_def split: sum.splits option.splits dest: loaded_trusted)
next
  case (6 wc h n d got s)
  show ?case
  proof (cases "n < length (asserting s)")
    case True
    let ?r = "asserting s ! n" and ?s = "s\<lparr>asserting := take n (asserting s) @ drop (Suc n) (asserting s)\<rparr>"
    have k: "keys_ok (vouches s) (pk_keys s)" and r: "trusted (vouches s) ?r"
      using 6 True by (auto simp: pk_ok_def list_all_length)
    have s: "pk_ok wc h ?s" using 6 by (auto simp: pk_ok_def list_all_iff dest: in_set_takeD in_set_dropD)
    obtain x t where x: "assert_end wc d ?r got (pk_keys s) = (x, t)" by (cases "assert_end wc d ?r got (pk_keys s)")
    have "trusted (vouches s) (learned ?r a)" for a using r by (simp add: trusted_def)
    then have t: "keys_ok (vouches s) t" using x k
      by (auto simp: assert_end_def Let_def dest: save_as_keys split: sum.splits option.splits if_splits bool.splits)
    then have d: "pk_ok wc h (done_as None t ?s)" using s by (intro done_as_ok) simp_all
    have "verifyAssertion wc (pk_publicKey ?r) a = Inr True" if "x = Inr a" for a using x that
      by (auto simp: assert_end_def Let_def dest!: save_as_value split: sum.splits option.splits if_splits bool.splits)
    then show ?thesis using True d r by (auto simp: Let_def x pk_ok_def done_as_def signed_ok_def split: sum.split)
  qed (simp add: 6)
next
  case (7 wc h got s)
  then show ?case by (auto simp: pk_ok_def assertUnknown_def Let_def split: sum.split option.split)
qed

interpretation ceremonies: started_machine "\<lambda>s e. pk_step wc h e s" "pk_ok wc h" "pk_start v"
  by unfold_locales
    (simp_all add: pk_ok_step, cases v, auto simp: pk_ok_def pk_start_def keys_ok_def trusted_def vouch_ok_def)

lemma pk_ok_run: "pk_ok wc h (pk_run wc h v es)"
  unfolding pk_run_def by (rule ceremonies.ok_reached)

text \<open>What \<open>assertUnknown\<close> hands on leaves everything else alone.\<close>

lemma unknown_untouched:
  "pk_keys (pk_step wc h (AssertUnknown got) s) = pk_keys s" "vouches (pk_step wc h (AssertUnknown got) s) = vouches s"
  "asserting (pk_step wc h (AssertUnknown got) s) = asserting s" "signed (pk_step wc h (AssertUnknown got) s) = signed s"
  by (simp_all split: sum.split)

text \<open>C12: A passkey is only offered and used when it was vouched for. On every run of the page's calls,
  with the database failing or coming back at any of them and assertions overlapping them, the identity
  offered is one that was enrolled here, adopted, remembered after a recovery or found in the database;
  an adopted one belongs to this host and the ceremony that confirmed it verifies under its public key;
  and every assertion that \<open>assert\<close> hands to the component verifies under the key of a vouched record. The
  assertions of \<open>assertUnknown\<close>, which the component gets unverified for a recovery, are for this host, and
  such a call changes neither the record, nor what is vouched for, nor what was signed.\<close>

theorem passkey_vouched:
  "let s = pk_run wc hostname v es in
    (\<forall>d k rp. identity d (pk_keys s) = Inr (Some (k, rp)) \<longrightarrow> (k, rp) \<in> vouched_key ` set (vouches s)) \<and>
    (\<forall>k rp a. Adopted k rp a \<in> set (vouches s) \<longrightarrow> rp = hostname \<and> verifyAssertion wc k a = Inr True) \<and>
    (\<forall>r a. (r, a) \<in> set (signed s) \<longrightarrow> verifyAssertion wc (pk_publicKey r) a = Inr True \<and>
       (pk_publicKey r, pk_rpId r) \<in> vouched_key ` set (vouches s)) \<and>
    (\<forall>i rp a. (i, rp, a) \<in> set (unknowns s) \<longrightarrow> rp = hostname) \<and>
    (\<forall>got. let s2 = pk_step wc hostname (AssertUnknown got) s in
       pk_keys s2 = pk_keys s \<and> vouches s2 = vouches s \<and> signed s2 = signed s)"
proof -
  let ?s = "pk_run wc hostname v es"
  have ok: "pk_ok wc hostname ?s" by (rule pk_ok_run)
  then have k: "keys_ok (vouches ?s) (pk_keys ?s)" by (simp add: pk_ok_def)
  have "(k, rp) \<in> vouched_key ` set (vouches ?s)" if "identity d (pk_keys ?s) = Inr (Some (k, rp))" for d k rp
    using that loaded_trusted[OF k, of d] by (auto simp: identity_def trusted_def split: sum.splits)
  moreover have "rp = hostname \<and> verifyAssertion wc k a = Inr True" if "Adopted k rp a \<in> set (vouches ?s)" for k rp a
    using ok that by (auto simp: pk_ok_def list_all_iff vouch_ok_def)
  moreover have "verifyAssertion wc (pk_publicKey r) a = Inr True \<and> (pk_publicKey r, pk_rpId r) \<in> vouched_key ` set (vouches ?s)"
    if "(r, a) \<in> set (signed ?s)" for r a
    using ok that by (auto simp: pk_ok_def list_all_iff signed_ok_def trusted_def)
  moreover have "rp = hostname" if "(i, rp, a) \<in> set (unknowns ?s)" for i rp a
    using ok that by (auto simp: pk_ok_def list_all_iff)
  ultimately show ?thesis unfolding Let_def unknown_untouched by blast
qed

text \<open>An adoption and an assertion with it, under a checker that wants the expected signature.\<close>

definition test_crypto :: webcrypto where
  "test_crypto = \<lparr>wc_import = (\<lambda>_. None), wc_export = Inr, wc_sha256 = (\<lambda>b. b),
     wc_verify = (\<lambda>k raw m. raw = replicate 32 1 @ replicate 32 2)\<rparr>"

definition test_assertion :: assertion where
  "test_assertion = \<lparr>a_rawId = [9], a_authenticatorData = [5], a_clientDataJSON = [6],
     a_signature = der_signature (replicate 32 1) (replicate 32 2), a_platform = True\<rparr>"

definition test_run :: pk_page where
  "test_run = pk_run test_crypto (js ''h'') NoValue
      [Adopt Working (replicate 65 4, js ''h'') (Inr (Some test_assertion)), AssertStart Working,
       AssertEnd 0 Working (Inr (Some test_assertion))]"

lemma passkey_vouched_witness:
  "map snd (signed test_run) = [test_assertion] \<and>
    verifyAssertion test_crypto (pk_publicKey (fst (hd (signed test_run)))) test_assertion = Inr True"
proof -
  have der: "derToRawEcdsaSignature (der_signature (replicate 32 1) (replicate 32 2)) = Some (replicate 32 1 @ replicate 32 2)"
    by (rule der_roundtrip) simp_all
  have v: "verifyAssertion test_crypto k test_assertion = Inr True" for k
    by (simp add: verifyAssertion_def test_crypto_def test_assertion_def der)
  have f: "a_platform test_assertion" "a_rawId test_assertion = [9]" by (simp_all add: test_assertion_def)
  have "\<exists>r. signed test_run = [(r, test_assertion)]"
    by (simp add: test_run_def pk_run_def pk_start_def adopt_def v save_as_def saveRecord_def done_as_def assert_start_def
        loadRecord_def usable_record_def assert_end_def learned_def f Let_def)
  then obtain r where r: "signed test_run = [(r, test_assertion)]" by blast
  have "\<forall>r a. (r, a) \<in> set (signed test_run) \<longrightarrow> verifyAssertion test_crypto (pk_publicKey r) a = Inr True"
    using passkey_vouched unfolding test_run_def Let_def by blast
  with r show ?thesis by simp
qed

subsection \<open>Two ways it is not strict\<close>

text \<open>Integers without any byte are accepted, and a record forgotten during an assertion is saved again when
  the assertion teaches something.\<close>

lemma empty_integers_accepted:
  "derToRawEcdsaSignature [0x30, 4, 0x02, 0, 0x02, 0] = Some (replicate 64 0)"
proof -
  have r: "readInt [0x30, 4, 0x02, 0, 0x02, 0] 2 = Some ([], 4)" "readInt [0x30, 4, 0x02, 0, 0x02, 0] 4 = Some ([], 6)"
    using readInt_der[of "[]" "[0x30, 4]" "[0x02, 0]"] readInt_der[of "[]" "[0x30, 4, 0x02, 0]" "[]"] by simp_all
  have l: "read_len [0x30, 4, 0x02, 0, 0x02, 0] 1 = Some (4, 2)"
    using short_form[of "[0x30, 4, 0x02, 0, 0x02, 0]" 1 4] by (simp add: byte_of_def)
  have f: "fit32 [] = Some (replicate 32 0)" by (simp add: fit32_def strip_guard.simps)
  have z: "byte_of [0x30, 4, 0x02, 0, 0x02, 0] 0 = Some 0x30" by (simp add: byte_of_def)
  show ?thesis by (simp add: derToRawEcdsaSignature_def z l r f replicate_add[symmetric] )
qed

lemma forgotten_comes_back:
  "\<exists>r. pk_db (pk_keys (pk_run test_crypto (js ''h'') NoValue
     [Remember Working (replicate 65 4, js ''h'') [9], AssertStart Working, Forget Working,
      AssertEnd 0 Working (Inr (Some test_assertion))])) = RecordValue r"
proof -
  have der: "derToRawEcdsaSignature (der_signature (replicate 32 1) (replicate 32 2)) = Some (replicate 32 1 @ replicate 32 2)"
    by (rule der_roundtrip) simp_all
  have v: "verifyAssertion test_crypto k test_assertion = Inr True" for k
    by (simp add: verifyAssertion_def test_crypto_def test_assertion_def der)
  have f: "a_platform test_assertion" "a_rawId test_assertion = [9]" by (simp_all add: test_assertion_def)
  show ?thesis
    by (simp add: pk_run_def pk_start_def remember_def v save_as_def saveRecord_def done_as_def assert_start_def
        loadRecord_def usable_record_def assert_end_def learned_def forget_def clearRecord_def f Let_def)
qed

end
