(* ===== verification/Mobile.thy ===== *)
theory Mobile
  imports Prelude "HOL-Library.Word"
begin

text \<open>
  \<^verbatim>\<open>site/mobile.mjs\<close>: the sticky modifiers of the key bar, its keys and their press gesture, scrolling by
  finger, and the fit to the visual viewport. Coordinates are rationals; xterm is its buffer positions,
  its modes and the boxes the page measures.
\<close>

unbundle bit_operations_syntax

subsection \<open>One-shot modifiers\<close>

record armed =
  ctrl :: bool
  alt :: bool

definition disarm :: armed where
  "disarm = \<lparr>ctrl = False, alt = False\<rparr>"

text \<open>\<open>ARROW\<close>: the letter of a plain cursor sequence; \<open>REPORT\<close>: a mouse report (SGR or legacy) or a focus
  report. It is not everything the terminal sends without a key: a wheel over an alternate screen that
  tracks no mouse becomes cursor keys, which \<open>REPORT\<close> does not match (\<open>scroll_takes_modifier\<close> below).\<close>

definition arrow_letter :: "jstr \<Rightarrow> nat option" where
  "arrow_letter s =
     (if length s = 3 \<and> s ! 0 = 27 \<and> (s ! 1 = 91 \<or> s ! 1 = 79) \<and> 65 \<le> s ! 2 \<and> s ! 2 \<le> 68 then Some (s ! 2) else None)"

definition report :: "jstr \<Rightarrow> bool" where
  "report s \<longleftrightarrow> length s \<ge> 3 \<and> s ! 0 = 27 \<and> s ! 1 = 91 \<and>
     (s ! 2 = 60 \<or> s ! 2 = 77 \<or> length s = 3 \<and> (s ! 2 = 73 \<or> s ! 2 = 79))"

definition control_code :: "jstr \<Rightarrow> jstr" where
  "control_code s =
     (let c = (if s = [32] then [64] else to_upper (hd s)); code = hd c
      in if 0x40 \<le> code \<and> code < 0x80 then [code AND 0x1F] else s)"

definition transformInput :: "jstr \<Rightarrow> armed \<Rightarrow> jstr \<times> armed" where
  "transformInput s a =
     (if \<not> ctrl a \<and> \<not> alt a then (s, a)
      else if report s then (s, a)
      else (case arrow_letter s of
              Some l \<Rightarrow>
                (let m = 1 + (if alt a then 2 else 0) + (if ctrl a then 4 else 0)
                 in ([27, 91, 49, 59] @ show_nat m @ [l], disarm))
            | None \<Rightarrow>
                if length s \<noteq> 1 then (s, disarm)
                else (let out = (if ctrl a then control_code s else s)
                      in (if alt a then 27 # out else out, disarm))))"

subsection \<open>The key bar\<close>

datatype key_action = Sends jstr | Cursor nat | StickyCtrl | StickyAlt

definition KEYS :: "(jstr \<times> key_action) list" where
  "KEYS =
     [(js ''esc'', Sends [27]), (js ''tab'', Sends [9]), (js ''ctrl'', StickyCtrl), (js ''alt'', StickyAlt),
      ([0x2190], Cursor 68), ([0x2193], Cursor 66), ([0x2191], Cursor 65), ([0x2192], Cursor 67),
      (js ''~'', Sends (js ''~'')), (js ''/'', Sends (js ''/'')), (js ''|'', Sends (js ''|'')), (js ''-'', Sends (js ''-''))]"

definition cursor_keys :: "bool \<Rightarrow> nat \<Rightarrow> jstr" where
  "cursor_keys application c = (if application then [27, 79, c] else [27, 91, c])"

text \<open>The chunks that reached \<open>onData\<close>, whoever produced them, each with what was sent for it.\<close>

record key_bar =
  bar_armed :: armed
  bar_log :: "(jstr \<times> jstr) list"

definition on_chunk :: "jstr \<Rightarrow> key_bar \<Rightarrow> key_bar" where
  "on_chunk s b = (case transformInput s (bar_armed b) of (out, a) \<Rightarrow> \<lparr>bar_armed = a, bar_log = bar_log b @ [(s, out)]\<rparr>)"

definition press_key :: "bool \<Rightarrow> key_action \<Rightarrow> key_bar \<Rightarrow> key_bar" where
  "press_key application k b =
     (case k of
        StickyCtrl \<Rightarrow> b\<lparr>bar_armed := (bar_armed b)\<lparr>ctrl := \<not> ctrl (bar_armed b)\<rparr>\<rparr>
      | StickyAlt \<Rightarrow> b\<lparr>bar_armed := (bar_armed b)\<lparr>alt := \<not> alt (bar_armed b)\<rparr>\<rparr>
      | Sends s \<Rightarrow> on_chunk s b
      | Cursor c \<Rightarrow> on_chunk (cursor_keys application c) b)"

text \<open>A key fires when the finger that went down on it comes up without having travelled.\<close>

definition KEY_SLOP :: rat where "KEY_SLOP = 10"

record key_press =
  kp_held :: "nat option"
  kp_x0 :: rat
  kp_y0 :: rat

datatype key_pointer = KeyDown nat rat rat | KeyMove nat rat rat | KeyUp nat | KeyCancel nat

definition hypot_gt :: "rat \<Rightarrow> rat \<Rightarrow> rat \<Rightarrow> bool" where
  "hypot_gt dx dy d \<longleftrightarrow> d * d < dx * dx + dy * dy"

fun key_touch :: "key_pointer \<Rightarrow> key_press \<Rightarrow> key_press \<times> bool" where
  "key_touch (KeyDown p x y) k = (\<lparr>kp_held = Some p, kp_x0 = x, kp_y0 = y\<rparr>, False)"
| "key_touch (KeyMove p x y) k =
     (if kp_held k = Some p \<and> hypot_gt (x - kp_x0 k) (y - kp_y0 k) KEY_SLOP then k\<lparr>kp_held := None\<rparr> else k, False)"
| "key_touch (KeyUp p) k = (if kp_held k = Some p then (k\<lparr>kp_held := None\<rparr>, True) else (k, False))"
| "key_touch (KeyCancel p) k = (if kp_held k = Some p then k\<lparr>kp_held := None\<rparr> else k, False)"

subsection \<open>What a modifier can do\<close>

definition is_sticky :: "key_action \<Rightarrow> bool" where
  "is_sticky k \<longleftrightarrow> k = StickyCtrl \<or> k = StickyAlt"

text \<open>\<open>Data\<close> is any other chunk of \<open>onData\<close>: a key, a paste, or something xterm produced itself.\<close>

datatype bar_event = PressKey bool key_action | Data jstr

fun arms :: "bar_event \<Rightarrow> bool" where
  "arms (PressKey app k) = is_sticky k"
| "arms (Data s) = False"

fun bar_step :: "bar_event \<Rightarrow> key_bar \<Rightarrow> key_bar" where
  "bar_step (PressKey app k) b = press_key app k b"
| "bar_step (Data s) b = on_chunk s b"

definition bar_run :: "bar_event list \<Rightarrow> key_bar" where
  "bar_run es = foldl (\<lambda>b e. bar_step e b) \<lparr>bar_armed = disarm, bar_log = []\<rparr> es"

text \<open>The three forms of a modified chunk: a cursor key with its modifier, a control byte, and the escape
  prefix of either kind of key.\<close>

definition modified :: "jstr \<Rightarrow> jstr \<Rightarrow> bool" where
  "modified s out \<longleftrightarrow>
     (\<exists>l m. arrow_letter s = Some l \<and> m \<in> {3, 5, 7} \<and> out = [27, 91, 49, 59] @ show_nat m @ [l]) \<or>
     (\<exists>c b. s = [c] \<and> (b < 32 \<and> (out = [b] \<or> out = [27, b]) \<or> out = [27, c]))"

lemma and_1F: "(c :: nat) AND 0x1F < 32"
proof -
  have "c AND mask 5 = take_bit 5 c" by (simp add: take_bit_eq_mask)
  moreover have "take_bit 5 c < 2 ^ 5" by (rule take_bit_nat_less_exp)
  ultimately show ?thesis by (simp add: mask_eq_exp_minus_1)
qed

lemma control_code_cases: "length s = 1 \<Longrightarrow> (\<exists>b < 32. control_code s = [b]) \<or> control_code s = s"
  using and_1F by (auto simp: control_code_def Let_def)

lemma transform_cases:
  assumes "transformInput s a = (out, a')"
  shows "(a' = a \<and> out = s) \<or>
    ((ctrl a \<or> alt a) \<and> \<not> report s \<and> a' = disarm \<and> (out = s \<or> modified s out))"
proof (cases "(ctrl a \<or> alt a) \<and> \<not> report s")
  case True
  show ?thesis
  proof (cases "arrow_letter s")
    case None
    show ?thesis
    proof (cases "length s = 1")
      case True
      then obtain c where s: "s = [c]" by (metis One_nat_def Suc_length_conv length_0_conv)
      show ?thesis using assms \<open>(ctrl a \<or> alt a) \<and> \<not> report s\<close> None control_code_cases[OF True]
        by (auto simp: transformInput_def s modified_def Let_def split: if_splits)
    qed (use assms True None in \<open>auto simp: transformInput_def\<close>)
  next
    case (Some l)
    have "out = [27, 91, 49, 59] @ show_nat m @ [l] \<Longrightarrow> m \<in> {3, 5, 7} \<Longrightarrow> modified s out" for m
      using Some by (auto simp: modified_def)
    then show ?thesis using assms True Some
      by (cases "ctrl a"; cases "alt a") (auto simp: transformInput_def Let_def)
  qed
qed (use assms in \<open>auto simp: transformInput_def split: if_splits\<close>)

definition bar_ok :: "nat \<Rightarrow> key_bar \<Rightarrow> bool" where
  "bar_ok n b \<longleftrightarrow>
     length (filter (\<lambda>x. snd x \<noteq> fst x) (bar_log b)) + (if ctrl (bar_armed b) \<or> alt (bar_armed b) then 1 else 0) \<le> n \<and>
     list_all (\<lambda>x. snd x \<noteq> fst x \<longrightarrow> \<not> report (fst x) \<and> modified (fst x) (snd x)) (bar_log b)"

lemma bar_ok_chunk: "bar_ok n b \<Longrightarrow> bar_ok n (on_chunk s b)"
proof -
  assume b: "bar_ok n b"
  obtain out a where t: "transformInput s (bar_armed b) = (out, a)" by (cases "transformInput s (bar_armed b)")
  from transform_cases[OF t] show ?thesis using b
    by (auto simp: on_chunk_def t bar_ok_def disarm_def split: if_splits)
qed

lemma bar_ok_step:
  "bar_ok n b \<Longrightarrow> bar_ok (n + (if arms e then 1 else 0)) (bar_step e b)"
proof (cases e)
  case (PressKey app k)
  assume b: "bar_ok n b"
  show ?thesis
    by (cases k) (use b in \<open>auto simp: PressKey press_key_def is_sticky_def bar_ok_chunk, auto simp: bar_ok_def split: if_splits\<close>)
qed (simp add: bar_ok_chunk)

text \<open>C34: A sticky modifier is one-shot. In any run of bar presses and \<open>onData\<close> chunks at most as many
  chunks are changed as sticky keys were pressed; a mouse report or a focus report is never one of them; and
  a changed chunk is a plain cursor key given its modifier number, a control byte below 32, or one key behind
  an escape. A chunk is a key by its form alone: cursor keys that xterm makes of a wheel count as keys.\<close>

theorem modifiers_are_one_shot:
  "length (filter (\<lambda>x. snd x \<noteq> fst x) (bar_log (bar_run es))) \<le>
     length (filter arms es) \<and>
   (\<forall>x \<in> set (bar_log (bar_run es)). snd x \<noteq> fst x \<longrightarrow> \<not> report (fst x) \<and> modified (fst x) (snd x))"
proof -
  have "bar_ok n b \<Longrightarrow> bar_ok (n + length (filter arms es))
      (foldl (\<lambda>b e. bar_step e b) b es)" for n b
  proof (induction es arbitrary: n b)
    case (Cons e es)
    from Cons.IH[OF bar_ok_step[OF Cons.prems, of e]] show ?case by (simp split: if_splits)
  qed simp
  moreover have "bar_ok 0 \<lparr>bar_armed = disarm, bar_log = []\<rparr>" by (simp add: bar_ok_def disarm_def)
  ultimately have "bar_ok (0 + length (filter arms es)) (bar_run es)"
    unfolding bar_run_def by blast
  then show ?thesis by (auto simp: bar_ok_def list_all_iff split: if_splits)
qed

text \<open>Ctrl armed, a mouse report, then the key.\<close>

lemma modifiers_are_one_shot_witness:
  "let es = [PressKey False StickyCtrl, Data [27, 91, 60, 54], Data [99], Data [99]] in
    bar_log (bar_run es) = [([27, 91, 60, 54], [27, 91, 60, 54]), ([99], [3]), ([99], [99])] \<and>
    length (filter (\<lambda>x. snd x \<noteq> fst x) (bar_log (bar_run es))) \<le> 1"
proof -
  define es where "es = [PressKey False StickyCtrl, Data [27, 91, 60, 54], Data [99], Data [99]]"
  have "bar_log (bar_run es) = [([27, 91, 60, 54], [27, 91, 60, 54]), ([99], [3]), ([99], [99])]"
    by (simp add: es_def bar_run_def press_key_def on_chunk_def transformInput_def report_def disarm_def arrow_letter_def
        control_code_def to_upper_def)
  moreover have "length (filter (\<lambda>x. snd x \<noteq> fst x) (bar_log (bar_run es))) \<le> 1"
    using modifiers_are_one_shot[THEN conjunct1, of es] by (simp add: es_def is_sticky_def)
  ultimately show ?thesis by (simp add: es_def Let_def)
qed

text \<open>A scroll over an alternate screen that tracks no mouse reaches \<open>onData\<close> as cursor keys, and an armed
  modifier goes to the first of them: the key it was armed for is sent plain.\<close>

lemma scroll_takes_modifier:
  "bar_log (bar_run [PressKey False StickyCtrl, Data (cursor_keys app 65), Data [99]]) =
     [(cursor_keys app 65, [27, 91, 49, 59] @ show_nat 5 @ [65]), ([99], [99])]"
  by (simp add: bar_run_def press_key_def on_chunk_def transformInput_def report_def disarm_def arrow_letter_def
      cursor_keys_def)

subsection \<open>Scrolling by finger\<close>

text \<open>The terminal as the gesture sees it: the buffer's positions and modes, and the measured boxes.\<close>

record box =
  left :: rat
  top :: rat
  right :: rat
  bottom :: rat

record xterm =
  baseY :: int
  viewportY :: int
  rows :: nat
  tracking :: bool
  alternate :: bool
  screen_box :: "box option"
  hostHeight :: rat

record finger =
  held :: "nat option"
  x0 :: rat
  y0 :: rat
  scrolling :: bool
  declined :: bool
  onThumb :: bool
  applied :: int
  travel :: rat
  forward :: bool
  cellPx :: rat
  emitted :: int

text \<open>What the gesture does to the terminal: wheel events (with the step and the place) and \<open>scrollLines\<close>.\<close>

record touch_page =
  t_term :: xterm
  t_finger :: finger
  wheels :: "(int \<times> rat \<times> rat) list"

definition SCROLL_SLOP :: rat where "SCROLL_SLOP = 8"

definition clamp :: "'a::linorder \<Rightarrow> 'a \<Rightarrow> 'a \<Rightarrow> 'a" where
  "clamp v lo hi = max lo (min hi v)"

definition wheel :: "int \<Rightarrow> rat \<Rightarrow> rat \<Rightarrow> touch_page \<Rightarrow> touch_page" where
  "wheel step x y s =
     (case screen_box (t_term s) of
        None \<Rightarrow> s
      | Some b \<Rightarrow> s\<lparr>wheels := wheels s @ [(step, clamp x (left b + 1) (right b - 1), clamp y (top b + 1) (bottom b - 1))]\<rparr>)"

definition js_trunc :: "rat \<Rightarrow> int" where
  "js_trunc q = (if q < 0 then - \<lfloor>- q\<rfloor> else \<lfloor>q\<rfloor>)"

definition js_round :: "rat \<Rightarrow> int" where
  "js_round q = \<lfloor>q + 1 / 2\<rfloor>"

text \<open>The while loop of \<open>forwardBy\<close>.\<close>

function forward_loop :: "int \<Rightarrow> rat \<Rightarrow> rat \<Rightarrow> touch_page \<Rightarrow> touch_page" where
  "forward_loop target x y s =
     (let e = emitted (t_finger s) in
      if e = target then s
      else (let step = (if target > e then 1 else -1)
            in forward_loop target x y (wheel step x y (s\<lparr>t_finger := (t_finger s)\<lparr>emitted := e + step\<rparr>\<rparr>))))"
  by pat_completeness auto
termination
  by (relation "measure (\<lambda>(target, x, y, s). nat \<bar>target - emitted (t_finger s)\<bar>)")
    (auto simp: wheel_def split: option.split)

declare forward_loop.simps [simp del]

definition forwardBy :: "rat \<Rightarrow> rat \<Rightarrow> rat \<Rightarrow> touch_page \<Rightarrow> touch_page" where
  "forwardBy dy x y s = forward_loop (js_trunc (dy / cellPx (t_finger s))) x y s"

definition cell_height :: "touch_page \<Rightarrow> rat \<Rightarrow> rat" where
  "cell_height s fallback =
     (let t = t_term s;
          h = (case screen_box t of None \<Rightarrow> fallback | Some b \<Rightarrow> bottom b - top b)
      in h / rat_of_nat (if rows t = 0 then 1 else rows t))"

definition linesPerPixel :: "touch_page \<Rightarrow> rat" where
  "linesPerPixel s =
     (let f = t_finger s; base = rat_of_int (baseY (t_term s)) in
      if onThumb f then (if travel f > 0 then base / travel f else 0)
      else (let cell = cell_height s (hostHeight (t_term s)) in if cell > 0 then - 1 / cell else 0))"

text \<open>\<open>term.scrollLines\<close>, which stops at the ends of the buffer.\<close>

definition scrollLines :: "int \<Rightarrow> xterm \<Rightarrow> xterm" where
  "scrollLines n t = t\<lparr>viewportY := clamp (viewportY t + n) 0 (baseY t)\<rparr>"

definition scroll_target :: "rat \<Rightarrow> touch_page \<Rightarrow> int" where
  "scroll_target dy s =
     (let t = t_term s; f = t_finger s in
      clamp (js_round (dy * linesPerPixel s)) (applied f - viewportY t) (applied f + (baseY t - viewportY t)))"

definition scrollBy :: "rat \<Rightarrow> touch_page \<Rightarrow> touch_page" where
  "scrollBy dy s =
     (if baseY (t_term s) \<le> 0 then s
      else (let target = scroll_target dy s; a = applied (t_finger s) in
            if target \<noteq> a
            then s\<lparr>t_term := scrollLines (target - a) (t_term s), t_finger := (t_finger s)\<lparr>applied := target\<rparr>\<rparr>
            else s))"

text \<open>The pointer events; \<open>bar\<close> is the scrollbar hit by the press, with the travel of its thumb.\<close>

datatype touch_event =
    PointerDown nat bool rat rat "rat option"
  | PointerMove nat rat rat
  | PointerEnd nat
  | TermChanges xterm

definition pointer_down :: "nat \<Rightarrow> bool \<Rightarrow> rat \<Rightarrow> rat \<Rightarrow> rat option \<Rightarrow> finger \<Rightarrow> finger" where
  "pointer_down p touch x y bar f =
     (if \<not> touch \<or> held f \<noteq> None then f
      else f\<lparr>held := Some p, x0 := x, y0 := y, scrolling := False, declined := False, applied := 0,
             onThumb := bar \<noteq> None, travel := (case bar of None \<Rightarrow> travel f | Some t \<Rightarrow> t)\<rparr>)"

text \<open>The moment a drag becomes a scroll, and where it will go.\<close>

definition claim :: "touch_page \<Rightarrow> touch_page" where
  "claim s =
     (let cell = cell_height s 0 in
      s\<lparr>t_finger := (t_finger s)\<lparr>scrolling := True, emitted := 0, cellPx := cell,
        forward := \<not> onThumb (t_finger s) \<and> cell > 0 \<and> (tracking (t_term s) \<or> alternate (t_term s))\<rparr>\<rparr>)"

definition pointer_move :: "nat \<Rightarrow> rat \<Rightarrow> rat \<Rightarrow> touch_page \<Rightarrow> touch_page" where
  "pointer_move p x y s =
     (let f = t_finger s; dx = x - x0 f; dy = y - y0 f;
          go = (\<lambda>s. if forward (t_finger s) then forwardBy dy x y s else scrollBy dy s)
      in if held f \<noteq> Some p \<or> declined f then s
         else if scrolling f then go s
         else if \<not> (hypot_gt dx dy SCROLL_SLOP \<or> dx * dx + dy * dy = SCROLL_SLOP * SCROLL_SLOP) then s
         else if \<bar>dy\<bar> \<le> \<bar>dx\<bar> then s\<lparr>t_finger := f\<lparr>declined := True\<rparr>\<rparr>
         else go (claim s))"

definition pointer_end :: "nat \<Rightarrow> finger \<Rightarrow> finger" where
  "pointer_end p f =
     (if held f \<noteq> Some p then f else f\<lparr>held := None, scrolling := False, declined := False, forward := False\<rparr>)"

fun touch_step :: "touch_event \<Rightarrow> touch_page \<Rightarrow> touch_page" where
  "touch_step (PointerDown p touch x y bar) s = s\<lparr>t_finger := pointer_down p touch x y bar (t_finger s)\<rparr>"
| "touch_step (PointerMove p x y) s = pointer_move p x y s"
| "touch_step (PointerEnd p) s = s\<lparr>t_finger := pointer_end p (t_finger s)\<rparr>"
| "touch_step (TermChanges t) s = s\<lparr>t_term := t\<rparr>"

definition touch_run :: "touch_event list \<Rightarrow> touch_page \<Rightarrow> touch_page" where
  "touch_run es s = foldl (\<lambda>s e. touch_step e s) s es"

subsection \<open>The viewport and the keyboard\<close>

text \<open>\<open>sync\<close> of \<open>initViewportFit\<close>: the height and offset given to the page, unless it is zoomed.\<close>

definition viewport_sync :: "rat \<Rightarrow> rat \<Rightarrow> rat \<Rightarrow> (int \<times> int) option" where
  "viewport_sync scale height offsetTop =
     (if \<bar>scale - 1\<bar> > 1 / 100 then None else Some (js_round height, js_round offsetTop))"

definition autofocusTerminal :: "bool \<Rightarrow> bool" where
  "autofocusTerminal coarse_pointer \<longleftrightarrow> \<not> coarse_pointer"

definition keyboard_key :: "bool \<Rightarrow> bool" where
  "keyboard_key textarea_focused \<longleftrightarrow> \<not> textarea_focused"

subsection \<open>The finger and the text\<close>

definition net_wheels :: "touch_page \<Rightarrow> int" where
  "net_wheels s = sum_list (map fst (wheels s))"

lemma net_wheels_finger [simp]: "net_wheels (s\<lparr>t_finger := f\<rparr>) = net_wheels s"
  by (simp add: net_wheels_def)

lemma wheel_simps [simp]: "t_term (wheel st x y s) = t_term s" "t_finger (wheel st x y s) = t_finger s"
  by (simp_all add: wheel_def split: option.split)

lemma forward_loop_result:
  assumes "screen_box (t_term s) \<noteq> None" and "t = forward_loop target x y s"
  shows "t_term t = t_term s \<and> t_finger t = (t_finger s)\<lparr>emitted := target\<rparr> \<and>
    net_wheels t = net_wheels s + (target - emitted (t_finger s))"
  using assms
proof (induction target x y s arbitrary: t rule: forward_loop.induct)
  case (1 target x y s)
  let ?e = "emitted (t_finger s)"
  show ?case
  proof (cases "?e = target")
    case True
    then show ?thesis using 1(3) by (simp add: forward_loop.simps[of target x y s] Let_def)
  next
    case False
    define st :: int where "st = (if target > ?e then 1 else -1)"
    define u where "u = wheel st x y (s\<lparr>t_finger := (t_finger s)\<lparr>emitted := ?e + st\<rparr>\<rparr>)"
    have t: "t = forward_loop target x y u"
      using 1(3) False by (simp add: forward_loop.simps[of target x y s] Let_def u_def st_def)
    have u: "t_term u = t_term s" "t_finger u = (t_finger s)\<lparr>emitted := ?e + st\<rparr>" by (simp_all add: u_def)
    have w: "net_wheels u = net_wheels s + st"
      using 1(2) by (auto simp: u_def wheel_def net_wheels_def split: option.split)
    have "t_term t = t_term u \<and> t_finger t = (t_finger u)\<lparr>emitted := target\<rparr> \<and>
        net_wheels t = net_wheels u + (target - emitted (t_finger u))"
      using 1(1)[OF refl False st_def, folded u_def, OF _ t] 1(2) u(1) by simp
    then show ?thesis using u w by simp
  qed
qed

text \<open>A gesture of one finger over a terminal that keeps still: where it stands after each move.\<close>

definition kept_term :: "xterm \<Rightarrow> xterm \<Rightarrow> bool" where
  "kept_term a b \<longleftrightarrow> baseY b = baseY a \<and> rows b = rows a \<and> tracking b = tracking a \<and> alternate b = alternate a \<and>
     screen_box b = screen_box a \<and> hostHeight b = hostHeight a"

lemma kept_cell: "kept_term (t_term s0) (t_term s) \<Longrightarrow> cell_height s h = cell_height s0 h"
  by (simp add: kept_term_def cell_height_def Let_def)

lemma cell_finger [simp]: "cell_height (s\<lparr>t_finger := f\<rparr>) h = cell_height s h"
  by (simp add: cell_height_def)

definition same_gesture :: "touch_page \<Rightarrow> finger \<Rightarrow> touch_page \<Rightarrow> bool" where
  "same_gesture s0 f s \<longleftrightarrow>
     held (t_finger s) = held f \<and> x0 (t_finger s) = x0 f \<and> y0 (t_finger s) = y0 f \<and>
     onThumb (t_finger s) = onThumb f \<and> travel (t_finger s) = travel f \<and>
     kept_term (t_term s0) (t_term s) \<and> (declined (t_finger s) \<longrightarrow> \<not> scrolling (t_finger s)) \<and>
     0 \<le> viewportY (t_term s) \<and> viewportY (t_term s) \<le> baseY (t_term s0) \<and>
     (if scrolling (t_finger s) \<and> forward (t_finger s)
      then viewportY (t_term s) = viewportY (t_term s0) \<and> net_wheels s = net_wheels s0 + emitted (t_finger s) \<and>
           cellPx (t_finger s) = cell_height s0 0
      else wheels s = wheels s0 \<and>
           (if scrolling (t_finger s) then applied (t_finger s) = viewportY (t_term s) - viewportY (t_term s0)
            else viewportY (t_term s) = viewportY (t_term s0) \<and> applied (t_finger s) = 0))"

text \<open>Where the finger says to be.\<close>

definition follows :: "touch_page \<Rightarrow> finger \<Rightarrow> rat \<Rightarrow> touch_page \<Rightarrow> bool" where
  "follows s0 f y s \<longleftrightarrow> scrolling (t_finger s) \<longrightarrow>
     (if forward (t_finger s) then net_wheels s = net_wheels s0 + js_trunc ((y - y0 f) / cell_height s0 0)
      else baseY (t_term s0) > 0 \<longrightarrow>
        viewportY (t_term s) = clamp (viewportY (t_term s0) + js_round ((y - y0 f) * linesPerPixel (s0\<lparr>t_finger := f\<rparr>)))
          0 (baseY (t_term s0)))"

lemma go_forward:
  assumes g: "same_gesture s0 f s" and sc: "scrolling (t_finger s)" "forward (t_finger s)"
    and box: "screen_box (t_term s0) \<noteq> None"
  shows "same_gesture s0 f (forwardBy (y - y0 f) x y s) \<and> follows s0 f y (forwardBy (y - y0 f) x y s)"
proof -
  let ?t = "forwardBy (y - y0 f) x y s"
  have "screen_box (t_term s) = screen_box (t_term s0)" using g by (simp add: same_gesture_def kept_term_def)
  then have "screen_box (t_term s) \<noteq> None" using box by simp
  from forward_loop_result[OF this refl, of "js_trunc ((y - y0 f) / cellPx (t_finger s))" x y]
  have t: "t_term ?t = t_term s" "t_finger ?t = (t_finger s)\<lparr>emitted := js_trunc ((y - y0 f) / cellPx (t_finger s))\<rparr>"
    "net_wheels ?t = net_wheels s + (js_trunc ((y - y0 f) / cellPx (t_finger s)) - emitted (t_finger s))"
    by (simp_all add: forwardBy_def)
  show ?thesis using g sc by (simp add: same_gesture_def follows_def t)
qed

lemma go_local:
  assumes g: "same_gesture s0 f s" and sc: "scrolling (t_finger s)" "\<not> forward (t_finger s)"
  shows "same_gesture s0 f (scrollBy (y - y0 f) s) \<and> follows s0 f y (scrollBy (y - y0 f) s)"
proof -
  let ?v = "viewportY (t_term s)" and ?w = "viewportY (t_term s0)" and ?b = "baseY (t_term s0)"
  have tt: "kept_term (t_term s0) (t_term s)" using g by (simp add: same_gesture_def)
  then have b: "baseY (t_term s) = ?b" by (simp add: kept_term_def)
  have a: "applied (t_finger s) = ?v - ?w" "0 \<le> ?v" "?v \<le> ?b" "wheels s = wheels s0"
    using g sc unfolding same_gesture_def by simp_all
  have lp: "linesPerPixel s = linesPerPixel (s0\<lparr>t_finger := f\<rparr>)"
  proof -
    have "onThumb (t_finger s) = onThumb f" "travel (t_finger s) = travel f" "hostHeight (t_term s) = hostHeight (t_term s0)"
      using g tt by (simp_all add: same_gesture_def kept_term_def)
    then show ?thesis by (simp add: linesPerPixel_def b kept_cell[OF tt] Let_def)
  qed
  show ?thesis
  proof (cases "?b \<le> 0")
    case True
    then show ?thesis using g b sc by (simp add: scrollBy_def follows_def)
  next
    case False
    let ?q = "js_round ((y - y0 f) * linesPerPixel (s0\<lparr>t_finger := f\<rparr>))"
    let ?tg = "scroll_target (y - y0 f) s"
    have tg: "?tg = clamp ?q (- ?w) (?b - ?w)" by (simp add: scroll_target_def Let_def lp a(1) b)
    have v: "?v + (?tg - applied (t_finger s)) = clamp (?w + ?q) 0 ?b" unfolding tg a(1) clamp_def by linarith
    have "0 \<le> clamp (?w + ?q) 0 ?b" "clamp (?w + ?q) 0 ?b \<le> ?b" using False by (auto simp: clamp_def)
    then have move: "scrollLines (?tg - applied (t_finger s)) (t_term s) = (t_term s)\<lparr>viewportY := clamp (?w + ?q) 0 ?b\<rparr>"
      by (simp add: scrollLines_def v b) (simp add: clamp_def)
    have new: "?tg = clamp (?w + ?q) 0 ?b - ?w" using v a(1) by simp
    show ?thesis
    proof (cases "?tg = applied (t_finger s)")
      case True
      then have "?v = clamp (?w + ?q) 0 ?b" using v by simp
      then show ?thesis using g False True b sc by (simp add: scrollBy_def Let_def follows_def)
    next
      case moved: False
      let ?t = "scrollBy (y - y0 f) s"
      have t: "?t = s\<lparr>t_term := (t_term s)\<lparr>viewportY := clamp (?w + ?q) 0 ?b\<rparr>, t_finger := (t_finger s)\<lparr>applied := ?tg\<rparr>\<rparr>"
        using moved False by (simp add: scrollBy_def Let_def b move)
      have "kept_term (t_term s0) ((t_term s)\<lparr>viewportY := z\<rparr>)" for z using tt by (simp add: kept_term_def)
      then show ?thesis using g sc a \<open>0 \<le> clamp (?w + ?q) 0 ?b\<close> \<open>clamp (?w + ?q) 0 ?b \<le> ?b\<close> new
        by (simp add: t same_gesture_def follows_def)
    qed
  qed
qed

lemma same_gesture_claim:
  "same_gesture s0 f s \<Longrightarrow> \<not> scrolling (t_finger s) \<Longrightarrow> \<not> declined (t_finger s) \<Longrightarrow> same_gesture s0 f (claim s)"
  by (auto simp: same_gesture_def claim_def Let_def net_wheels_def kept_cell)

lemma same_gesture_move:
  assumes g: "same_gesture s0 f s" and p: "held f = Some p" and box: "screen_box (t_term s0) \<noteq> None"
  shows "same_gesture s0 f (pointer_move q x y s) \<and> (q = p \<longrightarrow> follows s0 f y (pointer_move q x y s))"
proof -
  have f: "held (t_finger s) = Some p" "y0 (t_finger s) = y0 f" using g p by (simp_all add: same_gesture_def)
  have go: "same_gesture s0 f u \<and> follows s0 f y u"
    if "same_gesture s0 f v" "scrolling (t_finger v)"
      "u = (if forward (t_finger v) then forwardBy (y - y0 f) x y v else scrollBy (y - y0 f) v)" for u v
    using that go_forward[OF that(1,2) _ box] go_local[OF that(1,2)] by auto
  have cl: "same_gesture s0 f (claim s)" "scrolling (t_finger (claim s))" if "\<not> scrolling (t_finger s)" "\<not> declined (t_finger s)"
    using same_gesture_claim[OF g that] by (simp_all add: claim_def Let_def)
  have dec: "same_gesture s0 f (s\<lparr>t_finger := (t_finger s)\<lparr>declined := True\<rparr>\<rparr>)" if "\<not> scrolling (t_finger s)"
    using g that by (simp add: same_gesture_def)
  have no: "follows s0 f y v" if "\<not> scrolling (t_finger v)" for v using that by (simp add: follows_def)
  show ?thesis
  proof (cases "q = p \<and> \<not> declined (t_finger s)")
    case True
    then have nd: "\<not> declined (t_finger s)" and q: "q = p" by simp_all
    show ?thesis
    proof (cases "scrolling (t_finger s)")
      case True
      then show ?thesis using go[OF g True refl] nd q f by (simp add: pointer_move_def Let_def split: if_splits)
    next
      case False
      note claimed = go[OF cl(1)[OF False nd] cl(2)[OF False nd] refl]
      have "y0 (t_finger (claim s)) = y0 f" using f by (simp add: claim_def Let_def)
      then show ?thesis using claimed dec[OF False] no g False nd q f by (simp add: pointer_move_def Let_def split: if_splits)
    qed
  next
    case False
    then have s: "pointer_move q x y s = s" using f by (auto simp: pointer_move_def Let_def)
    have "follows s0 f y s" if "q = p" using False that g by (simp add: same_gesture_def follows_def)
    then show ?thesis unfolding s using g by simp
  qed
qed

lemma same_gesture_moves:
  assumes "same_gesture s0 f s" and "held f = Some p" and "screen_box (t_term s0) \<noteq> None"
  shows "same_gesture s0 f (touch_run (map (\<lambda>(q, x, y). PointerMove q x y) ms) s)"
  using assms(1)
proof (induction ms arbitrary: s)
  case (Cons m ms)
  obtain q x y where m: "m = (q, x, y)" by (cases m)
  have "same_gesture s0 f (pointer_move q x y s)" using same_gesture_move[OF Cons.prems assms(2,3)] by blast
  from Cons.IH[OF this] show ?case by (simp add: touch_run_def m)
qed (simp add: touch_run_def)

text \<open>The text stays under the finger. For a gesture of one finger, however many moves it makes and
  whatever other fingers do, when it is a scroll: either the application gets wheel events that add up
  to exactly the whole cells the finger has travelled, and the scrollback does not move; or no event is
  sent and the viewport is where the travel puts it, rounded once and stopped at the ends of the buffer.
  A gesture that is no scroll moves nothing.\<close>

theorem text_follows_finger:
  assumes "held (t_finger s) = None" and "0 \<le> viewportY (t_term s)" and "viewportY (t_term s) \<le> baseY (t_term s)"
    and "screen_box (t_term s) \<noteq> None" and "s1 = touch_step (PointerDown p True x y bar) s"
    and "t = touch_run (map (\<lambda>(q, x, y). PointerMove q x y) ms @ [PointerMove p x' y']) s1"
  shows "if \<not> scrolling (t_finger t) then wheels t = wheels s \<and> viewportY (t_term t) = viewportY (t_term s)
    else if forward (t_finger t)
    then net_wheels t = net_wheels s + js_trunc ((y' - y) / cell_height s 0) \<and> viewportY (t_term t) = viewportY (t_term s)
    else wheels t = wheels s \<and> (baseY (t_term s) > 0 \<longrightarrow>
      viewportY (t_term t) = clamp (viewportY (t_term s) + js_round ((y' - y) * linesPerPixel s1)) 0 (baseY (t_term s)))"
proof -
  let ?f = "pointer_down p True x y bar (t_finger s)"
  have s1: "s1 = s\<lparr>t_finger := ?f\<rparr>" by (simp add: assms(5))
  have f: "held ?f = Some p" "y0 ?f = y" using assms(1) by (simp_all add: pointer_down_def)
  have "same_gesture s ?f s1"
    using assms(1-3) by (simp add: same_gesture_def s1 pointer_down_def kept_term_def)
  from same_gesture_moves[OF this f(1) assms(4)]
  have g: "same_gesture s ?f (touch_run (map (\<lambda>(q, x, y). PointerMove q x y) ms) s1)" .
  have "t = pointer_move p x' y' (touch_run (map (\<lambda>(q, x, y). PointerMove q x y) ms) s1)"
    by (simp add: assms(6) touch_run_def)
  then have "same_gesture s ?f t" "follows s ?f y' t" using same_gesture_move[OF g f(1) assms(4)] by blast+
  then have "same_gesture s ?f t" "scrolling (t_finger t) \<longrightarrow>
     (if forward (t_finger t) then net_wheels t = net_wheels s + js_trunc ((y' - y) / cell_height s 0)
      else baseY (t_term s) > 0 \<longrightarrow>
        viewportY (t_term t) = clamp (viewportY (t_term s) + js_round ((y' - y) * linesPerPixel s1)) 0 (baseY (t_term s)))"
    unfolding follows_def f(2) s1 by blast+
  then show ?thesis by (auto simp: same_gesture_def)
qed

text \<open>Dragging down by 25 pixels over cells of 10, with a detour: two lines back into history.\<close>

definition sample_page :: touch_page where
  "sample_page = \<lparr>t_term = \<lparr>baseY = 5, viewportY = 3, rows = 10, tracking = False, alternate = False,
     screen_box = Some \<lparr>left = 0, top = 0, right = 100, bottom = 100\<rparr>, hostHeight = 100\<rparr>,
     t_finger = \<lparr>held = None, x0 = 0, y0 = 0, scrolling = False, declined = False, onThumb = False, applied = 0,
       travel = 0, forward = False, cellPx = 0, emitted = 0\<rparr>, wheels = []\<rparr>"

lemma text_follows_finger_witness:
  "let t = touch_run (map (\<lambda>(q, x, y). PointerMove q x y) [(1, 50, 40)] @ [PointerMove 1 50 75])
      (touch_step (PointerDown 1 True 50 50 None) sample_page) in
    scrolling (t_finger t) \<and> viewportY (t_term t) = 1 \<and> wheels t = []"
proof -
  define s1 where "s1 = touch_step (PointerDown 1 True 50 50 None) sample_page"
  define t where "t = touch_run (map (\<lambda>(q, x, y). PointerMove q x y) [(1, 50, 40)] @ [PointerMove 1 50 75]) s1"
  have c: "scrolling (t_finger t)" "\<not> forward (t_finger t)"
    by (simp_all add: t_def s1_def touch_run_def sample_page_def pointer_down_def pointer_move_def claim_def hypot_gt_def
        SCROLL_SLOP_def cell_height_def Let_def scrollBy_def)
  have h: "held (t_finger sample_page) = None" "0 \<le> viewportY (t_term sample_page)"
    "viewportY (t_term sample_page) \<le> baseY (t_term sample_page)" "screen_box (t_term sample_page) \<noteq> None"
    by (simp_all add: sample_page_def)
  have "js_round ((75 - 50) * linesPerPixel s1) = -2"
    by (simp add: s1_def sample_page_def pointer_down_def linesPerPixel_def cell_height_def Let_def js_round_def)
  then show ?thesis
    using text_follows_finger[OF h s1_def t_def] c
    by (simp add: t_def s1_def sample_page_def clamp_def Let_def)
qed

subsection \<open>Wiring the layer\<close>

text \<open>\<open>initViewportFit\<close>: changes of the visual viewport ask for one frame, and the frame fits the page to the
  viewport as it is then. Without the wrapper or a visual viewport nothing is wired.\<close>

record viewport_fit =
  vf_wired :: bool
  vf_asked :: bool
  vf_box :: "(int \<times> int) option"

datatype viewport_event = ViewportChanges | FrameRuns rat rat rat

fun viewport_step :: "viewport_fit \<Rightarrow> viewport_event \<Rightarrow> viewport_fit" where
  "viewport_step s ViewportChanges = (if vf_wired s then s\<lparr>vf_asked := True\<rparr> else s)"
| "viewport_step s (FrameRuns scale height offset) =
     (if \<not> vf_asked s then s
      else s\<lparr>vf_asked := False,
             vf_box := (case viewport_sync scale height offset of None \<Rightarrow> vf_box s | Some b \<Rightarrow> Some b)\<rparr>)"

definition initViewportFit :: "bool \<Rightarrow> bool \<Rightarrow> viewport_fit" where
  "initViewportFit has_wrap has_viewport = \<lparr>vf_wired = (has_wrap \<and> has_viewport), vf_asked = False, vf_box = None\<rparr>"

text \<open>However many changes come before a frame, the frame leaves the page at the size of the viewport it finds;
  a zoomed viewport leaves it as it was.\<close>

lemma viewport_fits:
  assumes "vf_wired s"
  shows "vf_box (foldl viewport_step s (replicate (Suc n) ViewportChanges @ [FrameRuns scale h y])) =
    (if \<bar>scale - 1\<bar> > 1 / 100 then vf_box s else Some (js_round h, js_round y))"
proof -
  have "foldl viewport_step s (replicate (Suc n) ViewportChanges) = s\<lparr>vf_asked := True\<rparr>" for n
    using assms by (induction n arbitrary: s) simp_all
  then show ?thesis by (simp add: viewport_sync_def del: replicate_Suc)
qed

text \<open>What \<open>initMobile\<close> wires, by the pointer and the elements that are there.\<close>

record mobile_layer =
  fits_viewport :: bool
  scrolls_by_touch :: bool
  has_keys_bar :: bool
  rightClickSelectsWord :: bool
  has_mirror :: bool

definition initLongPressSelect :: "bool \<Rightarrow> bool \<Rightarrow> bool" where
  "initLongPressSelect coarse_pointer default_option \<longleftrightarrow> (if coarse_pointer then True else default_option)"

definition initTouchSelect :: "bool \<Rightarrow> bool \<Rightarrow> bool" where
  "initTouchSelect coarse_pointer has_screen \<longleftrightarrow> coarse_pointer \<and> has_screen"

definition initMobile :: "bool \<Rightarrow> bool \<Rightarrow> bool \<Rightarrow> bool \<Rightarrow> bool \<Rightarrow> bool \<Rightarrow> bool \<Rightarrow> mobile_layer" where
  "initMobile coarse_pointer has_wrap has_viewport has_term has_keys has_screen default_option =
     \<lparr>fits_viewport = vf_wired (initViewportFit has_wrap has_viewport), scrolls_by_touch = has_term,
      has_keys_bar = has_keys, rightClickSelectsWord = initLongPressSelect coarse_pointer default_option,
      has_mirror = initTouchSelect coarse_pointer has_screen\<rparr>"

text \<open>With a mouse the terminal selects as it always did: no mirror, and the option as it ships.\<close>

lemma mouse_keeps_selection:
  "let m = initMobile False w v t k sc d in \<not> has_mirror m \<and> rightClickSelectsWord m = d"
  by (simp add: initMobile_def initTouchSelect_def initLongPressSelect_def)

end
