(* ===== verification/TouchSelect.thy ===== *)
theory TouchSelect
  imports Prelude
begin

text \<open>
  \<^verbatim>\<open>site/touch-select.mjs\<close>: the selectable mirror of the terminal's rows, its freeze while the platform
  holds a selection, the rows revealed when the viewport moves under it, the edge ratchet, the deferred
  refits, and the text a copy gives. A row div is a number, so that identity survives insertions; the
  terminal is its buffer, its viewport and its height in rows.
\<close>

subsection \<open>The buffer and the mirror\<close>

record buf_line =
  bl_text :: jstr
  bl_wrapped :: bool

record mirror_row =
  mr_div :: nat
  mr_text :: jstr
  mr_join :: bool

record select_page =
  lines :: "buf_line list"
  viewY :: nat
  term_rows :: nat
  laid_out :: bool
  rows :: "mirror_row list"
  top_row :: nat
  sheet_top :: int
  frozen :: bool
  next_div :: nat
  lastFocusDiv :: "nat option"
  lastRatchetAt :: nat
  frame_asked :: bool
  deferred :: "bool list"
  refits :: "(nat \<times> bool) list"

definition RATCHET_LINES :: int where "RATCHET_LINES = 2"
definition RATCHET_MS :: nat where "RATCHET_MS = 80"
definition REFRESH_QUIET_MS :: nat where "REFRESH_QUIET_MS = 150"
definition DRAG_QUIET_MS :: nat where "DRAG_QUIET_MS = 120"

text \<open>\<open>buf.getLine\<close>, and what a row says about the line with number \<open>n\<close>.\<close>

definition getLine :: "buf_line list \<Rightarrow> nat \<Rightarrow> buf_line option" where
  "getLine ls n = (if n < length ls then Some (ls ! n) else None)"

definition line_text :: "buf_line list \<Rightarrow> nat \<Rightarrow> jstr" where
  "line_text ls n = (case getLine ls n of None \<Rightarrow> [] | Some l \<Rightarrow> bl_text l)"

definition joins_next :: "buf_line list \<Rightarrow> nat \<Rightarrow> bool" where
  "joins_next ls n = (case getLine ls (n + 1) of None \<Rightarrow> False | Some l \<Rightarrow> bl_wrapped l)"

definition makeRow :: "buf_line list \<Rightarrow> nat \<Rightarrow> nat \<Rightarrow> mirror_row" where
  "makeRow ls d n = \<lparr>mr_div = d, mr_text = line_text ls n, mr_join = joins_next ls n\<rparr>"

subsection \<open>Following the viewport\<close>

definition rebuildRows :: "select_page \<Rightarrow> select_page" where
  "rebuildRows s =
     (let k = term_rows s - length (rows s) in
      s\<lparr>rows := take (term_rows s) (rows s) @ map (\<lambda>d. \<lparr>mr_div = d, mr_text = [], mr_join = False\<rparr>) [next_div s..<next_div s + k],
        next_div := next_div s + k\<rparr>)"

definition sync :: "select_page \<Rightarrow> select_page" where
  "sync s =
     (if frozen s then s
      else (let s1 = (if length (rows s) \<noteq> term_rows s then rebuildRows s else s) in
            if \<not> laid_out s1 then s1
            else s1\<lparr>top_row := viewY s1, sheet_top := 0,
                   rows := map (\<lambda>r. makeRow (lines s1) (mr_div (rows s1 ! r)) (viewY s1 + r)) [0..<length (rows s1)]\<rparr>))"

definition schedule :: "select_page \<Rightarrow> select_page" where
  "schedule s = s\<lparr>frame_asked := True\<rparr>"

text \<open>The two loops of \<open>reAnchor\<close>: rows are only added, at the edges.\<close>

function reveal_up :: "nat \<Rightarrow> select_page \<Rightarrow> select_page" where
  "reveal_up vy s =
     (if top_row s > vy
      then reveal_up vy (s\<lparr>top_row := top_row s - 1, rows := makeRow (lines s) (next_div s) (top_row s - 1) # rows s,
                            next_div := next_div s + 1\<rparr>)
      else s)"
  by pat_completeness auto
termination by (relation "measure (\<lambda>(vy, s). top_row s - vy)") auto

function reveal_down :: "nat \<Rightarrow> select_page \<Rightarrow> select_page" where
  "reveal_down vy s =
     (if top_row s + length (rows s) < vy + term_rows s
      then reveal_down vy (s\<lparr>rows := rows s @ [makeRow (lines s) (next_div s) (top_row s + length (rows s))],
                              next_div := next_div s + 1\<rparr>)
      else s)"
  by pat_completeness auto
termination by (relation "measure (\<lambda>(vy, s). vy + term_rows s - (top_row s + length (rows s)))") auto

declare reveal_up.simps [simp del] reveal_down.simps [simp del]

text \<open>The offset of the sheet is in cells.\<close>

definition reAnchor :: "select_page \<Rightarrow> select_page" where
  "reAnchor s =
     (let s1 = reveal_down (viewY s) (reveal_up (viewY s) s)
      in s1\<lparr>sheet_top := int (top_row s1) - int (viewY s)\<rparr>)"

text \<open>\<open>onScroll\<close>, and \<open>scrollLines\<close> which stops at the ends and then fires it.\<close>

definition scroll_to :: "nat \<Rightarrow> select_page \<Rightarrow> select_page" where
  "scroll_to vy s = (let s1 = s\<lparr>viewY := vy\<rparr> in if frozen s1 then reAnchor s1 else s1)"

definition scrollLines :: "int \<Rightarrow> select_page \<Rightarrow> select_page" where
  "scrollLines delta s =
     (let vy = nat (max 0 (min (int (length (lines s)) - int (term_rows s)) (int (viewY s) + delta)))
      in if vy = viewY s then s else scroll_to vy s)"

subsection \<open>Deferred refits\<close>

definition guardRefit :: "nat \<Rightarrow> select_page \<Rightarrow> select_page" where
  "guardRefit k s =
     (if frozen s then s\<lparr>deferred := (deferred s)[k := True]\<rparr> else s\<lparr>refits := refits s @ [(k, frozen s)]\<rparr>)"

definition flushRefits :: "select_page \<Rightarrow> select_page" where
  "flushRefits s =
     s\<lparr>refits := refits s @ map (\<lambda>k. (k, frozen s)) (filter (\<lambda>k. deferred s ! k) [0..<length (deferred s)]),
       deferred := map (\<lambda>_. False) (deferred s)\<rparr>"

subsection \<open>The ratchet and the selection\<close>

definition row_index :: "nat \<Rightarrow> select_page \<Rightarrow> nat option" where
  "row_index d s = (case dropWhile (\<lambda>i. mr_div (rows s ! i) \<noteq> d) [0..<length (rows s)] of [] \<Rightarrow> None | i # _ \<Rightarrow> Some i)"

text \<open>How far one step goes, for a focus on line \<open>view\<close> of the screen; 0 for none.\<close>

definition ratchet_delta :: "int \<Rightarrow> int \<Rightarrow> int" where
  "ratchet_delta view n =
     (if view \<le> 0 then (if view = 0 then - RATCHET_LINES else max view (- n))
      else if view \<ge> n - 1 then (if view - (n - 1) = 0 then RATCHET_LINES else min (view - (n - 1)) n)
      else 0)"

definition ratchet :: "nat option \<Rightarrow> nat \<Rightarrow> select_page \<Rightarrow> select_page" where
  "ratchet focus now s =
     (case (case focus of None \<Rightarrow> None | Some d \<Rightarrow> map_option (\<lambda>i. (d, i)) (row_index d s)) of
        None \<Rightarrow> s\<lparr>lastFocusDiv := None\<rparr>
      | Some (d, i) \<Rightarrow>
         (let prior = lastFocusDiv s; s1 = s\<lparr>lastFocusDiv := Some d\<rparr> in
          if prior = None \<or> prior = Some d then s1
          else if now - lastRatchetAt s < RATCHET_MS then s1
          else (let view = int (top_row s + i) - int (viewY s); delta = ratchet_delta view (int (term_rows s))
                in if 0 < view \<and> view < int (term_rows s) - 1 then s1
                   else scrollLines delta (s1\<lparr>lastRatchetAt := now\<rparr>))))"

definition selectionchange :: "bool \<Rightarrow> bool \<Rightarrow> nat option \<Rightarrow> nat \<Rightarrow> select_page \<Rightarrow> select_page" where
  "selectionchange holding refreshing focus now s =
     (if holding \<noteq> frozen s \<and> \<not> holding
      then flushRefits (schedule (s\<lparr>frozen := False, lastFocusDiv := None\<rparr>))
      else (let s1 = s\<lparr>frozen := holding\<rparr> in if frozen s1 \<and> \<not> refreshing then ratchet focus now s1 else s1))"

text \<open>\<open>refreshHandles\<close>: wait for a drag to pause, then assert the selection again.\<close>

datatype refresh_action = LeaveIt | WaitMore | Reassert

definition refreshHandles :: "bool \<Rightarrow> nat \<Rightarrow> nat \<Rightarrow> bool \<Rightarrow> refresh_action" where
  "refreshHandles is_frozen now lastSelChangeAt selected =
     (if \<not> is_frozen then LeaveIt
      else if now - lastSelChangeAt < DRAG_QUIET_MS then WaitMore
      else if selected then Reassert else LeaveIt)"

definition on_resize :: "buf_line list \<Rightarrow> nat \<Rightarrow> nat \<Rightarrow> select_page \<Rightarrow> select_page" where
  "on_resize ls vy n s =
     (let s1 = s\<lparr>lines := ls, viewY := vy, term_rows := n\<rparr>;
          s2 = (if frozen s1 then s1\<lparr>frozen := False, lastFocusDiv := None\<rparr> else s1)
      in flushRefits (schedule (rebuildRows s2)))"

definition on_frame :: "select_page \<Rightarrow> select_page" where
  "on_frame s = (if frame_asked s then sync (s\<lparr>frame_asked := False\<rparr>) else s)"

subsection \<open>Copying\<close>

text \<open>One end of a range: in the text of a row, or before child \<open>n\<close> of the sheet, the layer or a row div.\<close>

datatype endpoint = InText nat nat | InSheet nat | InLayer nat | InDiv nat nat | Elsewhere

definition at_row_end :: "select_page \<Rightarrow> nat \<Rightarrow> nat \<times> nat" where
  "at_row_end s r = (r, length (mr_text (rows s ! r)))"

definition sheet_end :: "select_page \<Rightarrow> nat \<Rightarrow> bool \<Rightarrow> (nat \<times> nat) option" where
  "sheet_end s n atEnd =
     Some (if atEnd then (if min n (length (rows s)) = 0 then (0, 0) else at_row_end s (min n (length (rows s)) - 1))
           else (min n (length (rows s) - 1), 0))"

definition locate :: "select_page \<Rightarrow> endpoint \<Rightarrow> bool \<Rightarrow> (nat \<times> nat) option" where
  "locate s p atEnd =
     (if rows s = [] then None
      else case p of
        InText d offset \<Rightarrow> map_option (\<lambda>r. (r, offset)) (row_index d s)
      | InSheet n \<Rightarrow> sheet_end s n atEnd
      | InLayer n \<Rightarrow> sheet_end s (if n = 0 then 0 else length (rows s)) atEnd
      | InDiv d n \<Rightarrow>
          (case row_index d s of
             None \<Rightarrow> None
           | Some r \<Rightarrow> Some (if n = 0 then (r, 0) else at_row_end s r))
      | Elsewhere \<Rightarrow> None)"

text \<open>\<open>text.slice(from, to)\<close>\<close>

definition slice :: "nat \<Rightarrow> nat \<Rightarrow> jstr \<Rightarrow> jstr" where
  "slice a b s = take (b - a) (drop a s)"

text \<open>The loop of the copy handler, from row \<open>r\<close> on.\<close>

function copy_loop :: "mirror_row list \<Rightarrow> nat \<times> nat \<Rightarrow> nat \<times> nat \<Rightarrow> nat \<Rightarrow> jstr \<Rightarrow> jstr" where
  "copy_loop rs start finish r out =
     (if r > fst finish then out
      else (let text = mr_text (rs ! r);
                part = slice (if r = fst start then snd start else 0) (if r = fst finish then snd finish else length text) text
            in copy_loop rs start finish (r + 1)
                 (out @ (if r = fst finish then trim_end part
                         else if mr_join (rs ! r) then part
                         else trim_end part @ [10]))))"
  by pat_completeness auto
termination by (relation "measure (\<lambda>(rs, start, finish, r, out). Suc (fst finish) - r)") auto

declare copy_loop.simps [simp del]

text \<open>None leaves the copy to the browser.\<close>

definition copied :: "select_page \<Rightarrow> endpoint \<Rightarrow> endpoint \<Rightarrow> jstr option" where
  "copied s a b =
     (case (locate s a False, locate s b True) of
        (Some start, Some finish) \<Rightarrow>
          if fst finish < fst start then None else Some (copy_loop (rows s) start finish (fst start) [])
      | _ \<Rightarrow> None)"

subsection \<open>Runs\<close>

datatype select_event =
    Scroll int
  | Output "buf_line list" nat
  | Resize "buf_line list" nat nat
  | SelChange bool bool "nat option" nat
  | Frame
  | Refit nat

fun select_step :: "select_event \<Rightarrow> select_page \<Rightarrow> select_page" where
  "select_step (Scroll d) s = scrollLines d s"
| "select_step (Output ls vy) s =
     (let s1 = s\<lparr>lines := ls\<rparr> in schedule (if vy = viewY s then s1 else scroll_to vy s1))"
| "select_step (Resize ls vy n) s = on_resize ls vy n s"
| "select_step (SelChange holding refreshing focus now) s = selectionchange holding refreshing focus now s"
| "select_step Frame s = on_frame s"
| "select_step (Refit k) s = guardRefit k s"

definition select_run :: "select_event list \<Rightarrow> select_page \<Rightarrow> select_page" where
  "select_run es s = foldl (\<lambda>s e. select_step e s) s es"

subsection \<open>The mirror is a window of the buffer\<close>

text \<open>The abstract mirror: the lines from \<open>lo\<close> to before \<open>hi\<close>, and the line on top of the screen. Scrolling
  moves the view within the buffer and widens the window to cover it.\<close>

type_synonym window = "nat \<times> nat \<times> nat"

definition widen :: "nat \<Rightarrow> nat \<Rightarrow> window \<Rightarrow> window" where
  "widen n vy = (\<lambda>(lo, hi, _). (min lo vy, max hi (vy + n), vy))"

definition scroll_window :: "nat \<Rightarrow> nat \<Rightarrow> int \<Rightarrow> window \<Rightarrow> window" where
  "scroll_window len n delta = (\<lambda>(lo, hi, view).
     widen n (nat (max 0 (min (int len - int n) (int view + delta)))) (lo, hi, view))"

definition window_of :: "select_page \<Rightarrow> window" where
  "window_of s = (top_row s, top_row s + length (rows s), viewY s)"

definition shows_window :: "select_page \<Rightarrow> bool" where
  "shows_window s \<longleftrightarrow>
     map (\<lambda>r. (mr_text r, mr_join r)) (rows s) =
     map (\<lambda>n. (line_text (lines s) n, joins_next (lines s) n)) [top_row s..<top_row s + length (rows s)]"

definition covers :: "select_page \<Rightarrow> bool" where
  "covers s \<longleftrightarrow> top_row s \<le> viewY s \<and> viewY s + term_rows s \<le> top_row s + length (rows s)"

text \<open>What revealing rows leaves alone.\<close>

definition grown :: "select_page \<Rightarrow> select_page \<Rightarrow> bool" where
  "grown s t \<longleftrightarrow> lines t = lines s \<and> term_rows t = term_rows s \<and> frozen t = frozen s \<and> deferred t = deferred s \<and>
     refits t = refits s \<and> (\<exists>pre post. rows t = pre @ rows s @ post \<and> top_row s = top_row t + length pre)"

lemma grownI:
  "rows t = pre @ rows s @ post \<Longrightarrow> top_row s = top_row t + length pre \<Longrightarrow> lines t = lines s \<Longrightarrow> term_rows t = term_rows s \<Longrightarrow>
     frozen t = frozen s \<Longrightarrow> deferred t = deferred s \<Longrightarrow> refits t = refits s \<Longrightarrow> grown s t"
  by (auto simp: grown_def)

lemma grown_refl: "grown s s"
  by (rule grownI[of _ "[]" _ "[]"]) simp_all

lemma grown_trans: "grown s t \<Longrightarrow> grown t u \<Longrightarrow> grown s u"
  unfolding grown_def by clarsimp (metis append.assoc length_append add.assoc)

lemma grown_fields: "grown s t \<Longrightarrow> grown s (t\<lparr>sheet_top := x\<rparr>)" "grown s t \<Longrightarrow> grown s (t\<lparr>viewY := y\<rparr>)"
  "grown s t \<Longrightarrow> grown s (t\<lparr>lastFocusDiv := d\<rparr>)" "grown s t \<Longrightarrow> grown s (t\<lparr>lastRatchetAt := m\<rparr>)"
  "grown s t \<Longrightarrow> grown s (t\<lparr>frame_asked := b\<rparr>)"
  by (auto simp: grown_def)

lemma reveal_up_result:
  assumes "t = reveal_up vy s"
  shows "grown s t \<and> viewY t = viewY s \<and> top_row t = min (top_row s) vy \<and> length (rows t) + top_row t = length (rows s) + top_row s \<and>
    (shows_window s \<longrightarrow> shows_window t)"
  using assms
proof (induction vy s arbitrary: t rule: reveal_up.induct)
  case (1 vy s)
  show ?case
  proof (cases "top_row s > vy")
    case True
    define u where "u = s\<lparr>top_row := top_row s - 1, rows := makeRow (lines s) (next_div s) (top_row s - 1) # rows s,
      next_div := next_div s + 1\<rparr>"
    have t: "t = reveal_up vy u" using 1(2) True by (simp add: reveal_up.simps[of vy s] u_def)
    have g: "grown s u"
      by (rule grownI[of _ "[makeRow (lines s) (next_div s) (top_row s - 1)]" _ "[]"]) (use True in \<open>simp_all add: u_def\<close>)
    have w: "shows_window s \<longrightarrow> shows_window u"
    proof -
      have "[top_row s - 1..<top_row s + length (rows s)] = (top_row s - 1) # [top_row s..<top_row s + length (rows s)]"
        using True by (simp add: upt_conv_Cons)
      then show ?thesis using True by (simp add: shows_window_def u_def makeRow_def)
    qed
    have "viewY u = viewY s" "top_row u = top_row s - 1" "length (rows u) + top_row u = length (rows s) + top_row s"
      using True by (simp_all add: u_def)
    then show ?thesis using 1(1)[OF True, folded u_def, OF t] grown_trans[OF g] w True by auto
  next
    case False
    then show ?thesis using 1(2) grown_refl by (simp add: reveal_up.simps[of vy s])
  qed
qed

lemma reveal_down_result:
  assumes "t = reveal_down vy s"
  shows "grown s t \<and> viewY t = viewY s \<and> top_row t = top_row s \<and>
    top_row t + length (rows t) = max (top_row s + length (rows s)) (vy + term_rows s) \<and>
    (shows_window s \<longrightarrow> shows_window t)"
  using assms
proof (induction vy s arbitrary: t rule: reveal_down.induct)
  case (1 vy s)
  show ?case
  proof (cases "top_row s + length (rows s) < vy + term_rows s")
    case True
    define u where "u = s\<lparr>rows := rows s @ [makeRow (lines s) (next_div s) (top_row s + length (rows s))],
      next_div := next_div s + 1\<rparr>"
    have t: "t = reveal_down vy u" using 1(2) True by (simp add: reveal_down.simps[of vy s] u_def)
    have g: "grown s u"
      by (rule grownI[of _ "[]" _ "[makeRow (lines s) (next_div s) (top_row s + length (rows s))]"]) (simp_all add: u_def)
    have w: "shows_window s \<longrightarrow> shows_window u"
      by (simp add: shows_window_def u_def makeRow_def)
    have "viewY u = viewY s" "top_row u = top_row s" "length (rows u) = length (rows s) + 1" "term_rows u = term_rows s"
      by (simp_all add: u_def)
    then show ?thesis using 1(1)[OF True, folded u_def, OF t] grown_trans[OF g] w True by auto
  next
    case False
    then show ?thesis using 1(2) grown_refl by (simp add: reveal_down.simps[of vy s])
  qed
qed

lemma reAnchor_result:
  assumes "t = reAnchor s"
  shows "grown s t \<and> window_of t = widen (term_rows s) (viewY s) (window_of s) \<and> covers t \<and>
    sheet_top t = int (top_row t) - int (viewY t) \<and> (shows_window s \<longrightarrow> shows_window t)"
proof -
  let ?u = "reveal_up (viewY s) s"
  let ?v = "reveal_down (viewY s) ?u"
  note u = reveal_up_result[of ?u "viewY s" s, OF refl] and v = reveal_down_result[of ?v "viewY s" ?u, OF refl]
  have t: "t = ?v\<lparr>sheet_top := int (top_row ?v) - int (viewY s)\<rparr>" using assms by (simp add: reAnchor_def Let_def)
  have "grown s ?v" using u v grown_trans by blast
  then have "grown s t" by (simp add: t grown_fields)
  moreover have "term_rows ?u = term_rows s" using u by (simp add: grown_def)
  moreover have "term_rows ?v = term_rows s" using \<open>grown s ?v\<close> by (simp add: grown_def)
  ultimately show ?thesis using u v
    by (auto simp: t window_of_def widen_def covers_def shows_window_def add.commute)
qed

text \<open>While a selection is held over a buffer that keeps still.\<close>

fun held_event :: "select_event \<Rightarrow> bool" where
  "held_event (Output ls vy) = False"
| "held_event (Resize ls vy n) = False"
| "held_event (SelChange holding refreshing focus now) = holding"
| "held_event _ = True"

fun asked_refits :: "select_event list \<Rightarrow> bool list \<Rightarrow> bool list" where
  "asked_refits [] ds = ds"
| "asked_refits (Refit k # es) ds = asked_refits es (ds[k := True])"
| "asked_refits (_ # es) ds = asked_refits es ds"

definition anchored :: "select_page \<Rightarrow> bool" where
  "anchored s \<longleftrightarrow> frozen s \<and> covers s \<and> viewY s + term_rows s \<le> length (lines s) \<and>
     sheet_top s = int (top_row s) - int (viewY s)"

definition kept :: "select_page \<Rightarrow> select_page \<Rightarrow> bool" where
  "kept s t \<longleftrightarrow> lines t = lines s \<and> term_rows t = term_rows s \<and> refits t = refits s \<and> anchored t \<and>
     (shows_window s \<longrightarrow> shows_window t) \<and>
     (\<exists>pre post. rows t = pre @ rows s @ post \<and> top_row s = top_row t + length pre)"

lemma kept_grown: "grown s t \<Longrightarrow> anchored t \<Longrightarrow> (shows_window s \<longrightarrow> shows_window t) \<Longrightarrow> kept s t"
  by (simp add: grown_def kept_def)

lemma kept_refl: "anchored s \<Longrightarrow> kept s s"
  by (rule kept_grown[OF grown_refl]) simp_all

lemma kept_trans: "kept s t \<Longrightarrow> kept t u \<Longrightarrow> kept s u"
  unfolding kept_def by clarsimp (metis append.assoc length_append add.assoc)

lemma scroll_here: "anchored s \<Longrightarrow> scroll_window (length (lines s)) (term_rows s) 0 (window_of s) = window_of s"
  by (auto simp: anchored_def covers_def scroll_window_def widen_def window_of_def)

lemma scrollLines_held:
  assumes a: "anchored s" and t: "t = scrollLines d s"
  shows "kept s t \<and> deferred t = deferred s \<and> window_of t = scroll_window (length (lines s)) (term_rows s) d (window_of s)"
proof -
  define vy where "vy = nat (max 0 (min (int (length (lines s)) - int (term_rows s)) (int (viewY s) + d)))"
  have vy: "vy + term_rows s \<le> length (lines s)" using a by (auto simp: vy_def anchored_def)
  show ?thesis
  proof (cases "vy = viewY s")
    case True
    then have "t = s" using t by (simp add: scrollLines_def vy_def Let_def)
    moreover have "widen (term_rows s) vy (window_of s) = window_of s"
      using a True by (auto simp: anchored_def covers_def widen_def window_of_def)
    ultimately show ?thesis using a kept_refl[OF a]
      by (simp add: scroll_window_def window_of_def vy_def[symmetric])
  next
    case False
    define u where "u = s\<lparr>viewY := vy\<rparr>"
    have "t = reAnchor u" using t False a by (simp add: scrollLines_def vy_def scroll_to_def Let_def u_def anchored_def)
    note r = reAnchor_result[OF this]
    have g: "grown s t" using grown_trans[OF grown_fields(2)[OF grown_refl]] r by (auto simp: u_def)
    have "viewY t = vy" using r by (auto simp: widen_def window_of_def u_def)
    then have "anchored t" using r g vy a by (auto simp: anchored_def grown_def)
    moreover have "shows_window s \<longrightarrow> shows_window t" using r by (simp add: u_def shows_window_def)
    moreover have "window_of t = scroll_window (length (lines s)) (term_rows s) d (window_of s)"
      using r by (auto simp: scroll_window_def window_of_def widen_def u_def vy_def)
    ultimately show ?thesis using g kept_grown[OF g] by (simp add: grown_def)
  qed
qed

lemma anchored_fields [simp]:
  "anchored (s\<lparr>lastFocusDiv := d\<rparr>) = anchored s" "anchored (s\<lparr>lastRatchetAt := m\<rparr>) = anchored s"
  "anchored (s\<lparr>frame_asked := b\<rparr>) = anchored s" "anchored (s\<lparr>deferred := ds\<rparr>) = anchored s"
  "shows_window (s\<lparr>lastFocusDiv := d\<rparr>) = shows_window s" "shows_window (s\<lparr>lastRatchetAt := m\<rparr>) = shows_window s"
  "shows_window (s\<lparr>frame_asked := b\<rparr>) = shows_window s" "shows_window (s\<lparr>deferred := ds\<rparr>) = shows_window s"
  by (simp_all add: anchored_def covers_def shows_window_def)

lemma kept_fields [simp]:
  "kept (s\<lparr>lastFocusDiv := d\<rparr>) t = kept s t" "kept (s\<lparr>lastRatchetAt := m\<rparr>) t = kept s t"
  "kept s (t\<lparr>lastFocusDiv := d\<rparr>) = kept s t" "kept s (t\<lparr>frame_asked := b\<rparr>) = kept s t" "kept s (t\<lparr>deferred := ds\<rparr>) = kept s t"
  by (simp_all add: kept_def)

lemma window_of_fields [simp]:
  "window_of (s\<lparr>lastFocusDiv := d\<rparr>) = window_of s" "window_of (s\<lparr>lastRatchetAt := m\<rparr>) = window_of s"
  "window_of (s\<lparr>frame_asked := b\<rparr>) = window_of s" "window_of (s\<lparr>deferred := ds\<rparr>) = window_of s"
  by (simp_all add: window_of_def)

definition held_ok :: "select_page \<Rightarrow> select_page \<Rightarrow> bool" where
  "held_ok s t \<longleftrightarrow> kept s t \<and> (\<exists>d. window_of t = scroll_window (length (lines s)) (term_rows s) d (window_of s))"

lemma held_ok_refl: "anchored s \<Longrightarrow> held_ok s s"
  using scroll_here kept_refl unfolding held_ok_def by metis

lemma ratchet_held:
  assumes a: "anchored s"
  shows "held_ok s (ratchet focus now s) \<and> deferred (ratchet focus now s) = deferred s"
proof -
  have same: "held_ok s (s\<lparr>lastFocusDiv := d\<rparr>)" for d using held_ok_refl[OF a] by (simp add: held_ok_def)
  have "held_ok s (scrollLines k (s\<lparr>lastFocusDiv := d, lastRatchetAt := m\<rparr>))"
    "deferred (scrollLines k (s\<lparr>lastFocusDiv := d, lastRatchetAt := m\<rparr>)) = deferred s" for k d m
    using scrollLines_held[of "s\<lparr>lastFocusDiv := d, lastRatchetAt := m\<rparr>", OF _ refl, of k] a
    by (auto simp: held_ok_def)
  then show ?thesis using same by (auto simp: ratchet_def Let_def split: option.split)
qed

lemma held_step:
  assumes a: "anchored s" and e: "held_event e"
  shows "held_ok s (select_step e s) \<and> deferred (select_step e s) = asked_refits [e] (deferred s)"
proof (cases e)
  case (Scroll d)
  then show ?thesis using scrollLines_held[OF a refl, of d] by (auto simp: held_ok_def)
next
  case (SelChange holding refreshing focus now)
  have f: "frozen s" using a by (simp add: anchored_def)
  then have s: "s\<lparr>frozen := True\<rparr> = s" by (cases s) simp
  have "ratchet focus now (s\<lparr>frozen := True\<rparr>) = ratchet focus now s" by (simp only: s)
  then have "select_step e s = (if refreshing then s else ratchet focus now s)"
    using e f by (auto simp: SelChange selectionchange_def Let_def s)
  then show ?thesis using ratchet_held[OF a] held_ok_refl[OF a] by (simp add: SelChange)
next
  case Frame
  have f: "frozen s" using a by (simp add: anchored_def)
  have "held_ok s (s\<lparr>frame_asked := b\<rparr>)" for b using held_ok_refl[OF a] by (simp add: held_ok_def)
  then show ?thesis using f held_ok_refl[OF a] by (auto simp: Frame on_frame_def sync_def)
next
  case (Refit k)
  have f: "frozen s" using a by (simp add: anchored_def)
  have "held_ok s (s\<lparr>deferred := ds\<rparr>)" for ds using held_ok_refl[OF a] by (simp add: held_ok_def)
  then show ?thesis using f by (simp add: Refit guardRefit_def)
qed (use e in simp_all)

lemma held_run:
  assumes "anchored s" and "list_all held_event es" and "t = select_run es s"
  shows "kept s t \<and> deferred t = asked_refits es (deferred s) \<and>
    (\<exists>ds. window_of t = foldl (\<lambda>w d. scroll_window (length (lines s)) (term_rows s) d w) (window_of s) ds)"
  using assms
proof (induction es arbitrary: s)
  case Nil
  then show ?case using kept_refl by (auto simp: select_run_def intro: exI[of _ "[]"])
next
  case (Cons e es)
  let ?u = "select_step e s"
  have e: "held_ok s ?u" "deferred ?u = asked_refits [e] (deferred s)" using held_step[of s e] Cons.prems by simp_all
  then obtain d where k: "kept s ?u" and d: "window_of ?u = scroll_window (length (lines s)) (term_rows s) d (window_of s)"
    by (auto simp: held_ok_def)
  have u: "anchored ?u" "lines ?u = lines s" "term_rows ?u = term_rows s" using k by (simp_all add: kept_def)
  have t: "t = select_run es ?u" using Cons.prems(3) by (simp add: select_run_def)
  from Cons.IH[OF u(1) _ t] Cons.prems(2) obtain ds where ds: "kept ?u t" "deferred t = asked_refits es (deferred ?u)"
    "window_of t = foldl (\<lambda>w d. scroll_window (length (lines s)) (term_rows s) d w) (window_of ?u) ds"
    by (auto simp: u)
  have "asked_refits es (asked_refits [e] x) = asked_refits (e # es) x" for x by (cases e) simp_all
  then show ?case using ds kept_trans[OF k ds(1)] e(2) d by (auto intro: exI[of _ "d # ds"])
qed

lemma asked_length [simp]: "length (asked_refits es ds) = length ds"
  by (induction es ds rule: asked_refits.induct) simp_all

text \<open>C7: A held selection stays on its text. While the platform holds a selection and the buffer keeps
  still, however the view is scrolled, ratcheted by a handle or rendered, the mirror refines a window of
  the buffer that every step only widens to cover the screen: its rows read as the lines of the window,
  the rows there at the start are the same divs in the same order, and the sheet's offset puts each row
  on its line of the screen. No refit runs meanwhile, and letting go runs each one asked for once.\<close>

theorem mirror_refines_buffer:
  assumes "frozen s" and "shows_window s" and "covers s" and "viewY s + term_rows s \<le> length (lines s)"
    and "sheet_top s = int (top_row s) - int (viewY s)" and "list_all held_event es" and "t = select_run es s"
  shows "(\<exists>ds. window_of t = foldl (\<lambda>w d. scroll_window (length (lines s)) (term_rows s) d w) (window_of s) ds) \<and>
    shows_window t \<and> covers t \<and> sheet_top t = int (top_row t) - int (viewY t) \<and>
    (\<exists>pre post. rows t = pre @ rows s @ post \<and> top_row s = top_row t + length pre) \<and> refits t = refits s \<and>
    (let u = selectionchange False refreshing focus now t in \<not> frozen u \<and>
       refits u = refits s @ map (\<lambda>k. (k, False)) (filter (\<lambda>k. asked_refits es (deferred s) ! k) [0..<length (deferred s)]))"
proof -
  have "anchored s" using assms(1,3,4,5) by (simp add: anchored_def)
  from held_run[OF this assms(6,7)] have r: "kept s t" "deferred t = asked_refits es (deferred s)"
    "\<exists>ds. window_of t = foldl (\<lambda>w d. scroll_window (length (lines s)) (term_rows s) d w) (window_of s) ds" by blast+
  then have a: "frozen t" "covers t" "sheet_top t = int (top_row t) - int (viewY t)" "refits t = refits s" "shows_window t"
    using assms(2) by (simp_all add: kept_def anchored_def)
  let ?u = "selectionchange False refreshing focus now t"
  have "\<not> frozen ?u \<and> refits ?u = refits s @
      map (\<lambda>k. (k, False)) (filter (\<lambda>k. asked_refits es (deferred s) ! k) [0..<length (deferred s)])"
    using a r(2) by (simp add: selectionchange_def schedule_def flushRefits_def)
  moreover have "\<exists>pre post. rows t = pre @ rows s @ post \<and> top_row s = top_row t + length pre" using r(1) by (simp add: kept_def)
  ultimately show ?thesis using r(3) a by (simp add: Let_def)
qed

text \<open>Three lines, a screen of one, a selection on the middle line, scrolled up; a refit is asked for twice.\<close>

definition one_row :: select_page where
  "one_row = \<lparr>lines = map (\<lambda>c. \<lparr>bl_text = [c], bl_wrapped = False\<rparr>) [97, 98, 99], viewY = 1, term_rows = 1, laid_out = True,
     rows = [\<lparr>mr_div = 0, mr_text = [98], mr_join = False\<rparr>], top_row = 1, sheet_top = 0, frozen = True, next_div = 1,
     lastFocusDiv = None, lastRatchetAt = 0, frame_asked = False, deferred = [False], refits = []\<rparr>"

lemma mirror_refines_buffer_witness:
  "let t = select_run [Scroll (-1), Refit 0, Refit 0] one_row in
    shows_window t \<and> map mr_text (rows t) = [[97], [98]] \<and>
    refits (selectionchange False False None 0 t) = [(0, False)]"
proof -
  define t where "t = select_run [Scroll (-1), Refit 0, Refit 0] one_row"
  have s: "frozen one_row" "shows_window one_row" "covers one_row" "viewY one_row + term_rows one_row \<le> length (lines one_row)"
    "sheet_top one_row = int (top_row one_row) - int (viewY one_row)" "list_all held_event [Scroll (-1), Refit 0, Refit 0]"
    by (simp_all add: one_row_def shows_window_def covers_def line_text_def joins_next_def getLine_def)
  have "map mr_text (rows t) = [[97], [98]]"
    by (simp add: t_def select_run_def one_row_def scrollLines_def scroll_to_def reAnchor_def reveal_up.simps reveal_down.simps
        guardRefit_def makeRow_def line_text_def getLine_def)
  moreover have "shows_window t" "refits (selectionchange False False None 0 t) = [(0, False)]"
    using mirror_refines_buffer[OF s t_def, of False None 0] unfolding Let_def
    by (simp_all add: one_row_def)
  ultimately show ?thesis unfolding Let_def t_def by blast
qed

subsection \<open>What a copy gives\<close>

text \<open>The logical lines of the selected parts: a part whose row was soft-wrapped continues on the next row.\<close>

fun logical_lines :: "(jstr \<times> bool) list \<Rightarrow> jstr list" where
  "logical_lines [] = []"
| "logical_lines [(p, _)] = [trim_end p]"
| "logical_lines ((p, joined) # q # rest) =
     (if joined then (case logical_lines (q # rest) of [] \<Rightarrow> [p] | l # ls \<Rightarrow> (p @ l) # ls)
      else trim_end p # logical_lines (q # rest))"

fun unlines :: "jstr list \<Rightarrow> jstr" where
  "unlines [] = []"
| "unlines [l] = l"
| "unlines (l # ls) = l @ 10 # unlines ls"

definition selected_part :: "mirror_row list \<Rightarrow> nat \<times> nat \<Rightarrow> nat \<times> nat \<Rightarrow> nat \<Rightarrow> jstr \<times> bool" where
  "selected_part rs start finish r =
     (slice (if r = fst start then snd start else 0)
        (if r = fst finish then snd finish else length (mr_text (rs ! r))) (mr_text (rs ! r)), mr_join (rs ! r))"

lemma logical_ne: "ps \<noteq> [] \<Longrightarrow> logical_lines ps \<noteq> []"
  by (induction ps rule: logical_lines.induct) (auto split: list.split)

lemma unlines_Cons: "ls \<noteq> [] \<Longrightarrow> unlines (l # ls) = l @ 10 # unlines ls"
  by (cases ls) simp_all

lemma unlines_join: "ls \<noteq> [] \<Longrightarrow> unlines (case ls of [] \<Rightarrow> [p] | l # ls \<Rightarrow> (p @ l) # ls) = p @ unlines ls"
  by (cases ls rule: unlines.cases) simp_all

lemma copy_loop_lines:
  assumes "r \<le> fst finish"
  shows "copy_loop rs start finish r out = out @ unlines (logical_lines (map (selected_part rs start finish) [r..<Suc (fst finish)]))"
  using assms
proof (induction "fst finish - r" arbitrary: r out)
  case 0
  then have r: "r = fst finish" by simp
  have stop: "copy_loop rs start finish (Suc r) x = x" for x
    by (subst copy_loop.simps) (simp add: r)
  show ?case
    by (subst copy_loop.simps) (simp add: stop selected_part_def Let_def flip: r)
next
  case (Suc n)
  then have r: "r < fst finish" by simp
  let ?ps = "map (selected_part rs start finish) [Suc r..<Suc (fst finish)]"
  obtain p j where pj: "selected_part rs start finish r = (p, j)" by (cases "selected_part rs start finish r")
  have up: "[r..<Suc (fst finish)] = r # [Suc r..<Suc (fst finish)]" using r by (simp only: upt_conv_Cons less_SucI)
  have ne: "?ps \<noteq> []" "logical_lines ?ps \<noteq> []" using r logical_ne[of ?ps] by simp_all
  then obtain q rest where q: "?ps = q # rest" by (cases ?ps) auto
  have ih: "copy_loop rs start finish (Suc r) o' = o' @ unlines (logical_lines ?ps)" for o'
    using Suc.hyps(1)[of "Suc r" o'] Suc.hyps(2) r by simp
  have step: "copy_loop rs start finish r out = copy_loop rs start finish (Suc r) (out @ (if j then p else trim_end p @ [10]))"
    using r pj by (auto simp: copy_loop.simps[of rs start finish r] selected_part_def Let_def)
  have "unlines (logical_lines ((p, j) # ?ps)) = (if j then p else trim_end p @ [10]) @ unlines (logical_lines ?ps)"
    using ne(2) unfolding q by (simp add: unlines_join unlines_Cons)
  then show ?case unfolding up by (simp only: step ih pj list.map append_assoc)
qed

lemma split_on_unlines:
  assumes "ls \<noteq> []" and "\<forall>l \<in> set ls. 10 \<notin> set l"
  shows "split_on 10 (unlines ls) = ls"
  using assms
  by (induction ls rule: unlines.induct) (simp_all add: split_on_append split_on_no_sep)

lemma set_trim_end: "set (trim_end s) \<subseteq> set s"
  using set_mono_prefix[OF prefix_trim_end] .

lemma logical_lines_chars: "l \<in> set (logical_lines ps) \<Longrightarrow> set l \<subseteq> (\<Union>p \<in> set ps. set (fst p))"
proof (induction ps arbitrary: l rule: logical_lines.induct)
  case (2 p j)
  then show ?case using set_trim_end[of p] by auto
next
  case (3 p joined q rest)
  show ?case
  proof (cases joined)
    case True
    obtain m ms where m: "logical_lines (q # rest) = m # ms" using logical_ne[of "q # rest"] by (cases "logical_lines (q # rest)") auto
    then have "l = p @ m \<or> l \<in> set ms" using 3(3) True by auto
    then show ?thesis using 3(1)[OF True] m by fastforce
  next
    case False
    then have "l = trim_end p \<or> l \<in> set (logical_lines (q # rest))" using 3(3) by simp
    then show ?thesis using 3(2)[OF False] set_trim_end[of p] by fastforce
  qed
qed simp

lemma row_index_less: "row_index d s = Some i \<Longrightarrow> i < length (rows s)"
proof -
  assume a: "row_index d s = Some i"
  then have "i \<in> set (dropWhile (\<lambda>i. mr_div (rows s ! i) \<noteq> d) [0..<length (rows s)])"
    by (auto simp: row_index_def split: list.splits)
  then have "i \<in> set [0..<length (rows s)]" using set_dropWhileD by fast
  then show ?thesis by simp
qed

lemma locate_in_mirror: "locate s p atEnd = Some x \<Longrightarrow> fst x < length (rows s)"
  by (cases "rows s")
    (auto simp: locate_def sheet_end_def at_row_end_def min_def split: if_splits endpoint.splits option.splits dest: row_index_less)

lemma slice_chars: "set (slice a b s) \<subseteq> set s"
  unfolding slice_def using set_take_subset set_drop_subset by fast

text \<open>The reference: the selected part of each line of the buffer, and whether the next line continues it.\<close>

definition buffer_part :: "select_page \<Rightarrow> nat \<times> nat \<Rightarrow> nat \<times> nat \<Rightarrow> nat \<Rightarrow> jstr \<times> bool" where
  "buffer_part s start finish r =
     (let line = line_text (lines s) (top_row s + r)
      in (slice (if r = fst start then snd start else 0) (if r = fst finish then snd finish else length line) line,
          joins_next (lines s) (top_row s + r)))"

lemma mirror_reads_buffer:
  assumes "shows_window s" and "r < length (rows s)"
  shows "mr_text (rows s ! r) = line_text (lines s) (top_row s + r)" "mr_join (rows s ! r) = joins_next (lines s) (top_row s + r)"
proof -
  have "map (\<lambda>r. (mr_text r, mr_join r)) (rows s) ! r =
      map (\<lambda>n. (line_text (lines s) n, joins_next (lines s) n)) [top_row s..<top_row s + length (rows s)] ! r"
    using assms(1) by (simp add: shows_window_def)
  then show "mr_text (rows s ! r) = line_text (lines s) (top_row s + r)" "mr_join (rows s ! r) = joins_next (lines s) (top_row s + r)"
    using assms(2) by simp_all
qed

lemma buffer_part_chars:
  assumes "\<forall>l \<in> set (lines s). 10 \<notin> set (bl_text l)"
  shows "10 \<notin> set (fst (buffer_part s start finish r))"
proof -
  have "10 \<notin> set (line_text (lines s) n)" for n
    using assms by (auto simp: line_text_def getLine_def split: option.splits)
  then show ?thesis using slice_chars by (fastforce simp: buffer_part_def Let_def)
qed

text \<open>C19: A copy breaks lines where the program did and nowhere else. When the mirror shows its window of the
  buffer and the copy handler answers, both ends lie in mirrored rows in order, and the text it puts on the
  clipboard splits at its newlines into exactly the logical lines of the selection: the parts of the
  selected buffer lines, a soft-wrapped one run together untrimmed with the next, every other one alone
  with its trailing blanks gone.\<close>

theorem copy_joins_soft_wraps:
  assumes "shows_window s" and "\<forall>l \<in> set (lines s). 10 \<notin> set (bl_text l)" and "copied s a b = Some out"
  shows "\<exists>start finish. locate s a False = Some start \<and> locate s b True = Some finish \<and> fst start \<le> fst finish \<and>
    fst finish < length (rows s) \<and>
    split_on 10 out = logical_lines (map (buffer_part s start finish) [fst start..<Suc (fst finish)])"
proof -
  obtain start finish where l: "locate s a False = Some start" "locate s b True = Some finish"
    and le: "fst start \<le> fst finish" and out: "out = copy_loop (rows s) start finish (fst start) []"
    using assms(3) by (auto simp: copied_def not_less split: option.splits if_splits)
  have len: "fst finish < length (rows s)" by (rule locate_in_mirror[OF l(2)])
  let ?ps = "map (buffer_part s start finish) [fst start..<Suc (fst finish)]"
  have "map (selected_part (rows s) start finish) [fst start..<Suc (fst finish)] = ?ps"
    using len by (auto simp: selected_part_def buffer_part_def Let_def mirror_reads_buffer[OF assms(1)])
  then have "out = unlines (logical_lines ?ps)" using copy_loop_lines[OF le, of "rows s" start "[]"] out
    by (simp only: append_Nil)
  moreover have "\<forall>l \<in> set (logical_lines ?ps). 10 \<notin> set l"
    using logical_lines_chars[of _ ?ps] buffer_part_chars[OF assms(2)] by fastforce
  moreover have "logical_lines ?ps \<noteq> []" using le logical_ne[of ?ps] by simp
  ultimately show ?thesis using l le len split_on_unlines by blast
qed

text \<open>A command wrapped over two rows and the next line, selected whole.\<close>

definition wrapped_page :: select_page where
  "wrapped_page = one_row\<lparr>lines := [\<lparr>bl_text = [97, 32], bl_wrapped = False\<rparr>, \<lparr>bl_text = [98, 32], bl_wrapped = True\<rparr>,
       \<lparr>bl_text = [99, 32], bl_wrapped = False\<rparr>], term_rows := 3, viewY := 0, top_row := 0,
     rows := [\<lparr>mr_div = 0, mr_text = [97, 32], mr_join = True\<rparr>, \<lparr>mr_div = 1, mr_text = [98, 32], mr_join = False\<rparr>,
       \<lparr>mr_div = 2, mr_text = [99, 32], mr_join = False\<rparr>]\<rparr>"

lemma copy_joins_soft_wraps_witness:
  "\<exists>out. copied wrapped_page (InSheet 0) (InText 2 1) = Some out \<and> split_on 10 out = [[97, 32, 98], [99]]"
proof -
  have s: "shows_window wrapped_page" "\<forall>l \<in> set (lines wrapped_page). 10 \<notin> set (bl_text l)"
    by (simp_all add: wrapped_page_def one_row_def shows_window_def line_text_def joins_next_def getLine_def)
  have rows: "length (rows wrapped_page) = 3" by (simp add: wrapped_page_def)
  have l: "locate wrapped_page (InSheet 0) False = Some (0, 0)" "locate wrapped_page (InText 2 1) True = Some (2, 1)"
    by (simp_all add: wrapped_page_def one_row_def locate_def sheet_end_def row_index_def numeral_nat)
  then obtain out where out: "copied wrapped_page (InSheet 0) (InText 2 1) = Some out" by (simp add: copied_def)
  have "map (buffer_part wrapped_page (0, 0) (2, 1)) [0..<Suc 2] = [([97, 32], True), ([98, 32], False), ([99], False)]"
    by (simp add: wrapped_page_def one_row_def buffer_part_def line_text_def joins_next_def getLine_def slice_def numeral_nat)
  then have "logical_lines (map (buffer_part wrapped_page (0, 0) (2, 1)) [0..<Suc 2]) = [[97, 32, 98], [99]]"
    by (simp add: trim_end_def is_ws_def)
  then show ?thesis using copy_joins_soft_wraps[OF s out] out l
    by (simp only: option.inject ex_simps simp_thms fst_conv snd_conv)
qed

end
