(* ===== verification/ClientLoad.thy ===== *)
theory ClientLoad
  imports Codec
begin

text \<open>
  \<^verbatim>\<open>site/app.mjs\<close> and \<^verbatim>\<open>site/polyengine-entry.ts\<close>, obtaining the client component: fetching its
  bytes, the one translator, the instance and its terminal interface (\<open>loadClient\<close>), the page's one cached
  load (\<open>api\<close>), what the loaded build can do (\<open>capabilities\<close>) and the questions put to it. The runtime
  linker and the files behind the addresses are parameters.
\<close>

subsection \<open>Loading the component once\<close>

text \<open>An answer of \<open>fetch\<close>; the body can still fail to arrive.\<close>

record response =
  resp_status :: nat
  resp_statusText :: jstr
  resp_body :: "jstr + bytes"

definition resp_ok :: "response \<Rightarrow> bool" where
  "resp_ok r \<longleftrightarrow> 200 \<le> resp_status r \<and> resp_status r < 300"

definition fetchBytes :: "(jstr \<Rightarrow> jstr + response) \<Rightarrow> jstr \<Rightarrow> jstr + bytes" where
  "fetchBytes fetch url =
     (case fetch url of
        Inl e \<Rightarrow> Inl e
      | Inr r \<Rightarrow>
          if \<not> resp_ok r then Inl (js ''GET '' @ url @ js '': '' @ show_nat (resp_status r) @ [32] @ resp_statusText r)
          else resp_body r)"

text \<open>The runtime linker: \<open>Translator.create\<close>, \<open>translator.translate\<close>, \<open>instantiate\<close> (what it exports, by name).\<close>

record ('t, 'p, 'i) linker =
  lk_create :: "bytes \<Rightarrow> jstr + 't"
  lk_translate :: "'t \<Rightarrow> bytes \<Rightarrow> jstr + 'p"
  lk_instantiate :: "'p \<Rightarrow> bytes \<Rightarrow> jstr + (jstr \<Rightarrow> 'i option)"

definition TERMINAL_INTERFACE :: jstr where "TERMINAL_INTERFACE = js ''wosh:terminal/terminal''"

text \<open>\<open>translate\<close>: what it comes to and the cached translator after it.\<close>

definition translate ::
  "('t, 'p, 'i) linker \<Rightarrow> (jstr \<Rightarrow> jstr + response) \<Rightarrow> jstr \<Rightarrow> jstr \<Rightarrow> 't option \<Rightarrow> (jstr + 'p \<times> bytes) \<times> 't option" where
  "translate lk fetch wasmUrl translatorUrl cached =
     (let made = (case cached of
                    Some t \<Rightarrow> Inr t
                  | None \<Rightarrow> (case fetchBytes fetch translatorUrl of Inl e \<Rightarrow> Inl e | Inr bs \<Rightarrow> lk_create lk bs)) in
      case made of
        Inl e \<Rightarrow> (Inl e, cached)
      | Inr t \<Rightarrow>
          (case fetchBytes fetch wasmUrl of
             Inl e \<Rightarrow> (Inl e, Some t)
           | Inr bs \<Rightarrow>
               (case lk_translate lk t bs of Inl e \<Rightarrow> (Inl e, Some t) | Inr p \<Rightarrow> (Inr (p, bs), Some t))))"

definition loadClient ::
  "('t, 'p, 'i) linker \<Rightarrow> (jstr \<Rightarrow> jstr + response) \<Rightarrow> jstr \<Rightarrow> jstr \<Rightarrow> 't option \<Rightarrow> (jstr + 'i) \<times> 't option" where
  "loadClient lk fetch wasmUrl translatorUrl cached =
     (case translate lk fetch wasmUrl translatorUrl cached of
        (Inl e, t) \<Rightarrow> (Inl e, t)
      | (Inr (p, bs), t) \<Rightarrow>
          ((case lk_instantiate lk p bs of
              Inl e \<Rightarrow> Inl e
            | Inr exports \<Rightarrow>
                (case exports TERMINAL_INTERFACE of
                   None \<Rightarrow> Inl (js ''component exports no '' @ TERMINAL_INTERFACE)
                 | Some i \<Rightarrow> Inr i)), t))"

subsection \<open>The page's one load\<close>

text \<open>A load is first waiting for the module of the linker, then for \<open>loadClient\<close>.\<close>

datatype 'i client_load = Importing | Loading | Loaded 'i | ImportFailed jstr | LoadFailed jstr

record ('t, 'i) client =
  clientLoad :: "nat option"
  loads :: "'i client_load list"
  translator :: "'t option"
  load_status :: jstr

text \<open>\<open>api()\<close>: the number of the load whose promise the caller gets.\<close>

definition api :: "('t, 'i) client \<Rightarrow> nat \<times> ('t, 'i) client" where
  "api s =
     (case clientLoad s of
        Some i \<Rightarrow> (i, s)
      | None \<Rightarrow> (length (loads s), s\<lparr>clientLoad := Some (length (loads s)), loads := loads s @ [Importing]\<rparr>))"

text \<open>The import of the module settles; \<open>loadClient\<close> settles, with the answers \<open>fetch\<close> gave meanwhile.\<close>

definition import_settles :: "nat \<Rightarrow> jstr option \<Rightarrow> ('t, 'i) client \<Rightarrow> ('t, 'i) client" where
  "import_settles i e s =
     (if i < length (loads s) \<and> loads s ! i = Importing then
        (case e of
           Some m \<Rightarrow> s\<lparr>loads := (loads s)[i := ImportFailed m]\<rparr>
         | None \<Rightarrow> s\<lparr>loads := (loads s)[i := Loading], load_status := js ''loading the client'' @ [0x2026]\<rparr>)
      else s)"

definition load_settles ::
  "('t, 'p, 'i) linker \<Rightarrow> jstr \<times> jstr \<Rightarrow> nat \<Rightarrow> (jstr \<Rightarrow> jstr + response) \<Rightarrow> ('t, 'i) client \<Rightarrow> ('t, 'i) client" where
  "load_settles lk urls i fetch s =
     (if i < length (loads s) \<and> loads s ! i = Loading then
        (case loadClient lk fetch (fst urls) (snd urls) (translator s) of
           (Inr t, tr) \<Rightarrow> s\<lparr>loads := (loads s)[i := Loaded t], load_status := js ''ready'', translator := tr\<rparr>
         | (Inl m, tr) \<Rightarrow> s\<lparr>loads := (loads s)[i := LoadFailed m], clientLoad := None,
                            load_status := js ''failed to load the client'', translator := tr\<rparr>)
      else s)"

text \<open>\<open>sessionEnded\<close> discards the instance when a session died of a poisoned one: \<open>kind\<close> is what the component
  still said about the end, \<open>forbidden\<close> whether \<open>why\<close> matches \<open>/reentrance forbidden/\<close>. A load on its way goes on.\<close>

definition poison_check :: "jstr option \<Rightarrow> bool \<Rightarrow> ('t, 'i) client \<Rightarrow> ('t, 'i) client" where
  "poison_check kind forbidden s = (if kind = None \<and> forbidden then s\<lparr>clientLoad := None\<rparr> else s)"

datatype load_event =
    ApiCalled
  | ImportSettles nat "jstr option"
  | LoadSettles nat "jstr \<Rightarrow> jstr + response"
  | SessionOver "jstr option" bool

fun load_step :: "('t, 'p, 'i) linker \<Rightarrow> jstr \<times> jstr \<Rightarrow> ('t, 'i) client \<Rightarrow> load_event \<Rightarrow> ('t, 'i) client" where
  "load_step lk urls s ApiCalled = snd (api s)"
| "load_step lk urls s (ImportSettles i e) = import_settles i e s"
| "load_step lk urls s (LoadSettles i fetch) = load_settles lk urls i fetch s"
| "load_step lk urls s (SessionOver kind forbidden) = poison_check kind forbidden s"

fun discards :: "load_event \<Rightarrow> bool" where
  "discards (SessionOver kind forbidden) \<longleftrightarrow> kind = None \<and> forbidden"
| "discards _ \<longleftrightarrow> False"

definition no_client :: "('t, 'i) client" where
  "no_client = \<lparr>clientLoad = None, loads = [], translator = None, load_status = []\<rparr>"

text \<open>The transfer panel's \<open>poly()\<close>: its own import of the bundle, whose failure is not kept, and the worker
  handed to it once. Waiting calls settle in any order; the answer says whether the import came through.\<close>

record poly_state =
  polyengineMod :: bool
  workerInjected :: bool
  workers_made :: nat
  waiting :: nat

definition poly_called :: "poly_state \<Rightarrow> poly_state" where
  "poly_called s =
     (if polyengineMod s then (if workerInjected s then s else s\<lparr>workers_made := workers_made s + 1, workerInjected := True\<rparr>)
      else s\<lparr>waiting := waiting s + 1\<rparr>)"

definition poly_imported :: "bool \<Rightarrow> poly_state \<Rightarrow> poly_state" where
  "poly_imported ok s =
     (if waiting s = 0 then s
      else if \<not> ok then s\<lparr>waiting := waiting s - 1\<rparr>
      else (let s1 = s\<lparr>waiting := waiting s - 1, polyengineMod := True\<rparr> in
            if workerInjected s1 then s1 else s1\<lparr>workers_made := workers_made s1 + 1, workerInjected := True\<rparr>))"

lemma poly_one_worker:
  assumes "workers_made s = (if workerInjected s then 1 else 0)"
  shows "workers_made (poly_called s) = (if workerInjected (poly_called s) then 1 else 0)"
    "workers_made (poly_imported ok s) = (if workerInjected (poly_imported ok s) then 1 else 0)"
  using assms by (auto simp: poly_called_def poly_imported_def Let_def)


subsection \<open>A failed load is not kept\<close>

fun unsettled :: "'i client_load \<Rightarrow> bool" where
  "unsettled Importing = True" | "unsettled Loading = True" | "unsettled _ = False"

fun load_failed :: "'i client_load \<Rightarrow> bool" where
  "load_failed (LoadFailed e) = True" | "load_failed _ = False"

fun import_failed :: "'i client_load \<Rightarrow> bool" where
  "import_failed (ImportFailed e) = True" | "import_failed _ = False"

text \<open>The loads under way that no new caller would get.\<close>

definition strays :: "('t, 'i) client \<Rightarrow> nat set" where
  "strays s = {i. i < length (loads s) \<and> unsettled (loads s ! i) \<and> clientLoad s \<noteq> Some i}"

definition load_inv :: "nat \<Rightarrow> ('t, 'i) client \<Rightarrow> bool" where
  "load_inv n s \<longleftrightarrow> card (strays s) \<le> n \<and>
     (\<forall>i. clientLoad s = Some i \<longrightarrow> i < length (loads s) \<and> \<not> load_failed (loads s ! i))"

lemma load_invD: "load_inv n s \<Longrightarrow> clientLoad s = Some i \<Longrightarrow> i < length (loads s) \<and> \<not> load_failed (loads s ! i)"
  by (simp add: load_inv_def)

lemma strays_finite [simp]: "finite (strays s)"
  by (simp add: strays_def)

lemma under_way: "{i. i < length (loads s) \<and> unsettled (loads s ! i)} \<subseteq> strays s \<union> set_option (clientLoad s)"
  by (auto simp: strays_def)

lemma strays_subset: "strays t \<subseteq> strays s \<Longrightarrow> card (strays t) \<le> card (strays s)"
  by (simp add: card_mono)

text \<open>When a load fails, it is a stray no more; the load its failure drops from the cache may become one.\<close>

lemma strays_failed:
  assumes "i < length (loads s)" and "unsettled (loads s ! i)"
    and "loads t = (loads s)[i := LoadFailed m]" and "clientLoad t = None"
  shows "card (strays t) \<le> card (strays s)"
proof (cases "clientLoad s = Some i")
  case True
  then have "strays t \<subseteq> strays s" using assms by (auto simp: strays_def nth_list_update)
  then show ?thesis by (rule strays_subset)
next
  case False
  then have i: "i \<in> strays s" using assms by (simp add: strays_def)
  have "strays t \<subseteq> (strays s - {i}) \<union> set_option (clientLoad s)"
    using assms by (auto simp: strays_def nth_list_update)
  then have "card (strays t) \<le> card ((strays s - {i}) \<union> set_option (clientLoad s))" by (intro card_mono) auto
  also have "\<dots> \<le> card (strays s - {i}) + card (set_option (clientLoad s))" by (rule card_Un_le)
  also have "\<dots> \<le> card (strays s)"
  proof -
    have "card (set_option (clientLoad s)) \<le> 1" by (cases "clientLoad s") auto
    moreover have "Suc (card (strays s - {i})) = card (strays s)" using i by (intro card_Suc_Diff1) simp_all
    ultimately show ?thesis by linarith
  qed
  finally show ?thesis .
qed

lemma load_inv_step: "load_inv n s \<Longrightarrow> load_inv (n + (if discards e then 1 else 0)) (load_step lk urls s e)"
proof (cases e)
  case ApiCalled
  assume a: "load_inv n s"
  show ?thesis
  proof (cases "clientLoad s")
    case None
    then have "strays (snd (api s)) \<subseteq> strays s" by (auto simp: api_def strays_def nth_append less_Suc_eq)
    then have "card (strays (snd (api s))) \<le> card (strays s)" by (rule strays_subset)
    then show ?thesis using a None by (simp add: ApiCalled load_inv_def api_def)
  qed (use a in \<open>simp add: ApiCalled api_def\<close>)
next
  case (ImportSettles i m)
  assume a: "load_inv n s"
  let ?t = "import_settles i m s"
  have "strays ?t \<subseteq> strays s"
    by (auto simp: import_settles_def strays_def nth_list_update split: option.splits if_splits)
  then have "card (strays ?t) \<le> card (strays s)" by (rule strays_subset)
  then show ?thesis using a
    by (auto simp: ImportSettles load_inv_def import_settles_def nth_list_update split: option.splits if_splits)
next
  case (LoadSettles i fetch)
  assume a: "load_inv n s"
  show ?thesis
  proof (cases "i < length (loads s) \<and> loads s ! i = Loading")
    case True
    obtain r tr where r: "loadClient lk fetch (fst urls) (snd urls) (translator s) = (r, tr)" by fastforce
    let ?t = "load_settles lk urls i fetch s"
    show ?thesis
    proof (cases r)
      case (Inl m)
      then have "loads ?t = (loads s)[i := LoadFailed m]" "clientLoad ?t = None" using True by (simp_all add: load_settles_def r)
      with strays_failed[of i s ?t m] True a show ?thesis by (auto simp: LoadSettles load_inv_def)
    next
      case (Inr x)
      have "strays ?t \<subseteq> strays s" using True Inr by (auto simp: load_settles_def r strays_def nth_list_update split: if_splits)
      then have "card (strays ?t) \<le> card (strays s)" by (rule strays_subset)
      then show ?thesis using a True Inr by (auto simp: LoadSettles load_inv_def load_settles_def r nth_list_update)
    qed
  qed (use a in \<open>auto simp: LoadSettles load_settles_def\<close>)
next
  case (SessionOver kind forbidden)
  assume a: "load_inv n s"
  show ?thesis
  proof (cases "kind = None \<and> forbidden")
    case True
    let ?t = "poison_check kind forbidden s"
    have "strays ?t \<subseteq> strays s \<union> set_option (clientLoad s)" using True by (auto simp: poison_check_def strays_def)
    then have "card (strays ?t) \<le> card (strays s \<union> set_option (clientLoad s))" by (intro card_mono) auto
    also have "\<dots> \<le> card (strays s) + card (set_option (clientLoad s))" by (rule card_Un_le)
    also have "\<dots> \<le> card (strays s) + 1" by (cases "clientLoad s") auto
    finally show ?thesis using a True by (simp add: SessionOver load_inv_def poison_check_def)
  qed (use a in \<open>auto simp: SessionOver poison_check_def\<close>)
qed

lemma load_inv_run: "load_inv (length (filter discards es)) (foldl (load_step lk urls) no_client es)"
proof (induction es rule: rev_induct)
  case (snoc e es)
  then show ?case using load_inv_step[OF snoc, of e lk urls] by (cases "discards e") simp_all
qed (simp add: load_inv_def no_client_def strays_def)

lemma loads_under_way:
  assumes "load_inv n s"
  shows "card {i. i < length (loads s) \<and> unsettled (loads s ! i)} \<le> n + 1"
proof -
  have "card {i. i < length (loads s) \<and> unsettled (loads s ! i)} \<le> card (strays s \<union> set_option (clientLoad s))"
    using under_way by (intro card_mono) auto
  also have "\<dots> \<le> card (strays s) + card (set_option (clientLoad s))" by (rule card_Un_le)
  also have "\<dots> \<le> n + 1" using assms by (cases "clientLoad s") (auto simp: load_inv_def)
  finally show ?thesis .
qed

text \<open>The network serves every file and the linker takes what it serves.\<close>

definition served :: "('t, 'p, 'i) linker \<Rightarrow> (jstr \<Rightarrow> jstr + response) \<Rightarrow> bool" where
  "served lk fetch \<longleftrightarrow>
     (\<forall>url. \<exists>r bs. fetch url = Inr r \<and> resp_ok r \<and> resp_body r = Inr bs) \<and>
     (\<forall>bs. \<exists>t. lk_create lk bs = Inr t) \<and> (\<forall>t bs. \<exists>p. lk_translate lk t bs = Inr p) \<and>
     (\<forall>p bs. \<exists>ex i. lk_instantiate lk p bs = Inr ex \<and> ex TERMINAL_INTERFACE = Some i)"

lemma fetch_served: "served lk fetch \<Longrightarrow> \<exists>bs. fetchBytes fetch url = Inr bs"
proof -
  assume "served lk fetch"
  then obtain r bs where "fetch url = Inr r" "resp_ok r" "resp_body r = Inr bs" unfolding served_def by blast
  then show ?thesis by (simp add: fetchBytes_def)
qed

lemma load_served:
  assumes "served lk fetch"
  shows "\<exists>t tr. loadClient lk fetch wasm tr_url cached = (Inr t, Some tr)"
proof -
  obtain bs cs where b: "fetchBytes fetch tr_url = Inr bs" "fetchBytes fetch wasm = Inr cs" using fetch_served[OF assms] by metis
  obtain tr0 where t0: "lk_create lk bs = Inr tr0" using assms unfolding served_def by blast
  define tr where "tr = (case cached of Some t \<Rightarrow> t | None \<Rightarrow> tr0)"
  obtain p where p: "lk_translate lk tr cs = Inr p" using assms unfolding served_def by blast
  obtain ex i where "lk_instantiate lk p cs = Inr ex" "ex TERMINAL_INTERFACE = Some i" using assms unfolding served_def by metis
  then show ?thesis using b t0 p by (cases cached) (auto simp: loadClient_def translate_def tr_def)
qed

text \<open>C13: A failed load of the client is not kept. However the page's calls, imports, loads and ends of sessions
  were ordered so far: a load that failed is never the one callers get; the loads under way are at most one more
  than the sessions that discarded a poisoned instance, so there is at most one where none did, and then every
  caller shares it. And a call made now, unless the cached load failed at importing the linker's module, comes
  to a loaded component once the network serves the files, whatever failed before; that load is then the one
  the next caller gets.\<close>

theorem failed_load_retried:
  assumes "s = foldl (load_step lk urls) no_client es"
    and "\<forall>i. clientLoad s = Some i \<longrightarrow> \<not> import_failed (loads s ! i)" and "served lk fetch"
  shows "(\<forall>i. clientLoad s = Some i \<longrightarrow> i < length (loads s) \<and> \<not> load_failed (loads s ! i)) \<and>
    card {i. i < length (loads s) \<and> unsettled (loads s ! i)} \<le> length (filter discards es) + 1 \<and>
    ((\<forall>e \<in> set es. \<not> discards e) \<longrightarrow> (\<forall>i < length (loads s). unsettled (loads s ! i) \<longrightarrow> clientLoad s = Some i)) \<and>
    (let (i, s1) = api s; s2 = foldl (load_step lk urls) s1 [ImportSettles i None, LoadSettles i fetch] in
      (\<exists>t. i < length (loads s2) \<and> loads s2 ! i = Loaded t) \<and> api s2 = (i, s2))"
proof -
  have inv: "load_inv (length (filter discards es)) s" using load_inv_run assms(1) by simp
  have shared: "\<forall>i < length (loads s). unsettled (loads s ! i) \<longrightarrow> clientLoad s = Some i" if "\<forall>e \<in> set es. \<not> discards e"
  proof -
    have "length (filter discards es) = 0" using that by (simp add: filter_empty_conv)
    then have "card (strays s) = 0" using inv by (simp add: load_inv_def)
    then have "strays s = {}" by simp
    then show ?thesis by (auto simp: strays_def)
  qed
  obtain i s1 where a: "api s = (i, s1)" by (cases "api s")
  have c: "clientLoad s1 = Some i" "i < length (loads s1)" "\<not> load_failed (loads s1 ! i)" "\<not> import_failed (loads s1 ! i)"
    using a load_invD[OF inv] assms(2) by (auto simp: api_def split: option.splits)
  let ?s2 = "foldl (load_step lk urls) s1 [ImportSettles i None, LoadSettles i fetch]"
  let ?u = "import_settles i None s1"
  obtain t tr where t: "loadClient lk fetch (fst urls) (snd urls) (translator ?u) = (Inr t, tr)"
    using load_served[OF assms(3), of "fst urls" "snd urls" "translator ?u"] by blast
  have u: "clientLoad ?u = Some i" "length (loads ?u) = length (loads s1)"
    "loads ?u ! i = (if loads s1 ! i = Importing then Loading else loads s1 ! i)"
    using c by (simp_all add: import_settles_def)
  have "(\<exists>t. i < length (loads ?s2) \<and> loads ?s2 ! i = Loaded t) \<and> clientLoad ?s2 = Some i"
  proof (cases "loads ?u ! i = Loading")
    case True
    then show ?thesis using u c t by (simp add: load_settles_def)
  next
    case False
    then have "\<exists>x. loads s1 ! i = Loaded x" using u c by (cases "loads s1 ! i") auto
    then show ?thesis using u c False by (auto simp: load_settles_def)
  qed
  then have "(\<exists>t. i < length (loads ?s2) \<and> loads ?s2 ! i = Loaded t) \<and> api ?s2 = (i, ?s2)" by (simp add: api_def)
  moreover note loads_under_way[OF inv] shared load_invD[OF inv]
  ultimately show ?thesis unfolding Let_def a prod.case by blast
qed

definition demo_linker :: "(unit, unit, nat) linker" where
  "demo_linker = \<lparr>lk_create = \<lambda>_. Inr (), lk_translate = \<lambda>_ _. Inr (), lk_instantiate = \<lambda>_ _. Inr (\<lambda>_. Some 7)\<rparr>"

definition failed_once :: "(unit, nat) client" where
  "failed_once = foldl (load_step demo_linker ([], [])) no_client [ApiCalled, ImportSettles 0 None, LoadSettles 0 (\<lambda>_. Inl [])]"

lemma failed_load_retried_witness:
  "loads failed_once = [LoadFailed []] \<and>
   (\<exists>t. loads (foldl (load_step demo_linker ([], [])) (snd (api failed_once))
     [ImportSettles 1 None, LoadSettles 1 (\<lambda>_. Inr \<lparr>resp_status = 200, resp_statusText = [], resp_body = Inr []\<rparr>)]) ! 1 = Loaded t)"
proof -
  let ?f = "\<lambda>_ :: jstr. Inr \<lparr>resp_status = 200, resp_statusText = [], resp_body = Inr []\<rparr> :: jstr + response"
  have sv: "served demo_linker ?f" by (simp add: served_def demo_linker_def resp_ok_def)
  have v: "loads failed_once = [LoadFailed []]" "clientLoad failed_once = None"
    by (simp_all add: failed_once_def no_client_def api_def import_settles_def load_settles_def loadClient_def translate_def fetchBytes_def)
  then have "\<forall>i. clientLoad failed_once = Some i \<longrightarrow> \<not> import_failed (loads failed_once ! i)" by simp
  moreover obtain s1 where a: "api failed_once = (1, s1)" by (simp add: api_def v)
  ultimately show ?thesis
    using failed_load_retried[OF failed_once_def, of ?f] sv v(1) unfolding Let_def a by simp
qed

text \<open>But a failed import of that module is kept: its promise is what every later call gets, until a session
  dies of a poisoned instance.\<close>

lemma import_failure_kept:
  assumes "\<forall>l \<in> set (loads s). \<not> unsettled l" and "clientLoad s = Some i" and "loads s ! i = ImportFailed m"
    and "\<forall>e \<in> set es. \<not> discards e"
  shows "fst (api (foldl (load_step lk urls) s es)) = i \<and> loads (foldl (load_step lk urls) s es) ! i = ImportFailed m"
  using assms
proof (induction es arbitrary: s)
  case (Cons e es)
  let ?t = "load_step lk urls s e"
  have settled: "\<not> unsettled (loads s ! j)" if "j < length (loads s)" for j
    using Cons.prems(1) that by simp
  have "?t = s"
  proof (cases e)
    case (ImportSettles j f)
    then show ?thesis using settled[of j] by (auto simp: import_settles_def)
  next
    case (LoadSettles j f)
    then show ?thesis using settled[of j] by (auto simp: load_settles_def)
  next
    case (SessionOver kind forbidden)
    then show ?thesis using Cons.prems(4) by (auto simp: poison_check_def)
  qed (use Cons.prems(2) in \<open>simp add: api_def\<close>)
  then show ?case using Cons.IH[of s] Cons.prems by simp
qed (simp add: api_def)

text \<open>And a discarded load that fails late empties the cache of the load made since: a third one is started
  while the second is on its way.\<close>

lemma late_failure_drops_newer:
  "let s = foldl (load_step demo_linker ([], [])) no_client
      [ApiCalled, ImportSettles 0 None, SessionOver None True, ApiCalled, ImportSettles 1 None, LoadSettles 0 (\<lambda>_. Inl [])]
   in loads s = [LoadFailed [], Loading] \<and> clientLoad s = None \<and> fst (api s) = 2"
  by (simp add: no_client_def api_def import_settles_def load_settles_def loadClient_def translate_def fetchBytes_def
      poison_check_def Let_def)

end
