(* ===== verification/Scrollback.thy ===== *)
theory Scrollback
  imports Screen BufferStore Connstring WebStorage
begin

text \<open>
  Scrollback across page loads: the prefetch of \<open>doConnect\<close> (\<^verbatim>\<open>site/boot.mjs\<close>), the saves and the restore of
  \<^verbatim>\<open>site/app.mjs\<close> and the store of \<^verbatim>\<open>site/buffer-store.mjs\<close> together. A browser is its tabs, each with its
  terminal, the dials it made and what they prefetched; the writes on their way to the database; and the
  database. Writes land in any order, any of them may fail.
\<close>

subsection \<open>The prefetch of a dial\<close>

text \<open>\<^verbatim>\<open>`${id} ${user}`\<close>\<close>

definition scrollback_key :: "jstr \<Rightarrow> jstr \<Rightarrow> jstr option" where
  "scrollback_key connstring user =
     (case endpointIdOf connstring of None \<Rightarrow> None | Some i \<Rightarrow> Some (i @ [32] @ user))"

text \<open>\<open>new Date(at).toISOString()\<close> throws for a time that is none or out of range; the restore is then skipped.\<close>

definition valid_date :: "int option \<Rightarrow> bool" where
  "valid_date at_ms = (case at_ms of None \<Rightarrow> False | Some t \<Rightarrow> \<bar>t\<bar> \<le> 8640000000000000)"

text \<open>What \<open>doConnect\<close> hands to \<open>connect\<close>: \<open>persistKey\<close> and \<open>restore\<close>.\<close>

definition prefetch :: "storage \<Rightarrow> jstr \<Rightarrow> jstr \<Rightarrow> buf_fail \<Rightarrow> buffer_store \<Rightarrow> jstr option \<times> jstr option \<times> buffer_store" where
  "prefetch st connstring user f db =
     (if \<not> scrollbackEnabled st then (None, None, db)
      else case scrollback_key connstring user of
        None \<Rightarrow> (None, None, db)
      | Some key \<Rightarrow>
          (case buf_get f key db of
             (saved, db') \<Rightarrow>
               (Some key,
                (case saved of
                   Some v \<Rightarrow> (case d_buf v of
                                Some (c # text) \<Rightarrow> if valid_date (d_at v) then Some (c # text) else None
                              | _ \<Rightarrow> None)
                 | None \<Rightarrow> None),
                db')))"

subsection \<open>Tabs and the database\<close>

record tab =
  tab_screen :: screen
  dialed :: "(jstr \<times> jstr) list"
  prefetched :: "(jstr \<times> jstr \<times> jstr \<times> jstr) list"

record browser =
  tabs :: "tab list"
  putting :: "(jstr \<times> jstr) list"
  database :: buffer_store
  dumped :: "(jstr \<times> jstr \<times> piece list) list"

text \<open>\<open>Happens\<close> is anything that happens to a terminal but a restore: \<open>Restores\<close> is the restore of one of the
  tab's own prefetches, with the lines and the cursor the terminal has then. \<open>dumped\<close> records what was on
  the terminal at each save.\<close>

datatype browser_event =
    NewTab
  | DialIn nat storage jstr jstr buf_fail
  | Happens nat screen_event
  | Restores nat nat "jstr list" nat
  | PutLands nat buf_fail int
  | WipeAll buf_fail

fun is_restore :: "screen_event \<Rightarrow> bool" where
  "is_restore (Restore dump key ls c) = True"
| "is_restore _ = False"

definition on_tab :: "nat \<Rightarrow> (tab \<Rightarrow> tab) \<Rightarrow> browser \<Rightarrow> browser" where
  "on_tab i f b = b\<lparr>tabs := (tabs b)[i := f (tabs b ! i)]\<rparr>"

definition screen_happens :: "serializer \<Rightarrow> nat \<Rightarrow> screen_event \<Rightarrow> browser \<Rightarrow> browser" where
  "screen_happens addon i e b =
     (let s = tab_screen (tabs b ! i);
          t = screen_step addon s e;
          new = drop (length (saves s)) (saves t)
      in (on_tab i (tab_screen_update (\<lambda>_. t)) b)
           \<lparr>putting := putting b @ new, dumped := dumped b @ map (\<lambda>(k, d). (k, d, on_screen t)) new\<rparr>)"

fun browser_step :: "serializer \<Rightarrow> browser \<Rightarrow> browser_event \<Rightarrow> browser" where
  "browser_step addon b NewTab =
     b\<lparr>tabs := tabs b @ [\<lparr>tab_screen = blank_screen, dialed = [], prefetched = []\<rparr>]\<rparr>"
| "browser_step addon b (DialIn i st connstring user f) =
     (if i \<ge> length (tabs b) then b
      else (case prefetch st connstring user f (database b) of
              (key, dump, db) \<Rightarrow>
                on_tab i (\<lambda>t. t\<lparr>dialed := dialed t @ [(connstring, user)],
                    prefetched := prefetched t @
                      (case (key, dump) of (Some k, Some d) \<Rightarrow> [(connstring, user, k, d)] | _ \<Rightarrow> [])\<rparr>)
                  (b\<lparr>database := db\<rparr>)))"
| "browser_step addon b (Happens i e) =
     (if i \<ge> length (tabs b) \<or> is_restore e then b else screen_happens addon i e b)"
| "browser_step addon b (Restores i j ls c) =
     (if i \<ge> length (tabs b) \<or> j \<ge> length (prefetched (tabs b ! i)) then b
      else (case prefetched (tabs b ! i) ! j of
              (connstring, user, key, dump) \<Rightarrow>
                screen_happens addon i (Restore dump (Some key) ls c) b))"
| "browser_step addon b (PutLands j f now) =
     (if j \<ge> length (putting b) then b
      else b\<lparr>putting := take j (putting b) @ drop (Suc j) (putting b),
             database := buf_put f now (fst (putting b ! j)) (snd (putting b ! j)) (database b)\<rparr>)"
| "browser_step addon b (WipeAll f) = b\<lparr>database := buf_wipe f (database b)\<rparr>"

definition new_browser :: browser where
  "new_browser = \<lparr>tabs = [], putting = [], database = \<lparr>buffers = [], warned = False, warnings = 0\<rparr>, dumped = []\<rparr>"

subsection \<open>Where a stored dump comes from\<close>

definition pure_dump :: "serializer \<Rightarrow> jstr \<times> jstr \<times> piece list \<Rightarrow> bool" where
  "pure_dump addon = (\<lambda>(k, d, ps). (\<exists>serialize. addon = Some serialize \<and> d = serialize ps) \<and>
     (\<forall>p \<in> set ps. piece_owner p \<in> {None, Some (Key k)}))"

definition from_log :: "browser \<Rightarrow> jstr \<Rightarrow> jstr \<Rightarrow> bool" where
  "from_log b k d \<longleftrightarrow> (\<exists>ps. (k, d, ps) \<in> set (dumped b))"

definition tab_ok :: "browser \<Rightarrow> tab \<Rightarrow> bool" where
  "tab_ok b t \<longleftrightarrow> owner_inv (tab_screen t) \<and>
     (\<forall>(c, u, k, d) \<in> set (prefetched t). (c, u) \<in> set (dialed t) \<and> scrollback_key c u = Some k \<and> from_log b k d) \<and>
     (\<forall>w d. RestoredDump w d \<in> set (on_screen (tab_screen t)) \<longrightarrow> (\<exists>c u k. w = Key k \<and> (c, u, k, d) \<in> set (prefetched t)))"

definition browser_inv :: "serializer \<Rightarrow> browser \<Rightarrow> bool" where
  "browser_inv addon b \<longleftrightarrow> list_all (pure_dump addon) (dumped b) \<and> (\<forall>t \<in> set (tabs b). tab_ok b t) \<and>
     (\<forall>(k, d) \<in> set (putting b). from_log b k d) \<and>
     buf_ok (database b) \<and> (\<forall>k d. dump_text k (database b) = Some d \<longrightarrow> from_log b k d)"

lemma new_saves:
  "saves (screen_step addon s e) = saves s \<or>
   (\<exists>k serialize. addon = Some serialize \<and> terminalOwner (screen_step addon s e) = Sole (Key k) \<and>
      saves (screen_step addon s e) = saves s @ [(k, serialize (on_screen (screen_step addon s e)))])"
  by (cases e) (auto simp: screen_defs Let_def split: owner.splits option.splits terminal_owner.splits if_splits)

lemma restored_pieces:
  "RestoredDump w d \<in> set (on_screen (screen_step addon s e)) \<Longrightarrow>
     RestoredDump w d \<in> set (on_screen s) \<or> (\<exists>key ls c. e = Restore d key ls c \<and> w = owner_of_key key)"
  by (cases e) (auto simp: screen_defs Let_def split: owner.splits option.splits terminal_owner.splits if_splits)

lemma new_saves_pure:
  assumes "owner_inv s" and "(k, d) \<in> set (drop (length (saves s)) (saves (screen_step addon s e)))"
  shows "pure_dump addon (k, d, on_screen (screen_step addon s e))"
proof -
  let ?t = "screen_step addon s e"
  from new_saves[of addon s e] assms(2) obtain serialize where
    t: "addon = Some serialize" "terminalOwner ?t = Sole (Key k)" "d = serialize (on_screen ?t)" by auto
  have "owner_inv ?t" by (rule owner_inv_step[OF assms(1)])
  then have "owners ?t \<subseteq> {Key k}" using t(2) by (simp add: owner_inv_def)
  moreover have "x \<in> owners ?t" if "p \<in> set (on_screen ?t)" "piece_owner p = Some x" for p x
    using that by (auto simp: owners_def)
  ultimately have "piece_owner p \<in> {None, Some (Key k)}" if "p \<in> set (on_screen ?t)" for p
    using that by (cases "piece_owner p") auto
  then show ?thesis using t by (simp add: pure_dump_def)
qed

lemma from_log_mono: "from_log b k d \<Longrightarrow> set (dumped b) \<subseteq> set (dumped b') \<Longrightarrow> from_log b' k d"
  unfolding from_log_def by blast

lemma tab_ok_mono: "tab_ok b t \<Longrightarrow> set (dumped b) \<subseteq> set (dumped b') \<Longrightarrow> tab_ok b' t"
  unfolding tab_ok_def using from_log_mono[of b _ _ b'] by fast

lemma dump_text_buffers: "buffers s = buffers t \<Longrightarrow> dump_text k s = dump_text k t"
  by (simp add: dump_text_get)

lemma prefetch_cases:
  assumes "prefetch st c u f db = (key, dump, db')"
  shows "buffers db' = buffers db" "buf_ok db \<Longrightarrow> buf_ok db'"
    "key = Some k \<Longrightarrow> dump = Some d \<Longrightarrow> scrollback_key c u = Some k \<and> dump_text k db = Some d"
  using assms
  by (auto simp: prefetch_def buf_get_def dump_text_get degrade_def buf_ok_def
      split: if_splits option.splits list.splits prod.splits)

lemma browser_inv_same_db:
  assumes "browser_inv addon b" and "buffers db = buffers (database b)" and "buf_ok db"
  shows "browser_inv addon (b\<lparr>database := db\<rparr>)"
  using assms dump_text_buffers[OF assms(2)]
  by (auto simp: browser_inv_def tab_ok_def from_log_def)

lemma browser_inv_dial:
  assumes inv: "browser_inv addon b" and i: "i < length (tabs b)"
  shows "browser_inv addon (browser_step addon b (DialIn i st c u f))"
proof -
  obtain key dump db where p: "prefetch st c u f (database b) = (key, dump, db)" by (metis prod_cases3)
  note q = prefetch_cases[OF p]
  define x where "x = (case (key, dump) of (Some k, Some d) \<Rightarrow> [(c, u, k, d)] | _ \<Rightarrow> [])"
  have x: "\<forall>(c', u', k, d) \<in> set x. c' = c \<and> u' = u \<and> scrollback_key c u = Some k \<and> from_log b k d"
    using q(3) inv by (auto simp: x_def browser_inv_def split: option.splits)
  let ?b = "b\<lparr>database := db\<rparr>"
  have b: "browser_inv addon ?b" using browser_inv_same_db[OF inv q(1) q(2)] inv by (simp add: browser_inv_def)
  let ?t = "tabs b ! i"
  let ?u = "?t\<lparr>dialed := dialed ?t @ [(c, u)], prefetched := prefetched ?t @ x\<rparr>"
  have "tab_ok b ?t" using inv i by (simp add: browser_inv_def)
  then have "tab_ok b ?u" using x by (fastforce simp: tab_ok_def)
  then have u: "tab_ok ?b ?u" by (rule tab_ok_mono) simp
  have "browser_step addon b (DialIn i st c u f) = ?b\<lparr>tabs := (tabs ?b)[i := ?u]\<rparr>"
    using i by (simp add: p on_tab_def x_def)
  moreover have "tab_ok (?b\<lparr>tabs := ts\<rparr>) t = tab_ok ?b t" "from_log (?b\<lparr>tabs := ts\<rparr>) k d = from_log ?b k d" for ts t k d
    by (simp_all add: tab_ok_def from_log_def)
  ultimately show ?thesis using b u set_update_subset_insert[of "tabs ?b" i ?u]
    unfolding browser_inv_def by auto
qed

lemma browser_inv_screen:
  assumes inv: "browser_inv addon b" and i: "i < length (tabs b)"
    and e: "\<not> is_restore e \<or> (\<exists>c u k d ls y. (c, u, k, d) \<in> set (prefetched (tabs b ! i)) \<and> e = Restore d (Some k) ls y)"
  shows "browser_inv addon (screen_happens addon i e b)"
proof -
  let ?t = "tabs b ! i"
  let ?s = "tab_screen ?t"
  let ?s' = "screen_step addon ?s e"
  define new where "new = drop (length (saves ?s)) (saves ?s')"
  let ?u = "tab_screen_update (\<lambda>_. ?s') ?t"
  define b' where "b' = screen_happens addon i e b"
  have b': "tabs b' = (tabs b)[i := ?u]" "putting b' = putting b @ new" "database b' = database b"
    "dumped b' = dumped b @ map (\<lambda>(k, d). (k, d, on_screen ?s')) new"
    by (simp_all add: b'_def screen_happens_def on_tab_def new_def Let_def)
  have t: "tab_ok b ?t" using inv i by (simp add: browser_inv_def)
  have pure: "pure_dump addon (k, d, on_screen ?s')" if "(k, d) \<in> set new" for k d
    using new_saves_pure t that unfolding new_def tab_ok_def by blast
  have sub: "set (dumped b) \<subseteq> set (dumped b')" by (simp add: b'(4))
  have "\<exists>c u k. w = Key k \<and> (c, u, k, d) \<in> set (prefetched ?t)" if r: "RestoredDump w d \<in> set (on_screen ?s')" for w d
  proof (cases "RestoredDump w d \<in> set (on_screen ?s)")
    case False
    then obtain key ls c where "e = Restore d key ls c" "w = owner_of_key key" using restored_pieces[OF r] by blast
    moreover from this e obtain c' u' k where "(c', u', k, d) \<in> set (prefetched ?t)" "key = Some k" by auto
    moreover from this t have "scrollback_key c' u' = Some k" unfolding tab_ok_def by fast
    ultimately show ?thesis
      by (intro exI[of _ c'] exI[of _ u'] exI[of _ k])
        (auto simp: owner_of_key_def scrollback_key_def split: option.splits list.splits)
  qed (use t in \<open>simp add: tab_ok_def\<close>)
  moreover have "owner_inv ?s'" using t owner_inv_step unfolding tab_ok_def by blast
  ultimately have "tab_ok b ?u" using t unfolding tab_ok_def by simp
  then have "tab_ok b' x" if "x \<in> set (tabs b')" for x
    using that inv set_update_subset_insert[of "tabs b" i ?u] tab_ok_mono[OF _ sub]
    unfolding b'(1) browser_inv_def by blast
  moreover have "from_log b' k d" if "(k, d) \<in> set (putting b')" for k d
    using that inv from_log_mono[OF _ sub] unfolding browser_inv_def b'(2) by (auto simp: from_log_def b'(4))
  moreover have "from_log b' k d" if "dump_text k (database b') = Some d" for k d
    using that inv from_log_mono[OF _ sub] unfolding browser_inv_def b'(3) by blast
  moreover have "list_all (pure_dump addon) (dumped b')"
    using inv pure unfolding browser_inv_def by (auto simp: b'(4) list_all_iff)
  moreover have "buf_ok (database b')" using inv by (simp add: b'(3) browser_inv_def)
  ultimately show ?thesis unfolding b'_def[symmetric] browser_inv_def by blast
qed

lemma browser_inv_step: "browser_inv addon b \<Longrightarrow> browser_inv addon (browser_step addon b e)"
proof (cases e)
  case NewTab
  assume "browser_inv addon b"
  moreover have "tab_ok b \<lparr>tab_screen = blank_screen, dialed = [], prefetched = []\<rparr>"
    by (simp add: tab_ok_def painting.ok_start) (simp add: blank_screen_def)
  ultimately show ?thesis by (auto simp: NewTab browser_inv_def tab_ok_def from_log_def)
next
  case (DialIn i st c u f)
  assume "browser_inv addon b"
  then show ?thesis using browser_inv_dial by (cases "i < length (tabs b)") (simp_all add: DialIn)
next
  case (Happens i x)
  assume "browser_inv addon b"
  then show ?thesis using browser_inv_screen by (auto simp: Happens)
next
  case (Restores i j ls y)
  assume inv: "browser_inv addon b"
  obtain c u k d where p: "j < length (prefetched (tabs b ! i)) \<Longrightarrow> prefetched (tabs b ! i) ! j = (c, u, k, d)"
    by (metis prod_cases4)
  show ?thesis
  proof (cases "i < length (tabs b) \<and> j < length (prefetched (tabs b ! i))")
    case True
    then have "(c, u, k, d) \<in> set (prefetched (tabs b ! i))" using nth_mem[of j "prefetched (tabs b ! i)"] p by simp
    then have "browser_inv addon (screen_happens addon i (Restore d (Some k) ls y) b)"
      by (intro browser_inv_screen[OF inv]) (use True in blast)+
    then show ?thesis using True p by (simp add: Restores)
  qed (use inv in \<open>auto simp: Restores\<close>)
next
  case (PutLands j f now)
  assume inv: "browser_inv addon b"
  show ?thesis
  proof (cases "j < length (putting b)")
    case True
    obtain k d where kd: "putting b ! j = (k, d)" by (cases "putting b ! j")
    let ?db = "buf_put f now k d (database b)"
    have "(k, d) \<in> set (putting b)" using nth_mem[OF True] kd by simp
    then have "from_log b k d" using inv unfolding browser_inv_def by fast
    moreover have "dump_text k' (database b) = Some d' \<or> k = k' \<and> d = d'" if "dump_text k' ?db = Some d'" for k' d'
      using dumps.honest[of "database b" k' "(f, now, k, d)" d'] that inv by (simp add: do_put_def browser_inv_def)
    ultimately have "\<forall>k' d'. dump_text k' ?db = Some d' \<longrightarrow> from_log b k' d'" using inv unfolding browser_inv_def by blast
    then show ?thesis using inv True buf_ok_put set_take_subset[of j "putting b"] set_drop_subset[of "Suc j" "putting b"]
      by (auto simp: PutLands kd browser_inv_def tab_ok_def from_log_def)
  qed (use inv in \<open>simp add: PutLands\<close>)
next
  case (WipeAll f)
  assume inv: "browser_inv addon b"
  have "dump_text k (buf_wipe f (database b)) = Some d \<Longrightarrow> dump_text k (database b) = Some d" for k d
    by (auto simp: buf_wipe_def dump_text_get idb_get_def split: if_splits)
  then show ?thesis using inv buf_ok_wipe by (auto simp: WipeAll browser_inv_def tab_ok_def from_log_def)
qed

interpretation browsing: started_machine "browser_step addon" "browser_inv addon" new_browser
  by unfold_locales
    (simp_all add: browser_inv_step, simp add: browser_inv_def new_browser_def buf_ok_def idb_ok_def dump_text_get idb_get_def)

text \<open>An id is 64 characters, so a key tells which listener and which user it is for.\<close>

lemma scrollback_key_inj:
  assumes "scrollback_key c u = Some k" and "scrollback_key c' u' = Some k"
  shows "endpointIdOf c = endpointIdOf c' \<and> u = u'"
proof -
  have len: "length i = 64" if "endpointIdOf x = Some i" for x i
    using that by (auto simp: endpointIdOf_def length_hex_of_bytes split: option.splits if_splits)
  obtain i j where "endpointIdOf c = Some i" "endpointIdOf c' = Some j" "k = i @ [32] @ u" "k = j @ [32] @ u'"
    using assms by (auto simp: scrollback_key_def split: option.splits)
  then show ?thesis using len append_eq_append_conv[of i j "[32] @ u" "[32] @ u'"] by auto
qed

text \<open>C4: Scrollback stays with its host. Over any number of tabs, dials, sessions and page loads, with the
  saves landing in the database in any order and failing anywhere: a dump restored onto a terminal was
  prefetched by a dial that tab made, to a listener and user that no dial to another listener or as another
  user shares a key with, and it was serialized from a terminal on which everything from any session,
  restored dumps included, was of that same listener and user.\<close>

theorem scrollback_stays_with_its_host:
  assumes "b = foldl (browser_step addon) new_browser es" and "t \<in> set (tabs b)"
    and "RestoredDump w d \<in> set (on_screen (tab_screen t))"
  shows "\<exists>c u k ps. (c, u) \<in> set (dialed t) \<and> scrollback_key c u = Some k \<and> w = Key k \<and>
    (\<forall>c' u'. scrollback_key c' u' = Some k \<longrightarrow> endpointIdOf c' = endpointIdOf c \<and> u' = u) \<and>
    (k, d, ps) \<in> set (dumped b) \<and> (\<exists>serialize. addon = Some serialize \<and> d = serialize ps) \<and>
    (\<forall>p \<in> set ps. piece_owner p \<in> {None, Some (Key k)})"
proof -
  have inv: "browser_inv addon b" using browsing.ok_reached assms(1) by simp
  then have t: "tab_ok b t" using assms(2) unfolding browser_inv_def by blast
  then obtain c u k where p: "w = Key k" "(c, u, k, d) \<in> set (prefetched t)" using assms(3) unfolding tab_ok_def by blast
  then have q: "(c, u) \<in> set (dialed t)" "scrollback_key c u = Some k" "from_log b k d" using t unfolding tab_ok_def by fast+
  then obtain ps where ps: "(k, d, ps) \<in> set (dumped b)" unfolding from_log_def by blast
  then have "pure_dump addon (k, d, ps)" using inv unfolding browser_inv_def list_all_iff by blast
  then show ?thesis using p q ps scrollback_key_inj unfolding pure_dump_def prod.case by blast
qed

definition default_storage :: storage where
  "default_storage = \<lparr>can_read = True, can_write = True, items = \<lambda>_. None\<rparr>"

text \<open>One tab shows and saves output of a listener; after a reload the next dial restores it.\<close>

definition reload_events :: "jstr \<Rightarrow> jstr \<Rightarrow> browser_event list" where
  "reload_events c k =
     [NewTab, DialIn 0 default_storage c [117] NoFail, Happens 0 (Drained (Some k) [104]), Happens 0 (Hidden Normal (Some k)),
      PutLands 0 NoFail 5, NewTab, DialIn 1 default_storage c [117] NoFail, Restores 1 0 [] 0]"

lemma reload_restores:
  assumes "scrollback_key c [117] = Some k" and "k = x # k'"
  shows "\<exists>t. tabs (foldl (browser_step (Some count_pieces)) new_browser (reload_events c k)) = [fst t, snd t] \<and>
    RestoredDump (Key k) [1] \<in> set (on_screen (tab_screen (snd t)))"
proof -
  have e: "scrollbackEnabled default_storage" by (simp add: scrollbackEnabled_def default_storage_def getItem_def)
  have k: "owner_of_key (Some k) = Key k" by (simp add: owner_of_key_def assms(2))
  show ?thesis
    by (simp add: reload_events_def new_browser_def prefetch_def e assms(1) k buf_get_def idb_get_def on_tab_def
        screen_happens_def screen_defs blank_screen_def dumpWorthSaving_def count_pieces_def SCROLLBACK_SAVE_CAP_def
        buf_put_def idb_put_def prune_db_def CAP_def valid_date_def Let_def)
qed

lemma scrollback_stays_with_its_host_witness:
  "\<exists>c k (t :: tab) ps. (c, [117]) \<in> set (dialed t) \<and> RestoredDump (Key k) [1] \<in> set (on_screen (tab_screen t)) \<and>
     [1] = count_pieces ps \<and> (\<forall>p \<in> set ps. piece_owner p \<in> {None, Some (Key k)})"
proof -
  obtain c where "endpointIdOf c = Some (replicate 64 97)" using v3_roundtrip[OF example_inputs] by blast
  then obtain k where k: "scrollback_key c [117] = Some k" "k = 97 # tl k"
    by (auto simp: scrollback_key_def numeral_eq_Suc)
  let ?b = "foldl (browser_step (Some count_pieces)) new_browser (reload_events c k)"
  obtain t where t: "t \<in> set (tabs ?b)" "RestoredDump (Key k) [1] \<in> set (on_screen (tab_screen t))"
    using reload_restores[OF k] by force
  from scrollback_stays_with_its_host[OF refl t] obtain c' u k' ps where h:
    "(c', u) \<in> set (dialed t)" "scrollback_key c' u = Some k'" "Key k = Key k'"
    "\<forall>c' u'. scrollback_key c' u' = Some k' \<longrightarrow> u' = u" "[1] = count_pieces ps"
    "\<forall>p \<in> set ps. piece_owner p \<in> {None, Some (Key k')}" by blast
  from h(3) have k': "k' = k" by simp
  with h(4) k(1) have u: "u = [117]" by blast
  show ?thesis using h(1,5,6)[unfolded k' u] t(2) by blast
qed

end
