(* ===== verification/Trust.thy ===== *)
theory Trust
  imports Connect Asks
begin

text \<open>
  A dial of the page as a whole: \<open>connect\<close> (\<^verbatim>\<open>site/app.mjs\<close>) driven by the ui contract of \<^verbatim>\<open>site/boot.mjs\<close>, whose
  \<open>confirmHostKey\<close> is answered from the pins and by the user. Other tabs may change the storage at any time.
\<close>

record trust =
  the_conn :: conn
  the_store :: storage
  asked_store :: storage
  confirmations :: "(jstr \<times> bool \<times> key_press \<times> storage) list"

text \<open>The argument of \<open>ui.confirmHostKey\<close>: the fingerprint the log says is shown.\<close>

definition shown :: "deed list \<Rightarrow> jstr" where
  "shown l = (case last l of Shown fp \<Rightarrow> fp | _ \<Rightarrow> [])"

datatype trust_event = Component conn_event | Answered jstr key_press | StorageChanges storage

fun from_human :: "conn_event \<Rightarrow> bool" where
  "from_human (HumanSays ok) = True"
| "from_human _ = False"

text \<open>The ui is asked as the component's step comes to await it, and looks at the pins then (\<open>asked_store\<close>); the
  answer may come much later. \<open>confirmations\<close> records each fingerprint put to the ui, whether it asked, what the
  user pressed and the storage it looked at.\<close>

definition comes_to_ask :: "conn \<Rightarrow> conn \<Rightarrow> bool" where
  "comes_to_ask c c' \<longleftrightarrow> conn_phase c \<noteq> AwaitHuman \<and> conn_phase c' = AwaitHuman"

definition component_turn :: "conn \<Rightarrow> trust \<Rightarrow> trust" where
  "component_turn c s =
     s\<lparr>the_conn := c, asked_store := (if comes_to_ask (the_conn s) c then the_store s else asked_store s)\<rparr>"

lemma component_turn_simps [simp]:
  "the_conn (component_turn c s) = c" "the_store (component_turn c s) = the_store s"
  "confirmations (component_turn c s) = confirmations s"
  by (simp_all add: component_turn_def)

fun trust_step :: "(jstr \<Rightarrow> jstr option) \<Rightarrow> jstr \<Rightarrow> jstr \<Rightarrow> trust \<Rightarrow> trust_event \<Rightarrow> trust" where
  "trust_step parse_url user cs s (Component e) =
     (if from_human e then s else component_turn (conn_step user (the_conn s) e) s)"
| "trust_step parse_url user cs s (Answered now press) =
     (if conn_phase (the_conn s) \<noteq> AwaitHuman then s
      else (case confirmHostKey parse_url now (shown (log (the_conn s))) cs press (asked_store s) (the_store s) of
              (ok, asked, st) \<Rightarrow>
                s\<lparr>the_conn := conn_step user (the_conn s) (HumanSays ok), the_store := st,
                  confirmations := confirmations s @ [(shown (log (the_conn s)), asked, press, asked_store s)]\<rparr>))"
| "trust_step parse_url user cs s (StorageChanges st) = s\<lparr>the_store := st\<rparr>"

definition trust_start :: "storage \<Rightarrow> trust" where
  "trust_start st = \<lparr>the_conn = Connect.dial, the_store = st, asked_store = st, confirmations = []\<rparr>"

text \<open>The pin it looked at is this very fingerprint, or the user accepted it.\<close>

definition vouched :: "(jstr \<Rightarrow> jstr option) \<Rightarrow> jstr \<Rightarrow> jstr \<times> bool \<times> key_press \<times> storage \<Rightarrow> bool" where
  "vouched parse_url cs = (\<lambda>(fp, asked, press, st).
     if asked then \<exists>b. press = Accept b
     else \<exists>i. dialed_endpoint parse_url cs = Some i \<and> pinnedFp st i = Some (JStr fp))"

lemma confirm_vouched:
  assumes "confirmHostKey parse_url now fp cs press st st1 = (True, asked, st')"
  shows "vouched parse_url cs (fp, asked, press, st)"
  using assms
  by (auto simp: vouched_def confirm_defs Let_def pinnedFp_def split: option.splits if_splits key_press.splits)

lemma component_never_human:
  assumes "\<not> from_human e"
  shows "\<exists>ds. log (conn_step user c e) = log c @ ds \<and> (\<forall>ok. Human ok \<notin> set ds)"
  using assms
  by (cases "conn_phase c"; cases e)
    (auto simp: conn_step.simps conn_defs Let_def split: option.splits credential.splits bool.splits)

lemma human_kept:
  assumes "l @ ds = pre @ x # Human v # post" and "Human v \<notin> set ds"
  shows "\<exists>post'. l = pre @ x # Human v # post'"
proof -
  from assms(1) consider us where "l = pre @ us" "us @ ds = x # Human v # post" | us where "l @ us = pre" "ds = us @ x # Human v # post"
    by (auto simp: append_eq_append_conv2)
  then show ?thesis
  proof cases
    case 1
    then show ?thesis using assms(2) by (cases us rule: list.exhaust; cases "tl us") auto
  qed (use assms(2) in auto)
qed

definition trust_inv :: "(jstr \<Rightarrow> jstr option) \<Rightarrow> jstr \<Rightarrow> trust \<Rightarrow> bool" where
  "trust_inv parse_url cs s \<longleftrightarrow> conn_inv (the_conn s) \<and>
     (\<forall>pre fp post. log (the_conn s) = pre @ Shown fp # Human True # post \<longrightarrow>
        (\<exists>x \<in> set (confirmations s). fst x = fp \<and> vouched parse_url cs x))"

lemma trust_inv_step: "trust_inv parse_url cs s \<Longrightarrow> trust_inv parse_url cs (trust_step parse_url user cs s e)"
proof (cases e)
  case (Component x)
  assume inv: "trust_inv parse_url cs s"
  show ?thesis
  proof (cases "from_human x")
    case False
    obtain ds where ds: "log (conn_step user (the_conn s) x) = log (the_conn s) @ ds" "\<And>ok. Human ok \<notin> set ds"
      using component_never_human[OF False] by metis
    then show ?thesis using inv conn_inv_step human_kept[of "log (the_conn s)" ds]
      unfolding trust_inv_def Component by simp metis
  qed (use inv in \<open>simp add: Component\<close>)
next
  case (Answered now press)
  assume inv: "trust_inv parse_url cs s"
  let ?c = "the_conn s"
  obtain ok asked st where r: "confirmHostKey parse_url now (shown (log ?c)) cs press (asked_store s) (the_store s) = (ok, asked, st)"
    by (metis prod_cases3)
  show ?thesis
  proof (cases "conn_phase ?c = AwaitHuman")
    case True
    then obtain l fp where l: "log ?c = l @ [Shown fp]" using inv by (auto simp: trust_inv_def conn_inv_def)
    have log: "log (conn_step user ?c (HumanSays ok)) = l @ [Shown fp, Human ok, CallConfirmHostKey ok]"
      using True l by (simp add: conn_step.simps do_def)
    have "\<exists>x \<in> set (confirmations s @ [(fp, asked, press, asked_store s)]). fst x = fp' \<and> vouched parse_url cs x"
      if q: "l @ [Shown fp, Human ok, CallConfirmHostKey ok] = pre @ Shown fp' # Human True # post" for pre fp' post
    proof -
      obtain post' where p: "l @ [Shown fp, Human ok] = pre @ Shown fp' # Human True # post'"
        using human_kept[of "l @ [Shown fp, Human ok]" "[CallConfirmHostKey ok]" pre "Shown fp'" True post] q by auto
      show ?thesis
      proof (cases post' rule: rev_cases)
        case Nil
        then have "fp' = fp" "ok" using p by auto
        then show ?thesis using r confirm_vouched by (auto simp: shown_def l)
      next
        case (snoc post'' y)
        then have "log ?c = pre @ Shown fp' # Human True # post''" using p l by simp
        then show ?thesis using inv unfolding trust_inv_def by auto
      qed
    qed
    then show ?thesis using inv True conn_inv_step[of ?c user "HumanSays ok"] log r
      by (auto simp: trust_inv_def Answered shown_def l)
  qed (use inv in \<open>simp add: Answered\<close>)
next
  case (StorageChanges st)
  assume "trust_inv parse_url cs s"
  then show ?thesis by (simp add: StorageChanges trust_inv_def)
qed

interpretation trusting: started_machine "trust_step parse_url user cs" "trust_inv parse_url cs" "trust_start st"
  by unfold_locales
    (simp_all add: trust_inv_step, simp add: trust_inv_def trust_start_def conn_inv_def Connect.dial_def untouched_def)

text \<open>C1: No credential before trust. In a dial of the page, whatever the component answers, whatever the user
  does and whatever other tabs store meanwhile: anything that authenticates (a credential, an answer to a
  prompt) comes after a fingerprint was shown and confirmed to the component, and that very fingerprint was
  the one pinned, in the storage looked at, for the listener the connection string names, or was put to the
  user, who accepted it. A session that counts as connected stands on such a fingerprint too.\<close>

theorem no_credential_before_trust:
  "let s = foldl (trust_step parse_url user cs) (trust_start st) es; l = log (the_conn s);
       trusted = (\<lambda>l. \<exists>pre fp post. l = pre @ [Shown fp, Human True, CallConfirmHostKey True] @ post \<and>
         (\<exists>x \<in> set (confirmations s). fst x = fp \<and> vouched parse_url cs x))
   in (\<forall>i < length l. is_auth (l ! i) \<longrightarrow> trusted (take i l)) \<and> (conn_phase (the_conn s) = Connected \<longrightarrow> trusted l)"
proof -
  define s where "s = foldl (trust_step parse_url user cs) (trust_start st) es"
  let ?l = "log (the_conn s)"
  have inv: "trust_inv parse_url cs s" using trusting.ok_reached by (simp add: s_def)
  then have ok: "log_ok ?l" "phase_ok (conn_phase (the_conn s)) ?l" by (simp_all add: trust_inv_def conn_inv_def)
  have gate: "\<exists>pre fp post. m = pre @ [Shown fp, Human True, CallConfirmHostKey True] @ post \<and>
      (\<exists>x \<in> set (confirmations s). fst x = fp \<and> vouched parse_url cs x)"
    if m: "?l = m @ rest" "log_ok m" "CallConfirmHostKey True \<in> set m" for m rest
  proof -
    obtain pre fp post where p: "m = pre @ [Shown fp, Human True, CallConfirmHostKey True] @ post"
      using confirmed_before[OF m(2,3)] by blast
    then have "?l = pre @ Shown fp # Human True # CallConfirmHostKey True # post @ rest" using m(1) by simp
    then show ?thesis using inv p unfolding trust_inv_def by blast
  qed
  have "CallConfirmHostKey True \<in> set (take i ?l)" if "i < length ?l" "is_auth (?l ! i)" for i
    using auth_needs_gate[OF that(2)] ok(1) that(1) by (simp add: log_ok_def)
  then have "\<exists>pre fp post. take i ?l = pre @ [Shown fp, Human True, CallConfirmHostKey True] @ post \<and>
      (\<exists>x \<in> set (confirmations s). fst x = fp \<and> vouched parse_url cs x)"
    if "i < length ?l" "is_auth (?l ! i)" for i
    using gate[of "take i ?l" "drop i ?l"] log_ok_take[OF ok(1)] that by simp
  moreover have "\<exists>pre fp post. ?l = pre @ [Shown fp, Human True, CallConfirmHostKey True] @ post \<and>
      (\<exists>x \<in> set (confirmations s). fst x = fp \<and> vouched parse_url cs x)" if "conn_phase (the_conn s) = Connected"
    using gate[of ?l "[]"] ok that by simp
  ultimately show ?thesis unfolding s_def[symmetric] Let_def by blast
qed

text \<open>A key that was never pinned, accepted by the user: the credential goes out after it.\<close>

lemma component_run:
  assumes "\<forall>e \<in> set es. \<not> from_human e"
  shows "the_conn (foldl (trust_step parse_url user cs) s (map Component es)) = foldl (conn_step user) (the_conn s) es"
    and "the_store s = asked_store s \<Longrightarrow>
      asked_store (foldl (trust_step parse_url user cs) s (map Component es)) = asked_store s"
  using assms by (induction es arbitrary: s) (simp_all add: component_turn_def)

lemma no_credential_before_trust_witness:
  "\<exists>x \<in> set (confirmations (foldl (trust_step (\<lambda>_. None) [117] []) (trust_start empty_storage)
     (map Component [Dialed 0, StatusIs (Some (js ''host-key-check'')) None 5, FingerprintIs (Some [102])] @
      Answered [] (Accept False) # map Component [conn_event.Done, CredentialIs Auto]))). vouched (\<lambda>_. None) [] x"
proof -
  let ?before = "[Dialed 0, StatusIs (Some (js ''host-key-check'')) None 5, FingerprintIs (Some [102])]"
  let ?after = "[conn_event.Done, CredentialIs Auto]"
  let ?es = "map Component ?before @ Answered [] (Accept False) # map Component ?after"
  define s1 where "s1 = foldl (trust_step (\<lambda>_. None) [117] []) (trust_start empty_storage) (map Component ?before)"
  let ?s = "foldl (trust_step (\<lambda>_. None) [117] []) (trust_start empty_storage) ?es"
  have p: "pin_of x empty_storage = None" for x
    by (simp add: pin_of_def loadPins_def parseItem_def getItem_def empty_storage_def split: option.split)
  have c: "confirmHostKey (\<lambda>_. None) [] fp [] (Accept False) empty_storage st = (True, True, st)" for fp st
    by (simp add: confirmHostKey_def confirmAsk_def confirmAnswer_def p hostKeyAsk_def split: option.split)
  have a: "asked_store s1 = empty_storage"
    unfolding s1_def by (subst component_run(2)) (simp_all add: trust_start_def)
  define c1 where "c1 = foldl (conn_step [117]) Connect.dial ?before"
  have w: "log c1 = [CallStatus, CallFingerprint, Shown [102]]" "conn_phase c1 = AwaitHuman"
    by (simp_all add: c1_def Connect.dial_def conn_step.simps conn_defs)
  have s1: "the_conn s1 = c1"
    unfolding s1_def by (subst component_run(1)) (simp_all only: c1_def trust_start_def trust.simps, simp)
  define s2 where "s2 = trust_step (\<lambda>_. None) [117] [] s1 (Answered [] (Accept False))"
  then have "the_conn s2 = conn_step [117] c1 (HumanSays True)" by (simp add: s1 w(2) a c)
  then have s2: "log (the_conn s2) = log c1 @ [Human True, CallConfirmHostKey True]" "conn_phase (the_conn s2) = AwaitConfirm True"
    by (simp_all add: conn_step.simps conn_defs w)
  have h: "the_conn ?s = foldl (conn_step [117]) (the_conn s2) ?after"
    unfolding foldl_append foldl.simps s1_def[symmetric] s2_def[symmetric] by (subst component_run(1)) simp_all
  define c3 where "c3 = conn_step [117] (the_conn s2) conn_event.Done"
  have c3: "log c3 = log (the_conn s2)" "conn_phase c3 = AwaitCredential"
    by (simp_all add: c3_def conn_step.simps conn_defs s2(2))
  have l: "log (conn_step [117] c3 (CredentialIs Auto)) = log c3 @ [AuthAuto]" by (simp add: conn_step.simps conn_defs c3(2))
  have "log (the_conn ?s) = [CallStatus, CallFingerprint, Shown [102], Human True, CallConfirmHostKey True, AuthAuto]"
    unfolding h foldl.simps c3_def[symmetric] l c3(1) s2(1) w(1) append.simps by (rule refl)
  then have "5 < length (log (the_conn ?s))" "is_auth (log (the_conn ?s) ! 5)"
    by (simp_all only: list.size nth_Cons_numeral, simp_all)
  with no_credential_before_trust[of "\<lambda>_. None" "[117]" "[]" empty_storage ?es] show ?thesis unfolding Let_def by blast
qed

end
