(* ===== verification/ServiceWorker.thy ===== *)
theory ServiceWorker
  imports Prelude
begin

text \<open>
  \<^verbatim>\<open>site/sw.js\<close>: one cache per deploy, complete before it serves anything, and what the pages are answered.
  The server's files may be replaced by another deploy at any time, and the browser's HTTP cache may keep a file
  of an earlier one. The browser installs one worker at a time, but the next install may begin while the one
  before is still to be activated. A page is what it was answered so far, each answer with the version of the
  worker that gave it (none: straight from the network).
\<close>

type_synonym files = "jstr \<Rightarrow> jstr option"

text \<open>A worker on its way: \<open>in_all\<close> is what it precaches, \<open>in_urls\<close> what is still to come. \<open>in_deploy\<close> is the deploy
  the server had since the install began, none once that changed or an answer was not of it. \<open>in_swept\<close> says that
  another worker's activation deleted the cache it had opened.\<close>

record worker =
  in_version :: jstr
  in_all :: "jstr list"
  in_urls :: "jstr list"
  in_got :: "(jstr \<times> jstr) list"
  in_deploy :: "files option"
  in_swept :: bool

text \<open>\<open>promised\<close> and \<open>one_deploy\<close> are the list and the deploy of the install that last filled a cache, \<open>begun\<close> the caches
  opened since the last activation.\<close>

record sw_world =
  server :: files
  http_cache :: files
  caches :: "jstr \<Rightarrow> (jstr \<times> jstr) list option"
  promised :: "jstr \<Rightarrow> jstr list"
  one_deploy :: "jstr \<Rightarrow> files option"
  begun :: "jstr set"
  installing :: "worker option"
  waiting :: "worker list"
  active :: "worker option"
  pages :: "(jstr option \<times> jstr \<times> jstr option) list list"

definition CACHE :: "jstr \<Rightarrow> jstr" where
  "CACHE version = js ''wosh-'' @ version"

definition in_cache :: "(jstr \<times> jstr) list option \<Rightarrow> jstr \<Rightarrow> jstr option" where
  "in_cache c url = Option.bind c (\<lambda>m. map_of m url)"

text \<open>What a fetch brings: the server's file, or what the browser kept of it (unless it asks again).\<close>

definition net_answer :: "bool \<Rightarrow> jstr \<Rightarrow> sw_world \<Rightarrow> jstr option" where
  "net_answer again url w =
     (case http_cache w url of Some body \<Rightarrow> if again then server w url else Some body | None \<Rightarrow> server w url)"

text \<open>\<open>install\<close>: the cache of the version is opened, made if it is not there, and then \<open>addAll\<close> fetches the page
  itself and every file of the tree. Its fetches are answered one by one; a file that is not there, or cannot
  be fetched, fails the whole install, and leaves the cache as it is.\<close>

definition sw_install :: "jstr \<Rightarrow> jstr list \<Rightarrow> sw_world \<Rightarrow> sw_world" where
  "sw_install version precache w =
     (if installing w \<noteq> None then w
      else w\<lparr>caches := (caches w)(CACHE version := (case caches w (CACHE version) of None \<Rightarrow> Some [] | c \<Rightarrow> c)),
             begun := insert (CACHE version) (begun w),
             installing := Some \<lparr>in_version = version, in_all = js ''./'' # precache, in_urls = js ''./'' # precache,
               in_got = [], in_deploy = Some (server w), in_swept = False\<rparr>\<rparr>)"

definition without_nth :: "nat \<Rightarrow> 'a list \<Rightarrow> 'a list" where
  "without_nth i xs = take i xs @ drop (Suc i) xs"

definition sw_fetched :: "nat \<Rightarrow> bool \<Rightarrow> sw_world \<Rightarrow> sw_world" where
  "sw_fetched j again w =
     (case installing w of
        None \<Rightarrow> w
      | Some x \<Rightarrow>
          if j < length (in_urls x) then
            (let url = in_urls x ! j in
             case net_answer again url w of
               None \<Rightarrow> w\<lparr>installing := None\<rparr>
             | Some body \<Rightarrow>
                 w\<lparr>installing := Some (x\<lparr>in_urls := without_nth j (in_urls x), in_got := (url, body) # in_got x,
                     in_deploy := (if server w url = Some body then in_deploy x else None)\<rparr>)\<rparr>)
          else w)"

text \<open>\<open>addAll\<close> is through: everything is put at once (asking for one file twice fails it), into the cache as it
  was opened; if that has been deleted since, nobody will find it. \<open>skipWaiting\<close> then has the worker activated.\<close>

definition sw_installed :: "sw_world \<Rightarrow> sw_world" where
  "sw_installed w =
     (case installing w of
        None \<Rightarrow> w
      | Some x \<Rightarrow>
          if in_urls x \<noteq> [] then w
          else if \<not> distinct (in_all x) then w\<lparr>installing := None\<rparr>
          else (let k = CACHE (in_version x); w1 = w\<lparr>installing := None, waiting := waiting w @ [x]\<rparr> in
                if in_swept x then w1
                else w1\<lparr>caches := (caches w1)(k \<mapsto> in_got x @ the (caches w1 k)),
                        promised := (promised w1)(k := in_all x), one_deploy := (one_deploy w1)(k := in_deploy x)\<rparr>))"

text \<open>\<open>activate\<close> drops the caches of the other versions and claims every page.\<close>

definition sw_activate :: "jstr \<Rightarrow> sw_world \<Rightarrow> sw_world" where
  "sw_activate version w =
     (let gone = (\<lambda>k. starts_with (js ''wosh-'') k \<and> k \<noteq> CACHE version);
          sweep = (\<lambda>x. x\<lparr>in_swept := in_swept x \<or> gone (CACHE (in_version x))\<rparr>)
      in w\<lparr>caches := (\<lambda>k. if gone k then None else caches w k), promised := (\<lambda>k. if gone k then [] else promised w k),
           begun := {}, installing := map_option sweep (installing w), waiting := map sweep (waiting w)\<rparr>)"

definition sw_activated :: "sw_world \<Rightarrow> sw_world" where
  "sw_activated w =
     (case waiting w of
        [] \<Rightarrow> w
      | x # xs \<Rightarrow> sw_activate (in_version x) (w\<lparr>active := Some x, waiting := xs\<rparr>))"

text \<open>\<open>fetch\<close> of a page: only GETs of the site itself are answered from the cache, a miss by the network.\<close>

definition sw_fetch :: "bool \<Rightarrow> bool \<Rightarrow> bool \<Rightarrow> jstr \<Rightarrow> sw_world \<Rightarrow> jstr option" where
  "sw_fetch again is_get same_origin url w =
     (case active w of
        None \<Rightarrow> net_answer again url w
      | Some x \<Rightarrow>
          if \<not> is_get \<or> \<not> same_origin then net_answer again url w
          else (case in_cache (caches w (CACHE (in_version x))) url of
                  Some body \<Rightarrow> Some body | None \<Rightarrow> net_answer again url w))"

datatype sw_event =
    Deployed files
  | HttpKeeps jstr
  | HttpDrops jstr
  | Installs jstr "jstr list"
  | Fetched nat bool
  | FetchFails
  | Installed
  | Activates
  | PageOpens
  | PageFetches nat bool jstr

fun sw_step :: "sw_world \<Rightarrow> sw_event \<Rightarrow> sw_world" where
  "sw_step w (Deployed fs) =
     w\<lparr>server := fs, installing := map_option (\<lambda>x. x\<lparr>in_deploy := None\<rparr>) (installing w)\<rparr>"
| "sw_step w (HttpKeeps url) = w\<lparr>http_cache := (http_cache w)(url := server w url)\<rparr>"
| "sw_step w (HttpDrops url) = w\<lparr>http_cache := (http_cache w)(url := None)\<rparr>"
| "sw_step w (Installs v urls) = sw_install v urls w"
| "sw_step w (Fetched j again) = sw_fetched j again w"
| "sw_step w FetchFails = w\<lparr>installing := None\<rparr>"
| "sw_step w Installed = sw_installed w"
| "sw_step w Activates = sw_activated w"
| "sw_step w PageOpens = w\<lparr>pages := pages w @ [[]]\<rparr>"
| "sw_step w (PageFetches p again url) =
     (if p < length (pages w)
      then w\<lparr>pages := (pages w)[p := pages w ! p @ [(map_option in_version (active w), url, sw_fetch again True True url w)]]\<rparr>
      else w)"

definition no_worker :: "files \<Rightarrow> sw_world" where
  "no_worker fs = \<lparr>server = fs, http_cache = \<lambda>_. None, caches = \<lambda>_. None, promised = \<lambda>_. [], one_deploy = \<lambda>_. None,
     begun = {}, installing = None, waiting = [], active = None, pages = []\<rparr>"

text \<open>\<open>buildInfo\<close> of \<^verbatim>\<open>site/boot.mjs\<close>: the footer, from the two metas of the page.\<close>

definition buildInfo :: "jstr option \<Rightarrow> jstr option \<Rightarrow> jstr" where
  "buildInfo version build =
     (let v = or_empty version; b = or_empty build; marker = js ''__WOSH_'' in
      if v = [] \<or> starts_with marker v then js ''dev build''
      else js ''build '' @ (if b \<noteq> [] \<and> \<not> starts_with marker b then b else js ''?'') @ js '' ('' @ v @ js '')'')"

subsection \<open>A cache serves one deploy\<close>

definition worker_ok :: "worker \<Rightarrow> bool" where
  "worker_ok x \<longleftrightarrow> (\<forall>fs. in_deploy x = Some fs \<longrightarrow> (\<forall>(url, body) \<in> set (in_got x). fs url = Some body)) \<and>
     set (in_all x) \<subseteq> set (in_urls x) \<union> fst ` set (in_got x)"

text \<open>A worker whose cache was not swept still has it: opened, and filled once its install is through.\<close>

definition holds_cache :: "sw_world \<Rightarrow> worker \<Rightarrow> bool" where
  "holds_cache w x \<longleftrightarrow> (\<not> in_swept x \<longrightarrow> (\<exists>m. caches w (CACHE (in_version x)) = Some m \<and> set (in_all x) \<subseteq> fst ` set m))"

definition filled_ok :: "sw_world \<Rightarrow> jstr \<Rightarrow> bool" where
  "filled_ok w k \<longleftrightarrow> (\<forall>fs url. one_deploy w k = Some fs \<and> url \<in> set (promised w k) \<longrightarrow>
     (\<exists>body. in_cache (caches w k) url = Some body \<and> fs url = Some body))"

definition sw_inv :: "sw_world \<Rightarrow> bool" where
  "sw_inv w \<longleftrightarrow>
     (\<forall>x. installing w = Some x \<longrightarrow> worker_ok x \<and> in_deploy x \<in> {None, Some (server w)} \<and>
        (\<not> in_swept x \<longrightarrow> caches w (CACHE (in_version x)) \<noteq> None)) \<and>
     (\<forall>x \<in> set (waiting w). holds_cache w x) \<and>
     (\<forall>x. active w = Some x \<longrightarrow> holds_cache w x \<and>
        (\<forall>k. starts_with (js ''wosh-'') k \<and> k \<noteq> CACHE (in_version x) \<and> caches w k \<noteq> None \<longrightarrow> k \<in> begun w)) \<and>
     (\<forall>k. filled_ok w k)"

lemma set_without_nth: "j < length xs \<Longrightarrow> set xs = insert (xs ! j) (set (without_nth j xs))"
proof -
  assume "j < length xs"
  then have "set xs = set (take j xs @ xs ! j # drop (Suc j) xs)" by (simp only: id_take_nth_drop[symmetric])
  then show ?thesis by (simp add: without_nth_def)
qed

lemma wosh_cache [simp]: "starts_with (js ''wosh-'') (CACHE v)"
  by (simp add: CACHE_def starts_with_def)

lemma CACHE_eq [simp]: "CACHE v = CACHE v' \<longleftrightarrow> v = v'"
  by (simp add: CACHE_def)

lemma holds_grown:
  assumes "holds_cache w x"
    and "\<And>m. caches w (CACHE (in_version x)) = Some m \<Longrightarrow> \<exists>m'. caches w' (CACHE (in_version x)) = Some m' \<and> fst ` set m \<subseteq> fst ` set m'"
  shows "holds_cache w' x"
  using assms unfolding holds_cache_def by (metis order_trans)

lemma inv_install: "sw_inv w \<Longrightarrow> sw_inv (sw_install v urls w)"
proof (cases "installing w")
  case None
  assume inv: "sw_inv w"
  let ?w = "sw_install v urls w"
  have g: "\<exists>m'. caches ?w k = Some m' \<and> fst ` set m \<subseteq> fst ` set m'" if "caches w k = Some m" for k m
    using that None by (auto simp: sw_install_def)
  have h: "holds_cache ?w x" if "holds_cache w x" for x using that g by (rule holds_grown)
  have "in_cache (caches ?w k) url = in_cache (caches w k) url" for k url
    using None by (auto simp: sw_install_def in_cache_def split: option.split)
  then have "filled_ok ?w k" for k
    using inv None by (simp add: sw_inv_def filled_ok_def sw_install_def)
  moreover have "caches w k \<noteq> None \<or> k = CACHE v" if "caches ?w k \<noteq> None" for k
    using that None by (auto simp: sw_install_def split: if_splits)
  ultimately show ?thesis using inv h None
    by (auto simp: sw_inv_def sw_install_def worker_ok_def split: option.splits if_splits)
qed (simp add: sw_install_def)

lemma inv_fetched: "sw_inv w \<Longrightarrow> sw_inv (sw_fetched j again w)"
proof (cases "\<exists>x. installing w = Some x \<and> j < length (in_urls x)")
  case True
  assume inv: "sw_inv w"
  from True obtain x where x: "installing w = Some x" "j < length (in_urls x)" by blast
  have ok: "worker_ok x" "in_deploy x \<in> {None, Some (server w)}" using inv x(1) by (auto simp: sw_inv_def)
  show ?thesis
  proof (cases "net_answer again (in_urls x ! j) w")
    case None
    then show ?thesis using inv x by (auto simp: sw_fetched_def sw_inv_def filled_ok_def holds_cache_def Let_def)
  next
    case (Some body)
    let ?y = "x\<lparr>in_urls := without_nth j (in_urls x), in_got := (in_urls x ! j, body) # in_got x,
        in_deploy := (if server w (in_urls x ! j) = Some body then in_deploy x else None)\<rparr>"
    have "worker_ok ?y" using ok set_without_nth[OF x(2)] by (auto simp: worker_ok_def)
    moreover have "sw_fetched j again w = w\<lparr>installing := Some ?y\<rparr>" using x Some by (simp add: sw_fetched_def Let_def)
    ultimately show ?thesis using inv x(1) ok(2) by (auto simp: sw_inv_def filled_ok_def holds_cache_def)
  qed
qed (auto simp: sw_fetched_def split: option.split)

lemma inv_installed: "sw_inv w \<Longrightarrow> sw_inv (sw_installed w)"
proof (cases "\<exists>x. installing w = Some x \<and> in_urls x = [] \<and> distinct (in_all x)")
  case True
  assume inv: "sw_inv w"
  from True obtain x where x: "installing w = Some x" "in_urls x = []" "distinct (in_all x)" by blast
  let ?k = "CACHE (in_version x)"
  have ok: "worker_ok x" using inv x(1) by (auto simp: sw_inv_def)
  then have all: "set (in_all x) \<subseteq> fst ` set (in_got x)" using x(2) by (simp add: worker_ok_def)
  show ?thesis
  proof (cases "in_swept x")
    case True
    then show ?thesis using inv x by (auto simp: sw_installed_def sw_inv_def holds_cache_def filled_ok_def Let_def)
  next
    case False
    let ?w = "sw_installed w"
    obtain m where m: "caches w ?k = Some m" using inv x(1) False by (auto simp: sw_inv_def)
    have c: "caches ?w = (caches w)(?k \<mapsto> in_got x @ m)" and r: "installing ?w = None" "waiting ?w = waiting w @ [x]"
      "active ?w = active w" "begun ?w = begun w" "server ?w = server w"
      "promised ?w = (promised w)(?k := in_all x)" "one_deploy ?w = (one_deploy w)(?k := in_deploy x)"
      using x False m by (simp_all add: sw_installed_def Let_def)
    have h: "holds_cache ?w y" if "holds_cache w y" for y
      by (rule holds_grown[OF that]) (auto simp: c m)
    have hx: "holds_cache ?w x" using all by (auto simp: holds_cache_def c)
    have "\<exists>body. map_of (in_got x @ m) url = Some body \<and> fs url = Some body"
      if "in_deploy x = Some fs" "url \<in> set (in_all x)" for fs url
    proof -
      have "url \<in> fst ` set (in_got x)" using that(2) all by blast
      then obtain body where b: "map_of (in_got x) url = Some body" by (metis map_of_eq_None_iff not_Some_eq)
      then have "fs url = Some body" using that(1) ok map_of_SomeD[OF b] unfolding worker_ok_def by fast
      then show ?thesis using b by (simp add: map_add_def)
    qed
    then have "filled_ok ?w k" for k
      using inv by (cases "k = ?k") (simp_all add: sw_inv_def filled_ok_def c r in_cache_def)
    then show ?thesis using inv h hx m unfolding sw_inv_def r c by (auto split: if_splits)
  qed
next
  case False
  assume "sw_inv w"
  then show ?thesis using False
    by (cases "installing w") (auto simp: sw_installed_def sw_inv_def holds_cache_def filled_ok_def Let_def)
qed

lemma inv_activated: "sw_inv w \<Longrightarrow> sw_inv (sw_activated w)"
proof (cases "waiting w")
  case (Cons x xs)
  assume inv: "sw_inv w"
  let ?gone = "\<lambda>k. starts_with (js ''wosh-'') k \<and> k \<noteq> CACHE (in_version x)"
  let ?sweep = "\<lambda>y. y\<lparr>in_swept := in_swept y \<or> ?gone (CACHE (in_version y))\<rparr>"
  let ?w = "sw_activated w"
  have r: "caches ?w = (\<lambda>k. if ?gone k then None else caches w k)" "promised ?w = (\<lambda>k. if ?gone k then [] else promised w k)"
    "installing ?w = map_option ?sweep (installing w)" "waiting ?w = map ?sweep xs" "active ?w = Some x"
    "one_deploy ?w = one_deploy w" "server ?w = server w"
    by (simp_all add: sw_activated_def Cons sw_activate_def Let_def cong: if_cong)
  have h: "holds_cache ?w (?sweep y)" if "holds_cache w y" for y
    using that by (auto simp: holds_cache_def r)
  have "filled_ok ?w k" for k using inv by (auto simp: sw_inv_def filled_ok_def r)
  moreover have "holds_cache ?w x" using inv Cons by (auto simp: sw_inv_def holds_cache_def r)
  moreover have "\<forall>y \<in> set (waiting ?w). holds_cache ?w y" using inv Cons h by (auto simp: sw_inv_def r(4))
  moreover have "worker_ok y \<and> in_deploy y \<in> {None, Some (server ?w)} \<and> (\<not> in_swept y \<longrightarrow> caches ?w (CACHE (in_version y)) \<noteq> None)"
    if "installing ?w = Some y" for y
    using that inv by (auto simp: sw_inv_def r worker_ok_def)
  ultimately show ?thesis unfolding sw_inv_def r(5) by (auto simp: r(1))
qed (simp add: sw_activated_def)

lemma sw_inv_same:
  assumes "sw_inv w" and "caches w' = caches w" "promised w' = promised w" "one_deploy w' = one_deploy w"
    "begun w' = begun w" "waiting w' = waiting w" "active w' = active w"
    and "\<And>x. installing w' = Some x \<Longrightarrow> worker_ok x \<and> in_deploy x \<in> {None, Some (server w')} \<and>
      (\<not> in_swept x \<longrightarrow> caches w (CACHE (in_version x)) \<noteq> None)"
  shows "sw_inv w'"
proof -
  have "holds_cache w' x = holds_cache w x" "filled_ok w' k = filled_ok w k" for x k
    using assms(2-4) by (simp_all add: holds_cache_def filled_ok_def)
  then show ?thesis using assms unfolding sw_inv_def by auto
qed

lemma sw_inv_step: "sw_inv w \<Longrightarrow> sw_inv (sw_step w e)"
proof (cases e)
  case (Deployed fs)
  assume inv: "sw_inv w"
  show ?thesis by (rule sw_inv_same[OF inv]) (use inv in \<open>auto simp: Deployed sw_inv_def worker_ok_def\<close>)
next
  case (Installs v urls)
  then show "sw_inv w \<Longrightarrow> ?thesis" by (simp add: inv_install)
next
  case (Fetched j again)
  then show "sw_inv w \<Longrightarrow> ?thesis" by (simp add: inv_fetched)
next
  case Installed
  then show "sw_inv w \<Longrightarrow> ?thesis" by (simp add: inv_installed)
next
  case Activates
  then show "sw_inv w \<Longrightarrow> ?thesis" by (simp add: inv_activated)
next
  case FetchFails
  assume inv: "sw_inv w"
  show ?thesis by (rule sw_inv_same[OF inv]) (simp_all add: FetchFails)
next
  case (HttpKeeps url)
  assume inv: "sw_inv w"
  show ?thesis by (rule sw_inv_same[OF inv]) (use inv in \<open>auto simp: HttpKeeps sw_inv_def\<close>)
next
  case (HttpDrops url)
  assume inv: "sw_inv w"
  show ?thesis by (rule sw_inv_same[OF inv]) (use inv in \<open>auto simp: HttpDrops sw_inv_def\<close>)
next
  case PageOpens
  assume inv: "sw_inv w"
  show ?thesis by (rule sw_inv_same[OF inv]) (use inv in \<open>auto simp: PageOpens sw_inv_def\<close>)
next
  case (PageFetches p again url)
  assume inv: "sw_inv w"
  show ?thesis by (rule sw_inv_same[OF inv]) (use inv in \<open>auto simp: PageFetches sw_inv_def split: if_splits\<close>)
qed

interpretation serving: started_machine sw_step sw_inv "no_worker fs"
  by unfold_locales (simp_all add: sw_inv_step, simp add: sw_inv_def no_worker_def filled_ok_def)

text \<open>C32: A version's cache is complete, and serves one deploy. Whatever deploys, installs, failures, activations
  and page loads happened, and whatever the browser's HTTP cache kept: every file of the active worker's precache
  is answered from its cache, whatever the server and the other caches hold by then, unless another worker was
  activated while this one was being installed. When the server held one deploy for as long as the install that
  filled that cache took, and the HTTP cache answered it with nothing else, all of those answers are that deploy's
  files. And a cache of another version that is still there was opened by an install begun after this activation.\<close>

theorem cache_serves_one_deploy:
  assumes "w = foldl sw_step (no_worker fs0) es" and "active w = Some x"
  shows "(\<not> in_swept x \<and> url \<in> set (in_all x) \<longrightarrow>
      (\<exists>body. \<forall>fs kept cs again. cs (CACHE (in_version x)) = caches w (CACHE (in_version x)) \<longrightarrow>
         sw_fetch again True True url (w\<lparr>server := fs, http_cache := kept, caches := cs\<rparr>) = Some body)) \<and>
    (\<forall>fs. one_deploy w (CACHE (in_version x)) = Some fs \<and> url \<in> set (promised w (CACHE (in_version x))) \<longrightarrow>
       sw_fetch again True True url w = fs url) \<and>
    (\<forall>k. starts_with (js ''wosh-'') k \<and> k \<noteq> CACHE (in_version x) \<and> caches w k \<noteq> None \<longrightarrow> k \<in> begun w)"
proof -
  have inv: "sw_inv w" using serving.ok_reached assms(1) by simp
  have "\<exists>body. \<forall>fs kept cs again. cs (CACHE (in_version x)) = caches w (CACHE (in_version x)) \<longrightarrow>
      sw_fetch again True True url (w\<lparr>server := fs, http_cache := kept, caches := cs\<rparr>) = Some body"
    if ns: "\<not> in_swept x" and url: "url \<in> set (in_all x)"
  proof -
    obtain m where m: "caches w (CACHE (in_version x)) = Some m" "set (in_all x) \<subseteq> fst ` set m"
      using inv assms(2) ns by (auto simp: sw_inv_def holds_cache_def)
    then obtain body where "map_of m url = Some body" using url by (metis map_of_eq_None_iff not_Some_eq subset_iff)
    then show ?thesis using assms(2) m(1) by (intro exI[of _ body]) (simp add: sw_fetch_def in_cache_def)
  qed
  moreover have "sw_fetch again True True url w = fs url"
    if "one_deploy w (CACHE (in_version x)) = Some fs" "url \<in> set (promised w (CACHE (in_version x)))" for fs
  proof -
    have "filled_ok w (CACHE (in_version x))" using inv by (simp add: sw_inv_def)
    then show ?thesis using that assms(2) by (auto simp: filled_ok_def sw_fetch_def)
  qed
  ultimately show ?thesis using inv assms(2) unfolding sw_inv_def by blast
qed

text \<open>Two deploys of a tree with one file beside the page: \<open>1\<close> and then \<open>2\<close>.\<close>

definition deploy :: "nat \<Rightarrow> files" where
  "deploy n = (\<lambda>url. if url = js ''./'' \<or> url = js ''a.js'' then Some [n] else None)"

definition install_one :: "sw_event list" where
  "install_one = [Installs [49] [js ''a.js''], Fetched 1 False, Fetched 0 False, Installed, Activates]"

lemmas sw_defs = no_worker_def sw_install_def net_answer_def sw_fetched_def sw_installed_def sw_activated_def sw_activate_def
  without_nth_def deploy_def CACHE_def sw_fetch_def in_cache_def Let_def starts_with_def

lemma cache_serves_one_deploy_witness:
  "sw_fetch False True True (js ''a.js'') (foldl sw_step (no_worker (deploy 1)) (install_one @ [Deployed (deploy 2)])) = Some [1]"
proof -
  let ?w = "foldl sw_step (no_worker (deploy 1)) (install_one @ [Deployed (deploy 2)])"
  obtain x where x: "active ?w = Some x" "in_version x = [49]"
    by (simp add: install_one_def sw_defs)
  have "js ''a.js'' \<in> set (promised ?w (CACHE [49]))" "one_deploy ?w (CACHE [49]) = Some (deploy 1)"
    by (simp_all add: install_one_def sw_defs)
  with cache_serves_one_deploy[OF refl x(1), of "js ''a.js''" False] x(2) show ?thesis by (simp add: deploy_def)
qed

text \<open>But a deploy in the middle of an install leaves a cache of two deploys, and it is served: nothing in the
  fetches names the version. So does a file that the browser's HTTP cache kept from the deploy before.\<close>

lemma torn_install_served:
  "let w = foldl sw_step (no_worker (deploy 1))
      [Installs [49] [js ''a.js''], Fetched 0 False, Deployed (deploy 2), Fetched 0 False, Installed, Activates]
   in sw_fetch False True True (js ''./'') w = Some [1] \<and> sw_fetch False True True (js ''a.js'') w = Some [2]"
  by (simp add: sw_defs)

lemma kept_file_installed:
  "let w = foldl sw_step (no_worker (deploy 1))
      [HttpKeeps (js ''a.js''), Deployed (deploy 2), Installs [50] [js ''a.js''], Fetched 0 False, Fetched 0 False, Installed, Activates]
   in sw_fetch False True True (js ''./'') w = Some [2] \<and> sw_fetch False True True (js ''a.js'') w = Some [1]"
  by (simp add: sw_defs)

text \<open>And because a new worker takes over the open pages at once, a page of one version gets its later files from
  another.\<close>

lemma page_spans_two_versions:
  "pages (foldl sw_step (no_worker (deploy 1))
     (install_one @ [PageOpens, PageFetches 0 False (js ''./''), Deployed (deploy 2), Installs [50] [js ''a.js''], Fetched 0 False,
        Fetched 0 False, Installed, Activates, PageFetches 0 False (js ''a.js'')])) =
   [[(Some [49], js ''./'', Some [1]), (Some [50], js ''a.js'', Some [2])]]"
  by (simp add: install_one_def sw_defs)

text \<open>An install leaves its cache behind when it fails; and one that has begun before the worker of the version
  before is activated loses the cache it had opened: it fills one that nobody finds, and serves from the network.\<close>

lemma failed_install_leaves_cache:
  "caches (foldl sw_step (no_worker (deploy 1)) (install_one @ [Installs [50] [], FetchFails])) (CACHE [50]) = Some []"
  by (simp add: install_one_def sw_defs)

lemma swept_install_has_no_cache:
  "let w = foldl sw_step (no_worker (deploy 1))
      [Installs [49] [], Fetched 0 False, Installed, Installs [50] [], Activates, Fetched 0 False, Installed, Activates]
   in map_option in_version (active w) = Some [50] \<and> caches w (CACHE [50]) = None"
  by (simp add: sw_defs)

end
