(* ===== verification/Screens.thy ===== *)
theory Screens
  imports Dial Scrollback ClientLoad
begin

text \<open>
  What the page shows and offers (\<^verbatim>\<open>site/boot.mjs\<close>, \<^verbatim>\<open>site/app.mjs\<close>): the loaded build's capabilities and the
  methods offered, the questions put to the component, the fingerprint block, the bar, the settings screen with
  the pin list and the passkey card, and the cards' dials. Markup is left out; a text is what it says.
\<close>

subsection \<open>What the loaded build can do\<close>

text \<open>The loaded interface: its functions by name, and the prototype of its sessions when it can be inspected.\<close>

record build =
  has_fn :: "jstr \<Rightarrow> bool"
  session_proto :: "(jstr \<Rightarrow> bool) option"

record caps =
  can_auto :: bool
  can_publickey :: bool
  can_password :: bool
  can_keyboard :: bool
  can_passkey :: bool
  can_probe :: bool

definition proto_has :: "build \<Rightarrow> jstr \<Rightarrow> bool" where
  "proto_has b name = (case session_proto b of None \<Rightarrow> True | Some p \<Rightarrow> p name)"

definition capabilities :: "bool \<Rightarrow> build \<Rightarrow> caps" where
  "capabilities has_PublicKeyCredential b =
     \<lparr>can_auto = proto_has b (js ''authenticateAuto''),
      can_publickey = has_fn b (js ''identityOpenssh''),
      can_password = True,
      can_keyboard = proto_has b (js ''pendingPrompts''),
      can_passkey = (has_fn b (js ''enrollPasskey'') \<and> has_PublicKeyCredential),
      can_probe = proto_has b (js ''probe'')\<rparr>"

text \<open>The options of the method select; before the probe answered, all of them.\<close>

definition methodSelect :: "caps option \<Rightarrow> jstr list" where
  "methodSelect cs =
     filter (\<lambda>v. case cs of
         None \<Rightarrow> True
       | Some c \<Rightarrow>
           \<not> (v = js ''auto'' \<and> \<not> can_auto c) \<and> \<not> (v = js ''publickey'' \<and> \<not> can_publickey c) \<and>
           \<not> (v = js ''passkey'' \<and> \<not> can_passkey c) \<and> \<not> (v = js ''keyboard-interactive'' \<and> \<not> can_keyboard c))
       METHODS"

text \<open>\<open>probeSession\<close>: a question that never throws. \<open>answer\<close> is what the session's \<open>probe\<close> came to: a rejection,
  or a record (or nothing) whose exit status and output may be missing.\<close>

record probe_record =
  pr_exit :: "int option"
  pr_output :: "nat list option"

definition probeSession :: "bool \<Rightarrow> bool \<Rightarrow> jstr + probe_record option \<Rightarrow> (int option \<times> jstr) option" where
  "probeSession has_session has_probe answer =
     (if \<not> has_session \<or> \<not> has_probe then None
      else case answer of
        Inl e \<Rightarrow> None
      | Inr r \<Rightarrow> Some (Option.bind r pr_exit, utf8_decode (case Option.bind r pr_output of None \<Rightarrow> [] | Some bs \<Rightarrow> bs)))"

text \<open>\<open>identity\<close> and \<open>passkeyIdentity\<close>, with what the component's function answers.\<close>

definition identity_line :: "build \<Rightarrow> jstr + jstr \<Rightarrow> jstr + jstr" where
  "identity_line b answer =
     (if has_fn b (js ''identityOpenssh'') then answer
      else Inl (js ''this build of the client component has no WebCrypto identity yet''))"

definition passkeyIdentity :: "build \<Rightarrow> jstr + jstr option \<Rightarrow> jstr + jstr option" where
  "passkeyIdentity b answer =
     (if has_fn b (js ''passkeyOpenssh'') then answer
      else Inl (js ''this build of the client component has no passkey support yet''))"

text \<open>\<open>detectTools\<close>: only an answered probe, and only of a card that is there, is remembered.\<close>

definition detectTools :: "rat \<Rightarrow> jstr \<Rightarrow> jstr \<Rightarrow> (int option \<times> jstr) option \<Rightarrow> storage \<Rightarrow> storage" where
  "detectTools now i user r st =
     (case r of
        None \<Rightarrow> st
      | Some (code, text) \<Rightarrow>
          updateConnection i user
            [(ftools, Some (JObj (map (\<lambda>(k, b). (k, JBool b)) (parseDetect (Some text))))), (ftoolsAt, Some (JNum now))] st)"

subsection \<open>The fingerprint block\<close>

text \<open>\<^verbatim>\<open>/^([A-Za-z0-9-]+:)(.*)$/\<close>: a dot is no line terminator.\<close>

definition fp_prefix_char :: "nat \<Rightarrow> bool" where
  "fp_prefix_char c \<longleftrightarrow> 65 \<le> c \<and> c \<le> 90 \<or> 97 \<le> c \<and> c \<le> 122 \<or> 48 \<le> c \<and> c \<le> 57 \<or> c = 45"

definition line_end :: "nat \<Rightarrow> bool" where
  "line_end c \<longleftrightarrow> c \<in> {10, 13, 0x2028, 0x2029}"

definition fp_split :: "jstr \<Rightarrow> jstr \<times> jstr" where
  "fp_split s =
     (let p = takeWhile fp_prefix_char s; rest = dropWhile fp_prefix_char s in
      case rest of
        c # t \<Rightarrow> if p \<noteq> [] \<and> c = 58 \<and> \<not> list_ex line_end t then (p @ [c], t) else ([], s)
      | [] \<Rightarrow> ([], s))"

function groups4 :: "jstr \<Rightarrow> jstr list" where
  "groups4 s = (if s = [] then [] else take 4 s # groups4 (drop 4 s))"
  by pat_completeness auto
termination by (relation "measure length") auto

declare groups4.simps [simp del]

definition fpBlock :: "jstr option \<Rightarrow> jstr list" where
  "fpBlock fingerprint =
     (case fp_split (or_empty fingerprint) of
        (hash, rest) \<Rightarrow> (if hash = [] then [] else [hash]) @ groups4 rest)"

lemma concat_groups4: "concat (groups4 s) = s"
  by (induction s rule: groups4.induct) (subst groups4.simps, auto)

lemma groups4_length: "g \<in> set (groups4 s) \<Longrightarrow> g \<noteq> [] \<and> length g \<le> 4"
proof (induction s rule: groups4.induct)
  case (1 s)
  show ?case
  proof (cases "s = []")
    case False
    then have "g = take 4 s \<or> g \<in> set (groups4 (drop 4 s))" using 1(2) by (simp add: groups4.simps[of s])
    then show ?thesis using 1(1)[OF False] False by auto
  qed (use 1(2) in \<open>simp add: groups4.simps\<close>)
qed

text \<open>The block reads as exactly the fingerprint, in groups of at most four after the name of the hash.\<close>

lemma fp_split_parts:
  assumes "fp_split s = (p, r)"
  shows "p @ r = s \<and> (p = [] \<or> last p = 58)"
proof -
  let ?p = "takeWhile fp_prefix_char s" and ?d = "dropWhile fp_prefix_char s"
  have d: "?p @ ?d = s" by (rule takeWhile_dropWhile_id)
  show ?thesis
  proof (cases ?d)
    case Nil
    then show ?thesis using assms unfolding fp_split_def Let_def Nil list.case by simp
  next
    case (Cons c t)
    have "(?p @ [c]) @ t = s" using d Cons by simp
    then show ?thesis using assms unfolding fp_split_def Let_def Cons list.case by (auto split: if_splits)
  qed
qed

lemma fpBlock_exact:
  "concat (fpBlock (Some fp)) = fp \<and>
   (\<forall>g \<in> set (fpBlock (Some fp)). length g \<le> 4 \<or> (g = hd (fpBlock (Some fp)) \<and> last g = 58))"
proof -
  obtain p r where s: "fp_split fp = (p, r)" by (cases "fp_split fp")
  have b: "fpBlock (Some fp) = (if p = [] then [] else [p]) @ groups4 r" by (simp add: fpBlock_def s or_empty_def)
  have "concat (fpBlock (Some fp)) = p @ r" unfolding b by (simp add: concat_groups4)
  moreover have "length g \<le> 4 \<or> g = hd (fpBlock (Some fp)) \<and> last g = 58" if "g \<in> set (fpBlock (Some fp))" for g
    using that fp_split_parts[OF s] groups4_length[of g r] unfolding b by (auto split: if_splits)
  ultimately show ?thesis using fp_split_parts[OF s] by blast
qed

subsection \<open>The bar\<close>

record bar =
  bar_live :: bool
  bar_dot :: jstr
  bar_who :: jstr

definition setLive :: "jstr \<Rightarrow> jstr \<Rightarrow> bar \<Rightarrow> bar" where
  "setLive user label s = s\<lparr>bar_live := True, bar_dot := js ''ok'', bar_who := user @ [64] @ label\<rparr>"

definition setIdle :: "bar \<Rightarrow> bar" where
  "setIdle s = s\<lparr>bar_live := False, bar_dot := [], bar_who := []\<rparr>"

definition link_state :: "jstr option \<Rightarrow> bar \<Rightarrow> bar" where
  "link_state kind s =
     (if \<not> bar_live s then s
      else if kind = Some (js ''reconnecting'') \<or> kind = Some (js ''stalled'') then s\<lparr>bar_dot := js ''warn''\<rparr>
      else if kind = Some (js ''attached'') then s\<lparr>bar_dot := js ''ok''\<rparr> else s)"

text \<open>What the bar calls the machine of the last connection.\<close>

definition liveLabel :: "storage \<Rightarrow> dial_params option \<Rightarrow> jstr" where
  "liveLabel st lc =
     (case Option.bind lc (\<lambda>d. connstringDetails (d_connstring d)) of
        None \<Rightarrow> js ''this machine''
      | Some (i, relay) \<Rightarrow>
          (case Option.bind lc (\<lambda>d. find_entry st i (d_user d)) of
             Some e \<Rightarrow> labelOf (Some e)
           | None \<Rightarrow> take 8 i @ [0x2026]))"

subsection \<open>Settings\<close>

text \<open>The toggle of the scrollback: turning it off also empties the store.\<close>

definition pref_scrollback :: "bool \<Rightarrow> buf_fail \<Rightarrow> storage \<Rightarrow> buffer_store \<Rightarrow> storage \<times> buffer_store" where
  "pref_scrollback on f st db = (setScrollbackEnabled on st, if on then db else buf_wipe f db)"

text \<open>Once off, no later dial is given a key to save under or a dump to restore.\<close>

lemma scrollback_off:
  assumes "storage_usable st" and "pref_scrollback False NoFail st db = (st', db')"
  shows "buffers db' = [] \<and> prefetch st' c u f db2 = (None, None, db2)"
  using assms
  by (auto simp: pref_scrollback_def buf_wipe_def prefetch_def scrollbackEnabled_def setScrollbackEnabled_def setItem_def
      getItem_def storage_usable_def)

text \<open>But a session already running keeps its key, and its next save puts a dump back into the emptied store.\<close>

lemma running_session_saves_after_wipe:
  assumes "k = x # k'"
  shows "dump_text k (database (foldl (browser_step (Some count_pieces)) new_browser
    [NewTab, Happens 0 (Drained (Some k) [104]), WipeAll NoFail, Happens 0 (Periodic Normal (Some k)), PutLands 0 NoFail 5])) = Some [0]"
proof -
  have k: "owner_of_key (Some k) = Key k" by (simp add: owner_of_key_def assms)
  show ?thesis
    by (simp add: new_browser_def on_tab_def screen_happens_def screen_defs blank_screen_def dumpWorthSaving_def k
        count_pieces_def SCROLLBACK_SAVE_CAP_def buf_put_def idb_put_def prune_db_def CAP_def Let_def buf_wipe_def
        dump_text_get idb_get_def)
qed

text \<open>Where the settings go back to, and what the two ways of opening them leave.\<close>

definition prefs_back :: "bool \<Rightarrow> bool \<Rightarrow> boot \<Rightarrow> boot" where
  "prefs_back is_live from_session s = (if is_live \<and> from_session then hideChrome s else showChrome Home s)"

text \<open>The list of approved keys: the id, the nickname of the last card with that id, and when. \<open>None\<close> where the
  code throws, on a pin that is null.\<close>

record pin_row =
  pin_id :: jstr
  pin_nick :: "json option"
  pin_at :: "json option"

definition pin_entries :: "storage \<Rightarrow> (jstr \<times> json) list" where
  "pin_entries st =
     (case loadPins st of
        JObj ps \<Rightarrow> ps
      | JArr xs \<Rightarrow> map (\<lambda>i. (show_nat i, xs ! i)) [0..<length xs]
      | _ \<Rightarrow> [])"

definition nick_of :: "storage \<Rightarrow> jstr \<Rightarrow> json option" where
  "nick_of st i =
     (case List.find (\<lambda>e. json_text (jget e fid) = Some i) (rev (loadHistory st)) of
        None \<Rightarrow> None | Some e \<Rightarrow> jget e fname)"

definition pin_rows :: "storage \<Rightarrow> pin_row list option" where
  "pin_rows st =
     (if JNull \<in> snd ` set (pin_entries st) then None
      else Some (map (\<lambda>(i, p). \<lparr>pin_id = i, pin_nick = nick_of st i, pin_at = jget p (js ''at'')\<rparr>) (pin_entries st)))"

text \<open>Forgetting a key brings the confirmation back. Where the storage takes writes: after \<open>forget\<close> on a
  listed key the list is the old one without it, and a dial to that listener asks about every key, whatever
  it presents, until one is accepted again; every other listener's pin is as it was.\<close>

theorem revoked_key_asks:
  assumes "pins_usable st" and "dialed_endpoint parse_url cs = Some i" and "pin_rows st = Some rows"
  shows "pin_rows (removePin i st) = Some (filter (\<lambda>r. pin_id r \<noteq> i) rows) \<and>
    (\<exists>ok st'. confirmHostKey parse_url now fp cs press (removePin i st) st1 = (ok, True, st')) \<and>
    (\<forall>j. j \<noteq> i \<longrightarrow> pin_of (Some j) (removePin i st) = pin_of (Some j) st)"
proof -
  obtain ps where ps: "loadPins st = JObj ps" and st: "storage_usable st"
    using assms(1) by (auto simp: pins_usable_def split: json.splits)
  have l: "loadPins (removePin i st) = JObj (filter (\<lambda>p. fst p \<noteq> i) ps)"
    using st by (simp add: removePin_write loadPins_write ps)
  have h: "loadHistory (removePin i st) = loadHistory st"
    by (simp add: loadHistory_def removePin_write parseItem_other HISTORY_KEY_def PINS_KEY_def)
  have e: "pin_entries (removePin i st) = filter (\<lambda>p. fst p \<noteq> i) (pin_entries st)" by (simp add: pin_entries_def l ps)
  have "pin_rows (removePin i st) = Some (filter (\<lambda>r. pin_id r \<noteq> i) rows)"
    using assms(3) by (auto simp: pin_rows_def e nick_of_def h filter_map o_def case_prod_beta split: if_splits)
  moreover have "pin_of (Some i) (removePin i st) = None" by (simp add: pin_of_def l map_of_filter_fst)
  then have "\<exists>ok st'. confirmHostKey parse_url now fp cs press (removePin i st) st1 = (ok, True, st')"
    by (auto simp: confirmHostKey_def confirmAsk_def confirmAnswer_def assms(2) hostKeyAsk_def split: key_press.split)
  moreover have "pin_of (Some j) (removePin i st) = pin_of (Some j) st" if "j \<noteq> i" for j
    using that by (simp add: pin_of_def l ps map_of_filter_fst)
  ultimately show ?thesis by blast
qed

lemma revoked_key_asks_witness:
  "\<exists>cs. \<forall>press st1. \<exists>ok st'. confirmHostKey (\<lambda>_. None) [] [102] cs press
     (removePin (replicate 64 97) (savePin [] (replicate 64 97) [102] empty_storage)) st1 = (ok, True, st')"
proof -
  obtain cs where d: "dialed_endpoint (\<lambda>_. None) cs = Some (replicate 64 97)" by (rule example_listener)
  let ?st = "savePin [] (replicate 64 97) [102] empty_storage"
  note l = empty_pins
  note u = empty_pins_usable
  then have "storage_usable empty_storage" by (simp add: pins_usable_def)
  then have "JNull \<notin> snd ` set (pin_entries ?st)" by (simp add: pin_entries_def savePin_write loadPins_write l)
  then obtain rows where "pin_rows ?st = Some rows" by (simp add: pin_rows_def)
  from revoked_key_asks[OF pins_usable_savePin[OF u] d this] show ?thesis by blast
qed

subsection \<open>The passkey card\<close>

datatype passkey_card = CardHidden | CardEnrolled jstr | CardNone

record passkey_view =
  card :: passkey_card
  card_status :: jstr

text \<open>\<open>renderPasskey\<close>, with what \<open>passkeyIdentity\<close> answers; an empty line counts as none.\<close>

definition renderPasskey :: "caps option \<Rightarrow> jstr + jstr option \<Rightarrow> passkey_view \<Rightarrow> passkey_view" where
  "renderPasskey cs answer v =
     (case cs of
        None \<Rightarrow> v
      | Some c \<Rightarrow>
          if \<not> can_passkey c then v
          else case answer of
            Inl e \<Rightarrow> \<lparr>card = CardNone, card_status = js ''could not read the passkey identity: '' @ e\<rparr>
          | Inr (Some (x # l)) \<Rightarrow> \<lparr>card = CardEnrolled (x # l), card_status = []\<rparr>
          | Inr _ \<Rightarrow> \<lparr>card = CardNone, card_status = []\<rparr>)"

datatype card_verb = Enrol | Adopt jstr | Recover | Forget

fun verb_name :: "card_verb \<Rightarrow> jstr" where
  "verb_name Enrol = js ''enrol''"
| "verb_name (Adopt typed) = js ''adopt''"
| "verb_name Recover = js ''recover''"
| "verb_name Forget = js ''forget''"

text \<open>The verbs a card offers; forgetting takes two taps.\<close>

fun offered_verb :: "passkey_card \<Rightarrow> card_verb \<Rightarrow> bool" where
  "offered_verb CardHidden v = False"
| "offered_verb (CardEnrolled l) v = (v = Forget)"
| "offered_verb CardNone v = (v \<noteq> Forget)"

text \<open>A verb's press: whether it goes to the component, and the status while it does.\<close>

definition card_press :: "card_verb \<Rightarrow> passkey_view \<Rightarrow> bool \<times> passkey_view" where
  "card_press verb v =
     (case verb of
        Adopt typed \<Rightarrow>
          if trim typed = [] then (False, v\<lparr>card_status := js ''paste an authorized_keys line first''\<rparr>)
          else (True, v\<lparr>card_status := js ''touch the passkey to confirm'' @ [0x2026]\<rparr>)
      | Enrol \<Rightarrow> (True, v\<lparr>card_status := js ''touch your passkey to create it'' @ [0x2026]\<rparr>)
      | Recover \<Rightarrow> (True, v\<lparr>card_status := js ''touch the passkey twice to recover it'' @ [0x2026]\<rparr>)
      | Forget \<Rightarrow> (True, v))"

text \<open>The component answers, and on success the identity is read again.\<close>

definition card_answer :: "caps option \<Rightarrow> card_verb \<Rightarrow> jstr + unit \<Rightarrow> jstr + jstr option \<Rightarrow> passkey_view \<Rightarrow> passkey_view" where
  "card_answer cs verb result identity v =
     (case result of
        Inl e \<Rightarrow> v\<lparr>card_status := verb_name verb @ js '' failed: '' @ e\<rparr>
      | Inr _ \<Rightarrow> renderPasskey cs identity v)"

text \<open>A failure leaves the card with its verbs; a success shows what the component then holds.\<close>

lemma card_follows_component:
  assumes "card v \<noteq> CardHidden" and "offered_verb (card v) verb" and "cs = Some c" and "can_passkey c"
  shows "card_answer cs verb (Inl e) identity v = v\<lparr>card_status := verb_name verb @ js '' failed: '' @ e\<rparr>"
    and "l \<noteq> [] \<Longrightarrow> card (card_answer cs verb (Inr ()) (Inr (Some l)) v) = CardEnrolled l"
    and "card (card_answer cs verb (Inr ()) (Inr None) v) = CardNone"
  using assms by (simp_all add: card_answer_def renderPasskey_def neq_Nil_conv split: list.split)

end
