(* ===== verification/HomeScreen.thy ===== *)
theory HomeScreen
  imports Recovery Screens
begin

text \<open>
  \<^verbatim>\<open>site/boot.mjs\<close>, the home screen (\<open>renderHome\<close>): a card per remembered connection, the ways to add a machine,
  and the countdown on the first card; what a tap dials (\<open>dialFromEntry\<close>). The countdown itself is Recovery's.
  A rendered screen keeps the entries it was rendered from, whatever the storage holds by the time of a tap.
\<close>

subsection \<open>Cards\<close>

datatype pill = KeyPinned | RunsSession tool jstr | RunsACommand | ByMethod jstr

text \<open>\<open>pins[entry.id]?.fp\<close>\<close>

definition key_pinned :: "storage \<Rightarrow> json \<Rightarrow> bool" where
  "key_pinned st e = (case json_text (jget e fid) of Some i \<Rightarrow> opt_truthy (pinnedFp st i) | None \<Rightarrow> False)"

definition card_pills :: "storage \<Rightarrow> json \<Rightarrow> pill list" where
  "card_pills st e =
     (if key_pinned st e then [KeyPinned] else []) @
     (case json_text (jget e fcommand) of
        None \<Rightarrow> []
      | Some c \<Rightarrow> (case matchCommand (Some c) of Some (p, n) \<Rightarrow> [RunsSession p n] | None \<Rightarrow> [RunsACommand])) @
     (case json_text (jget e fmethod) of None \<Rightarrow> [] | Some m \<Rightarrow> [ByMethod m])"

record card_view =
  card_user :: "json option"
  card_label :: jstr
  pills :: "pill list"
  card_entry :: json

definition card_row :: "storage \<Rightarrow> json \<Rightarrow> card_view" where
  "card_row st e =
     \<lparr>card_user = jget e fuser, card_label = labelOf (Some e), pills = card_pills st e, card_entry = e\<rparr>"

text \<open>The whole screen: the first-run hero, or the cards; the seconds on the first card; the transient line.\<close>

record home_view =
  first_run :: bool
  cards :: "card_view list"
  resuming_in :: "nat option"
  notice_line :: jstr

definition renderHome :: "storage \<Rightarrow> bool \<Rightarrow> resume \<Rightarrow> jstr \<Rightarrow> home_view" where
  "renderHome st is_live r notice =
     \<lparr>first_run = (loadHistory st = [] \<and> \<not> is_live), cards = map (card_row st) (loadHistory st),
      resuming_in = secs (resume_step r (RenderHome st is_live)), notice_line = notice\<rparr>"

text \<open>\<open>dialFromEntry\<close>: the card's remembered parameters. \<open>None\<close> where \<open>btoa\<close> throws or a field the history never
  writes otherwise is not a string.\<close>

definition entry_dial :: "jstr option \<Rightarrow> json \<Rightarrow> dial_params option" where
  "entry_dial command e =
     (case (json_text (jget e fid), json_text (jget e frelay), json_text (jget e fuser)) of
        (Some i, Some relay, Some user) \<Rightarrow>
          map_option (\<lambda>cs. \<lparr>d_connstring = cs, d_user = user,
              d_command = (case command of Some c \<Rightarrow> c | None \<Rightarrow> or_empty (json_text (jget e fcommand))),
              d_method = (case json_text (jget e fmethod) of Some m \<Rightarrow> m | None \<Rightarrow> js ''auto'')\<rparr>)
            (tokenlessConnstring i relay)
      | _ \<Rightarrow> None)"

definition dialFromEntry :: "jstr option \<Rightarrow> json \<Rightarrow> boot \<Rightarrow> boot" where
  "dialFromEntry command e s =
     (case entry_dial command e of None \<Rightarrow> s | Some d \<Rightarrow> doConnect d False FormOnError s)"

lemma first_run_is_plain: "first_run (renderHome st l r n) \<Longrightarrow> cards (renderHome st l r n) = [] \<and> resuming_in (renderHome st l r n) = None"
  by (auto simp: renderHome_def resume_eligible_def)

lemma one_row_each: "map card_entry (cards (renderHome st l r n)) = loadHistory st"
  by (simp add: renderHome_def card_row_def o_def)

subsection \<open>A card dials what connected\<close>

text \<open>What a dial that reached its session leaves first in the history.\<close>

lemma recorded_card:
  assumes "dialing s = Some (d, q, k)" and "connstringDetails (d_connstring d) = Some (i, relay)"
    and "rememberEnabled (local_storage s)" and "storage_usable (local_storage s)" and "method_ok (d_method d)"
  shows "\<exists>prior es. loadHistory (local_storage (dial_settles now Resolved s)) =
    record_entry prior now i relay (d_user d) (d_command d) (d_method d) None # es"
  using assms by (simp add: settle_fields remember_dial_def record_load) blast

lemma recorded_dial:
  "entry_dial None (record_entry prior now i relay user command method auto) =
     map_option (\<lambda>cs. \<lparr>d_connstring = cs, d_user = user, d_command = command,
       d_method = (if method = [] then js ''auto'' else method)\<rparr>) (tokenlessConnstring i relay)"
  by (simp add: entry_dial_def record_fields or_empty_def del: js_simps)

text \<open>C8: A card dials what connected. Once a dial has reached its session, with remembering on, the home screen
  shows a card for it first, and a tap on that card dials the same listener over the same relay as the same
  user, with the same command and method, by a string without a token; when that listener's key is pinned the
  card says so, and the listener presenting that key is trusted without a question.\<close>

theorem card_redials_what_connected:
  assumes "dialing s = Some (d, q, k)" and details: "connstringDetails (d_connstring d) = Some (i, relay)"
    and "rememberEnabled (local_storage s)" and "storage_usable (local_storage s)" and "method_ok (d_method d)"
    and relay: "hd relay \<noteq> 0xFEFF" "length (utf8_encode relay) < 2 ^ 53"
  shows "\<exists>row rest d'. cards (renderHome (local_storage (dial_settles now Resolved s)) l r n) = row # rest \<and>
    entry_dial None (card_entry row) = Some d' \<and>
    tokenlessConnstring i relay = Some (d_connstring d') \<and> connstringDetails (d_connstring d') = Some (i, relay) \<and>
    d_user d' = d_user d \<and> d_command d' = d_command d \<and> (d_method d' = d_method d \<or> d_method d = [] \<and> d_method d' = js ''auto'') \<and>
    (dialing u = None \<longrightarrow> dialing (dialFromEntry None (card_entry row) u) = Some (d', False, FormOnError)) \<and>
    (\<forall>fp. pinnedFp (local_storage (dial_settles now Resolved s)) i = Some (JStr fp) \<longrightarrow>
       (fp \<noteq> [] \<longrightarrow> KeyPinned \<in> set (pills row)) \<and>
       (\<forall>new_url st st'. new_url (d_connstring d') = None \<and> pinnedFp st i = Some (JStr fp) \<longrightarrow>
          confirmHostKey new_url now' fp (d_connstring d') press st st' = (True, False, st')))"
proof -
  let ?st = "local_storage (dial_settles now Resolved s)"
  obtain prior es where h: "loadHistory ?st = record_entry prior now i relay (d_user d) (d_command d) (d_method d) None # es"
    using recorded_card[OF assms(1-5)] by blast
  note D = connstringDetails_SomeD[OF details]
  have ok: "hex_id i" "relay_ok relay" "token_ok None" using D(2-4) relay by (simp_all add: relay_ok_def token_ok_def)
  obtain cs where cs: "tokenlessConnstring i relay = Some cs" "connstringDetails cs = Some (i, relay)" "endpointIdOf cs = Some i"
    using v3_roundtrip[OF ok] by (auto simp: tokenlessConnstring_def)
  have silent: "confirmHostKey new_url now' fp cs press st st' = (True, False, st')"
    if bare: "new_url cs = None" and fp: "pinnedFp st i = Some (JStr fp)" for new_url fp st st'
  proof -
    have "connstringFrom new_url (Some cs) = cs" using v3_bare[OF ok] cs(1) bare by (simp add: tokenlessConnstring_def)
    then have "dialed_endpoint new_url cs = Some i" using cs(3) by (simp add: dialed_endpoint_def)
    moreover obtain p where p: "jget (loadPins st) i = Some p" "jget p (js ''fp'') = Some (JStr fp)"
      using fp by (auto simp: pinnedFp_def bind_eq_Some_conv)
    moreover from p(2) have "truthy p" by (cases p) auto
    ultimately show ?thesis by (simp add: confirmHostKey_def confirmAsk_def pin_of_def)
  qed
  let ?row = "card_row ?st (record_entry prior now i relay (d_user d) (d_command d) (d_method d) None)"
  let ?d = "\<lparr>d_connstring = cs, d_user = d_user d, d_command = d_command d,
    d_method = (if d_method d = [] then js ''auto'' else d_method d)\<rparr>"
  have e: "entry_dial None (card_entry ?row) = Some ?d" by (simp add: card_row_def recorded_dial cs(1) del: js_simps)
  have pill: "KeyPinned \<in> set (pills ?row)" if "pinnedFp ?st i = Some (JStr fp)" "fp \<noteq> []" for fp
    using that by (simp add: card_row_def card_pills_def key_pinned_def record_fields opt_truthy_def)
  have "dialing (dialFromEntry None (card_entry ?row) u) = Some (?d, False, FormOnError)" if "dialing u = None"
    using that by (simp add: dialFromEntry_def e doConnect_def hideChrome_def)
  moreover have "cards (renderHome ?st l r n) = ?row # map (card_row ?st) es" by (simp add: renderHome_def h)
  ultimately show ?thesis using e cs silent pill by (intro exI[of _ ?row] exI[of _ "map (card_row ?st) es"] exI[of _ ?d]) auto
qed

lemma card_redials_what_connected_witness:
  "\<exists>s row rest d'. cards (renderHome (local_storage (dial_settles (js ''t'') Resolved s)) True (page_loaded False) []) = row # rest \<and>
     entry_dial None (card_entry row) = Some d' \<and> d_user d' = js ''ada'' \<and> d_command d' = js ''top''"
proof -
  obtain cs where cs: "connstringDetails cs = Some (replicate 64 97, js ''https://r'')"
    using v3_roundtrip[OF example_inputs] by blast
  let ?d = "some_dial\<lparr>d_connstring := cs\<rparr>"
  let ?s = "(booted empty_storage)\<lparr>dialing := Some (?d, False, NothingMore)\<rparr>"
  have d: "dialing ?s = Some (?d, False, NothingMore)" "connstringDetails (d_connstring ?d) = Some (replicate 64 97, js ''https://r'')"
    using cs by simp_all
  have u: "storage_usable (local_storage ?s)" "rememberEnabled (local_storage ?s)"
    by (simp_all add: booted_def storage_usable_def empty_storage_def rememberEnabled_def getItem_def)
  have m: "method_ok (d_method ?d)" by (simp add: some_dial_def method_ok_def METHODS_def)
  have r: "hd (js ''https://r'') \<noteq> 0xFEFF" "length (utf8_encode (js ''https://r'')) < 2 ^ 53"
    using example_inputs(2) unfolding relay_ok_def by blast+
  have f: "d_user ?d = js ''ada''" "d_command ?d = js ''top''" by (simp_all add: some_dial_def)
  from card_redials_what_connected[OF d u(2,1) m r, of "js ''t''" True "page_loaded False" "[]"] show ?thesis
    unfolding f by blast
qed

subsection \<open>The countdown\<close>

text \<open>What happens on the screen: it is rendered (from the storage as it is then; other tabs write it), something
  on it is used, or a second passes. A card is named by the entry it was rendered from.\<close>

datatype home_event =
    Rendered storage bool | TapCard json | TapMore json | TapSettings | TapScan | FocusPaste | SubmitPaste jstr
  | TapCancel | SecondPasses

text \<open>What it comes to; a dial of a card is marked when the countdown made it.\<close>

datatype home_effect = DialsCard bool json | AsksForm jstr | OpensScan | ShowsConnection json | ShowsPrefs

record home =
  countdown :: resume
  counting_for :: "json option"
  effects :: "home_effect list"

definition touches :: "home_effect list \<Rightarrow> home \<Rightarrow> home" where
  "touches es s = s\<lparr>countdown := resume_step (countdown s) Interaction, counting_for := None, effects := effects s @ es\<rparr>"

fun home_step :: "(jstr \<Rightarrow> jstr option) \<Rightarrow> home \<Rightarrow> home_event \<Rightarrow> home" where
  "home_step new_url s (Rendered st is_live) =
     (let r = resume_step (countdown s) (RenderHome st is_live) in
      s\<lparr>countdown := r, counting_for := (if secs r = None then None else Some (hd (loadHistory st)))\<rparr>)"
| "home_step new_url s (TapCard e) = touches [DialsCard False e] s"
| "home_step new_url s (TapMore e) = touches [ShowsConnection e] s"
| "home_step new_url s TapSettings = touches [ShowsPrefs] s"
| "home_step new_url s TapScan = touches [OpensScan] s"
| "home_step new_url s FocusPaste = touches [] s"
| "home_step new_url s (SubmitPaste raw) =
     (let cs = connstringFrom new_url (Some raw) in if cs = [] then s else touches [AsksForm cs] s)"
| "home_step new_url s TapCancel = touches [] s"
| "home_step new_url s SecondPasses =
     (let r = resume_step (countdown s) Second in
      case counting_for s of
        None \<Rightarrow> s
      | Some e \<Rightarrow> if secs r = None then s\<lparr>countdown := r, counting_for := None, effects := effects s @ [DialsCard True e]\<rparr>
                  else s\<lparr>countdown := r\<rparr>)"

definition home_start :: "bool \<Rightarrow> home" where
  "home_start has_fragment = \<lparr>countdown = page_loaded has_fragment, counting_for = None, effects = []\<rparr>"

abbreviation home_run :: "(jstr \<Rightarrow> jstr option) \<Rightarrow> bool \<Rightarrow> home_event list \<Rightarrow> home" where
  "home_run new_url has_fragment es \<equiv> foldl (home_step new_url) (home_start has_fragment) es"

text \<open>What calls the countdown off, and the screen as it was last rendered with the seconds since.\<close>

definition calls_off :: "(jstr \<Rightarrow> jstr option) \<Rightarrow> home_event \<Rightarrow> bool" where
  "calls_off new_url e =
     (case e of Rendered _ _ \<Rightarrow> False | SecondPasses \<Rightarrow> False
      | SubmitPaste raw \<Rightarrow> connstringFrom new_url (Some raw) \<noteq> [] | _ \<Rightarrow> True)"

fun watch :: "(storage \<times> bool \<times> nat) option \<Rightarrow> home_event \<Rightarrow> (storage \<times> bool \<times> nat) option" where
  "watch w (Rendered st l) = Some (st, l, 0)"
| "watch w SecondPasses = map_option (\<lambda>(st, l, n). (st, l, Suc n)) w"
| "watch w _ = w"

definition automatic :: "home_effect \<Rightarrow> bool" where
  "automatic x = (case x of DialsCard b _ \<Rightarrow> b | _ \<Rightarrow> False)"

definition counts :: "bool \<Rightarrow> (storage \<times> bool \<times> nat) option \<Rightarrow> json \<Rightarrow> nat \<Rightarrow> bool" where
  "counts pending w e n \<longleftrightarrow> pending \<and> (\<exists>st. w = Some (st, False, n) \<and> resume_eligible st \<and> e = hd (loadHistory st))"

definition pending_ok :: "(jstr \<Rightarrow> jstr option) \<Rightarrow> bool \<Rightarrow> home_event list \<Rightarrow> home \<Rightarrow> bool" where
  "pending_ok new_url frag es s \<longleftrightarrow>
     (resumePending (countdown s) \<longleftrightarrow> \<not> frag \<and> \<not> list_ex (calls_off new_url) es \<and> filter automatic (effects s) = [])"

definition seconds_ok :: "(storage \<times> bool \<times> nat) option \<Rightarrow> home \<Rightarrow> bool" where
  "seconds_ok w s \<longleftrightarrow>
     (case counting_for s of
        None \<Rightarrow> secs (countdown s) = None \<and> (\<forall>e n. \<not> counts (resumePending (countdown s)) w e n)
      | Some e \<Rightarrow> \<exists>n < 4. secs (countdown s) = Some (4 - n) \<and> counts (resumePending (countdown s)) w e n)"

definition home_inv :: "(jstr \<Rightarrow> jstr option) \<Rightarrow> bool \<Rightarrow> home_event list \<Rightarrow> home \<Rightarrow> bool" where
  "home_inv new_url frag es s \<longleftrightarrow>
     pending_ok new_url frag es s \<and> length (filter automatic (effects s)) \<le> 1 \<and> seconds_ok (foldl watch None es) s"

lemma counts_det: "counts p w e n \<Longrightarrow> counts p w e' n' \<longleftrightarrow> e' = e \<and> n' = n"
  by (auto simp: counts_def)

lemma home_inv_start: "home_inv new_url frag [] (home_start frag)"
  by (simp add: home_inv_def pending_ok_def seconds_ok_def home_start_def page_loaded_def counts_def)

lemma seconds_counting:
  assumes "seconds_ok w s" and "counting_for s = Some e"
  obtains n where "n < 4" "secs (countdown s) = Some (4 - n)" "counts (resumePending (countdown s)) w e n"
  using assms by (auto simp: seconds_ok_def)

lemma home_inv_touches:
  assumes "home_inv new_url frag es s" and "calls_off new_url x" and "filter automatic xs = []"
  shows "home_inv new_url frag (es @ [x]) (touches xs s)"
  using assms by (simp add: home_inv_def pending_ok_def seconds_ok_def touches_def cancelResume_def counts_def)

lemma home_inv_second:
  assumes "home_inv new_url frag es s"
  shows "home_inv new_url frag (es @ [SecondPasses]) (home_step new_url s SecondPasses)"
proof (cases "counting_for s")
  case None
  with assms have "\<not> counts (resumePending (countdown s)) (foldl watch None es) e n" for e n
    by (simp add: home_inv_def seconds_ok_def)
  then have "\<not> counts (resumePending (countdown s)) (map_option (\<lambda>(st, l, n). (st, l, Suc n)) (foldl watch None es)) e n" for e n
    by (auto simp: counts_def)
  with None assms have "seconds_ok (foldl watch None (es @ [SecondPasses])) s" by (simp add: home_inv_def seconds_ok_def)
  with None assms show ?thesis by (simp add: home_inv_def pending_ok_def calls_off_def)
next
  case (Some e)
  obtain n where n: "n < 4" "secs (countdown s) = Some (4 - n)" "counts (resumePending (countdown s)) (foldl watch None es) e n"
    using seconds_counting[OF _ Some] assms unfolding home_inv_def by blast
  then have p: "resumePending (countdown s)" by (simp add: counts_def)
  with assms have q: "filter automatic (effects s) = []" by (simp add: home_inv_def pending_ok_def)
  show ?thesis
  proof (cases "n = 3")
    case True
    with Some n q show ?thesis
      by (simp add: home_inv_def pending_ok_def seconds_ok_def cancelResume_def counts_def automatic_def Let_def)
  next
    case False
    with n have s: "resume_step (countdown s) Second = (countdown s)\<lparr>secs := Some (4 - Suc n)\<rparr>" "Suc n < 4" by auto
    moreover have "counts True (map_option (\<lambda>(st, l, n). (st, l, Suc n)) (foldl watch None es)) e (Suc n)"
      using n(3) by (auto simp: counts_def)
    moreover have step: "home_step new_url s SecondPasses = s\<lparr>countdown := (countdown s)\<lparr>secs := Some (4 - Suc n)\<rparr>\<rparr>"
      using s Some by (simp del: resume_step.simps)
    ultimately have "seconds_ok (foldl watch None (es @ [SecondPasses])) (home_step new_url s SecondPasses)"
      using Some p unfolding step seconds_ok_def by (auto intro!: exI[of _ "Suc n"])
    then show ?thesis using assms p unfolding home_inv_def step by (simp add: pending_ok_def calls_off_def)
  qed
qed

lemma home_inv_step:
  assumes "home_inv new_url frag es s"
  shows "home_inv new_url frag (es @ [x]) (home_step new_url s x)"
proof (cases x)
  case (Rendered st l)
  with assms show ?thesis
    by (auto simp: home_inv_def pending_ok_def seconds_ok_def counts_def calls_off_def Let_def)
next
  case (SubmitPaste raw)
  show ?thesis
  proof (cases "connstringFrom new_url (Some raw) = []")
    case True
    with assms show ?thesis by (simp add: SubmitPaste home_inv_def pending_ok_def calls_off_def)
  qed (use assms in \<open>simp add: SubmitPaste calls_off_def automatic_def home_inv_touches\<close>)
qed (use assms home_inv_second in \<open>simp_all add: calls_off_def automatic_def home_inv_touches\<close>)

lemma home_inv_run: "home_inv new_url frag es (home_run new_url frag es)"
  by (induction es rule: rev_induct) (simp_all add: home_inv_start home_inv_step)

text \<open>C15: The countdown is consent. Whatever happens on the home screen and whatever other tabs write: a second
  makes its resume countdown dial exactly when the page was not opened by a link, nothing on the screen was used since the page
  was loaded, the countdown dialled nothing before, and it is the fourth second since the screen was last
  rendered, without a live session, from a history whose first card asked for it, runs a command and has its
  key pinned; that card is then what it dials. So the countdown dials at most once in a page
  load. (A lost session's automatic reconnect, in Dial, is not the countdown's.)\<close>

theorem countdown_is_consent:
  "let s = home_run new_url frag es in
    (effects (home_step new_url s SecondPasses) = effects s @ [DialsCard True e] \<longleftrightarrow>
       \<not> frag \<and> \<not> list_ex (calls_off new_url) es \<and> filter automatic (effects s) = [] \<and>
       (\<exists>st. foldl watch None es = Some (st, False, 3) \<and> resume_eligible st \<and> e = hd (loadHistory st))) \<and>
    length (filter automatic (effects s)) \<le> 1"
proof -
  let ?s = "home_run new_url frag es"
  have "home_inv new_url frag es ?s" by (rule home_inv_run)
  then have inv: "pending_ok new_url frag es ?s" "seconds_ok (foldl watch None es) ?s" "length (filter automatic (effects ?s)) \<le> 1"
    by (simp_all add: home_inv_def)
  have "effects (home_step new_url ?s SecondPasses) = effects ?s @ [DialsCard True e] \<longleftrightarrow>
      counts (resumePending (countdown ?s)) (foldl watch None es) e 3"
  proof (cases "counting_for ?s")
    case None
    then show ?thesis using inv(2) by (simp add: seconds_ok_def)
  next
    case (Some e')
    obtain n where n: "n < 4" "secs (countdown ?s) = Some (4 - n)"
        "counts (resumePending (countdown ?s)) (foldl watch None es) e' n"
      by (rule seconds_counting[OF inv(2) Some])
    have "effects (home_step new_url ?s SecondPasses) = (if n = 3 then effects ?s @ [DialsCard True e'] else effects ?s)"
      using n(1,2) Some by (auto simp: cancelResume_def Let_def)
    then show ?thesis using counts_det[OF n(3)] by auto
  qed
  then show ?thesis using inv(1,3) by (simp add: counts_def pending_ok_def Let_def)
qed

end
