(* ===== verification/TermSetup.thy ===== *)
theory TermSetup
  imports Prelude
begin

text \<open>
  \<^verbatim>\<open>site/app.mjs\<close>, around the terminal: the addons (each behind its own \<open>try\<close>), the clipboard a remote program may
  reach, and the sleep of the output pump that a keystroke cuts short. Whether an addon can be constructed and
  loaded on this device is a parameter.
\<close>

subsection \<open>The addons\<close>

datatype addon = Unicode11 | Clipboard | WebLinks | InlineImages | Webgl | Serialize

record page_addons =
  activated :: "addon list"
  serializeAddon :: bool
  warned :: "addon list"

text \<open>The body of each \<open>enhance\<close>: constructing, loading, then saying so; the handle of the serialize addon is kept
  as soon as it is constructed.\<close>

definition load_addon :: "(addon \<Rightarrow> bool) \<Rightarrow> (addon \<Rightarrow> bool) \<Rightarrow> addon \<Rightarrow> page_addons \<Rightarrow> bool \<times> page_addons" where
  "load_addon constructs loads a s =
     (if \<not> constructs a then (False, s)
      else (let s1 = (if a = Serialize then s\<lparr>serializeAddon := True\<rparr> else s) in
            if loads a then (True, s1\<lparr>activated := activated s1 @ [a]\<rparr>) else (False, s1)))"

definition enhance :: "(addon \<Rightarrow> bool) \<Rightarrow> (addon \<Rightarrow> bool) \<Rightarrow> addon \<Rightarrow> page_addons \<Rightarrow> page_addons" where
  "enhance constructs loads a s =
     (case load_addon constructs loads a s of (ok, t) \<Rightarrow> if ok then t else t\<lparr>warned := warned t @ [a]\<rparr>)"

definition addons :: "(addon \<Rightarrow> bool) \<Rightarrow> (addon \<Rightarrow> bool) \<Rightarrow> page_addons" where
  "addons constructs loads =
     foldl (\<lambda>s a. enhance constructs loads a s) \<lparr>activated = [], serializeAddon = False, warned = []\<rparr>
       [Unicode11, Clipboard, WebLinks, InlineImages, Webgl, Serialize]"

text \<open>One that fails costs only itself; each is accounted for, once.\<close>

lemma enhance_fields:
  "activated (enhance c l a s) = activated s @ (if c a \<and> l a then [a] else [])"
  "warned (enhance c l a s) = warned s @ (if c a \<and> l a then [] else [a])"
  "serializeAddon (enhance c l a s) \<longleftrightarrow> serializeAddon s \<or> a = Serialize \<and> c a"
  by (auto simp: enhance_def load_addon_def Let_def)

lemma addons_independent:
  "activated (addons c l) = filter (\<lambda>a. c a \<and> l a) [Unicode11, Clipboard, WebLinks, InlineImages, Webgl, Serialize]"
  "warned (addons c l) = filter (\<lambda>a. \<not> (c a \<and> l a)) [Unicode11, Clipboard, WebLinks, InlineImages, Webgl, Serialize]"
  by (simp_all add: addons_def enhance_fields)

text \<open>A serialize addon that constructs but does not load is still called by the saves.\<close>

lemma unloaded_serializer_kept:
  "c Serialize \<Longrightarrow> \<not> l Serialize \<Longrightarrow> serializeAddon (addons c l) \<and> Serialize \<notin> set (activated (addons c l))"
  by (simp add: addons_independent) (simp add: addons_def enhance_fields)

subsection \<open>The clipboard of the remote side\<close>

text \<open>OSC 52: what the remote reads, and what its write does to the system's clipboard when the browser allows it.\<close>

datatype osc52 = ReadText | WriteText jstr

fun clipboard_step :: "bool \<Rightarrow> osc52 \<Rightarrow> jstr \<Rightarrow> jstr option \<times> jstr" where
  "clipboard_step allowed ReadText clip = (Some [], clip)"
| "clipboard_step allowed (WriteText t) clip = (None, if allowed then t else clip)"

fun clipboard_run :: "(bool \<times> osc52) list \<Rightarrow> jstr \<Rightarrow> jstr option list \<times> jstr" where
  "clipboard_run [] clip = ([], clip)"
| "clipboard_run ((b, e) # es) clip =
     (case clipboard_step b e clip of (r, c) \<Rightarrow> (case clipboard_run es c of (rs, c') \<Rightarrow> (r # rs, c')))"

text \<open>The remote learns nothing of the clipboard: what it is answered is the same whatever the clipboard held.\<close>

lemma clipboard_write_only: "fst (clipboard_run es clip) = fst (clipboard_run es clip')"
proof (induction es arbitrary: clip clip')
  case (Cons x es)
  obtain b e where x: "x = (b, e)" by (cases x)
  from Cons.IH show ?case by (cases e) (simp_all add: x split: prod.split, (metis fst_conv)+)
qed simp

subsection \<open>Sleeping until a keystroke\<close>

text \<open>A sleep is numbered in the order the sleeps begin. \<open>wake\<close> is the page's one variable: whose function it holds.\<close>

record sleeping =
  slept :: nat
  running :: "nat list"
  resolved :: "nat list"
  wake :: "nat option"

datatype sleep_event = Sleep | TimerFires nat | WakeNow

fun sleep_step :: "sleeping \<Rightarrow> sleep_event \<Rightarrow> sleeping" where
  "sleep_step s Sleep = s\<lparr>slept := Suc (slept s), running := running s @ [slept s], wake := Some (slept s)\<rparr>"
| "sleep_step s (TimerFires i) =
     (if i \<in> set (running s)
      then s\<lparr>running := removeAll i (running s), wake := None, resolved := resolved s @ [i]\<rparr> else s)"
| "sleep_step s WakeNow =
     (case wake s of
        None \<Rightarrow> s
      | Some i \<Rightarrow> s\<lparr>running := removeAll i (running s), wake := None, resolved := resolved s @ [i]\<rparr>)"

definition awake :: sleeping where
  "awake = \<lparr>slept = 0, running = [], resolved = [], wake = None\<rparr>"

definition sleep_inv :: "sleeping \<Rightarrow> bool" where
  "sleep_inv s \<longleftrightarrow>
     distinct (running s @ resolved s) \<and> set (running s) \<union> set (resolved s) = {0..<slept s} \<and>
     (\<forall>i. wake s = Some i \<longrightarrow> i \<in> set (running s) \<and> Suc i = slept s)"

lemma sleep_inv_step [page_inv]: "sleep_inv s \<Longrightarrow> sleep_inv (sleep_step s e)"
  by (cases e) (auto simp: sleep_inv_def atLeast0_lessThan_Suc distinct_removeAll split: option.splits)

interpretation sleeps: started_machine sleep_step sleep_inv awake
  by unfold_locales (simp_all add: sleep_inv_step, simp add: sleep_inv_def awake_def)

text \<open>A sleep ends once, by its timer at the latest; a keystroke ends the last one begun when no timer has fired
  since.\<close>

lemma sleep_ends:
  assumes "s = foldl sleep_step awake es" and "i \<in> set (running s)"
  shows "i \<notin> set (resolved s)" and "i \<in> set (resolved (sleep_step s (TimerFires i)))"
    and "slept (foldl sleep_step awake (es @ [Sleep, WakeNow])) = Suc (slept s) \<and>
      slept s \<in> set (resolved (foldl sleep_step awake (es @ [Sleep, WakeNow])))"
proof -
  have "sleep_inv s" unfolding assms(1) by (rule sleeps.ok_reached)
  then show "i \<notin> set (resolved s)" using assms(2) by (auto simp: sleep_inv_def)
  show "i \<in> set (resolved (sleep_step s (TimerFires i)))" using assms(2) by simp
  show "slept (foldl sleep_step awake (es @ [Sleep, WakeNow])) = Suc (slept s) \<and>
      slept s \<in> set (resolved (foldl sleep_step awake (es @ [Sleep, WakeNow])))"
    by (simp flip: assms(1))
qed

text \<open>The variable is shared: a sleep of the pump before (its session superseded meanwhile) that runs out takes the
  keystroke from the sleep of the new pump, which then waits for its own timer.\<close>

lemma older_sleep_takes_wake:
  "resolved (foldl sleep_step awake [Sleep, Sleep, TimerFires 0, WakeNow]) = [0] \<and>
   running (foldl sleep_step awake [Sleep, Sleep, TimerFires 0, WakeNow]) = [1]"
  by (simp add: awake_def)

end
