(* ===== verification/TransferView.thy ===== *)
theory TransferView
  imports TransferRuns
begin

text \<open>
  \<^verbatim>\<open>site/transfer-ui.mjs\<close>, what the files panel shows (\<open>render\<close>, \<open>renderEntryRow\<close>, \<open>renderTransferRow\<close>,
  \<open>renderResumableRow\<close>): the crumbs, the listing with its \<open>..\<close>, and the rows of the transfers with their bars.
  The state and what the buttons do are TransferUi's. What is on screen is the drawing that \<open>render\<close> last made: it
  runs when a directory is listed, and not when the panel is taken to another one. Numbers of bytes are exact
  (below \<open>2 ^ 53\<close>), a percentage is rounded from the exact quotient.
\<close>

subsection \<open>The rows of the transfers\<close>

text \<open>\<open>pct\<close>: \<open>Math.round\<close> rounds a half up; a total of zero is falsy, as none is.\<close>

definition bar_pct :: "nat \<Rightarrow> nat option \<Rightarrow> bool \<Rightarrow> nat" where
  "bar_pct n tot seen =
     (case tot of
        Some (Suc m) \<Rightarrow> min 100 (nat \<lfloor>of_nat n / of_nat (Suc m) * (100 :: rat) + 1 / 2\<rfloor>)
      | _ \<Rightarrow> if seen then 50 else 0)"

record transfer_row =
  name_text :: jstr
  bytes_text :: jstr
  fill_pct :: "nat option"
  err_text :: "jstr option"
  row_buttons :: "row_action list"

definition last_progress :: "entry \<Rightarrow> progress" where
  "last_progress t =
     (case e_progress t of None \<Rightarrow> \<lparr>p_done = 0, p_total = None, p_outcome = None\<rparr> | Some p \<Rightarrow> p)"

definition renderTransferRow :: "bool \<Rightarrow> entry \<Rightarrow> transfer_row" where
  "renderTransferRow has_session t =
     (let p = last_progress t; r = e_record t;
          err = (case outcomeErrText (p_outcome p) of Some (c # cs) \<Rightarrow> Some (c # cs) | _ \<Rightarrow> None)
      in \<lparr>name_text = (if r_direction r = Upload then 0x2191 else 0x2193) # 32 # r_label r,
          bytes_text = fmtBytes (Some (p_done p)) @
            (case p_total p of Some (Suc m) \<Rightarrow> js '' / '' @ fmtBytes (Some (Suc m)) | _ \<Rightarrow> []),
          fill_pct = Some (bar_pct (p_done p) (p_total p) (e_seen t)), err_text = err,
          row_buttons = row_actions has_session t\<rparr>)"

definition renderResumableRow :: "bool \<Rightarrow> entry \<Rightarrow> transfer_row" where
  "renderResumableRow has_session t =
     \<lparr>name_text = 0x2193 # 32 # r_label (e_record t),
      bytes_text = fmtBytes (Some (case r_bytes (e_record t) of None \<Rightarrow> 0 | Some n \<Rightarrow> n)), fill_pct = None, err_text = None,
      row_buttons = row_actions has_session t\<rparr>"

text \<open>The bar never runs over, starts at nothing, ends full, and does not go back while the total stays.\<close>

lemma bar_pct_bound: "bar_pct n tot seen \<le> 100"
  by (simp add: bar_pct_def split: option.split nat.split)

lemma bar_pct_mono: "n \<le> n' \<Longrightarrow> bar_pct n tot seen \<le> bar_pct n' tot seen"
proof -
  assume "n \<le> n'"
  then have "nat \<lfloor>of_nat n / of_nat (Suc m) * (100 :: rat) + 1 / 2\<rfloor> \<le> nat \<lfloor>of_nat n' / of_nat (Suc m) * (100 :: rat) + 1 / 2\<rfloor>" for m
    by (intro nat_mono floor_mono add_right_mono mult_right_mono divide_right_mono) simp_all
  then show ?thesis by (auto simp: bar_pct_def simp del: of_nat_Suc intro: min.coboundedI2 split: option.split nat.split)
qed

lemma bar_pct_ends: "0 < m \<Longrightarrow> bar_pct 0 (Some m) seen = 0" "0 < m \<Longrightarrow> m \<le> n \<Longrightarrow> bar_pct n (Some m) seen = 100"
proof -
  show "0 < m \<Longrightarrow> bar_pct 0 (Some m) seen = 0" by (cases m) (simp_all add: bar_pct_def)
  have "\<lfloor>201 / 2 :: rat\<rfloor> = 100" by (rule floor_unique) simp_all
  then have "bar_pct m (Some m) seen = 100" if "0 < m" using that by (cases m) (simp_all add: bar_pct_def)
  then show "0 < m \<Longrightarrow> m \<le> n \<Longrightarrow> bar_pct n (Some m) seen = 100"
    using bar_pct_mono[of m n "Some m" seen] bar_pct_bound[of n "Some m" seen] by simp
qed

subsection \<open>The panel\<close>

text \<open>A crumb is the current directory, or a button with the depth it goes back to.\<close>

datatype crumb = Here jstr | Back jstr nat


definition home_crumb :: jstr where "home_crumb = js ''~''"

definition crumbs :: "tpage \<Rightarrow> crumb list" where
  "crumbs s =
     (if segments s = [] then Here home_crumb else Back home_crumb 0) #
     map (\<lambda>(i, l). if Suc i = length (labels s) then Here l else Back l (Suc i)) (enumerate 0 (labels s))"

datatype pane = NoSession | EmptyDirectory | Entries "dir_entry list"

record panel_view =
  crumb_list :: "crumb list"
  toggle_disabled :: bool
  dropdown_shown :: bool
  interrupted :: "transfer_row list"
  under_way :: "transfer_row list"
  no_transfers_yet :: bool
  up_row :: bool
  pane :: pane

definition rows_of :: "row_kind \<Rightarrow> tpage \<Rightarrow> entry list" where
  "rows_of k s = filter (\<lambda>t. e_kind t = k) (map (\<lambda>x. objs s ! snd x) (List.map_filter id (transfers s)))"

definition render :: "tpage \<Rightarrow> panel_view" where
  "render s =
     \<lparr>crumb_list = crumbs s, toggle_disabled = (\<not> everHadTransfer s), dropdown_shown = dropdownOpen s,
      interrupted = map (renderResumableRow (session s)) (rows_of Resumable s),
      under_way = map (renderTransferRow (session s)) (rows_of Active s),
      no_transfers_yet = (rows_of Resumable s = [] \<and> rows_of Active s = []),
      up_row = (session s \<and> segments s \<noteq> []),
      pane = (if \<not> session s then NoSession else if listing s = [] then EmptyDirectory else Entries (listing s))\<rparr>"

text \<open>Pressing a crumb.\<close>

fun press_crumb :: "crumb \<Rightarrow> tpage \<Rightarrow> tpage" where
  "press_crumb (Here _) s = s"
| "press_crumb (Back _ depth) s = navigateTo depth s"

text \<open>Every listed transfer has one row.\<close>

lemma one_row_per_transfer:
  "length (interrupted (render s)) + length (under_way (render s)) = length (List.map_filter id (transfers s))"
proof -
  have "length (filter (\<lambda>t. e_kind t = Resumable) ts) + length (filter (\<lambda>t. e_kind t = Active) ts) = length ts" for ts
  proof (induction ts)
    case (Cons t ts)
    then show ?case by (cases "e_kind t") auto
  qed simp
  from this[of "map (\<lambda>x. objs s ! snd x) (List.map_filter id (transfers s))"] show ?thesis
    by (simp only: render_def rows_of_def panel_view.simps length_map)
qed

subsection \<open>The crumbs say where the panel is\<close>

text \<open>The names shown and the path sent are taken down in parallel.\<close>

definition in_step :: "tpage \<Rightarrow> bool" where
  "in_step s \<longleftrightarrow> length (labels s) = length (segments s)"




lemma refresh_place [simp]: "segments (refreshListing b s) = segments s" "labels (refreshListing b s) = labels s"
  by (auto simp: refreshListing_def await_def call_def split: option.split)

lemma navigate_place: "segments (navigateTo d s) = take d (segments s)" "labels (navigateTo d s) = take d (labels s)"
  by (simp_all add: navigateTo_def)

lemma place_quiet [simp]:
  "segments (await t s) = segments s" "labels (await t s) = labels s"
  "segments (call c s) = segments s" "labels (call c s) = labels s"
  "segments (obj_upd n f s) = segments s" "labels (obj_upd n f s) = labels s"
  "segments (add_entry e s) = segments s" "labels (add_entry e s) = labels s"
  "segments (drop_row r s) = segments s" "labels (drop_row r s) = labels s"
  "segments (unstage sid s) = segments s" "labels (unstage sid s) = labels s"
  "segments (idbDelete i s) = segments s" "labels (idbDelete i s) = labels s"
  "segments (begin_put a i sid s) = segments s" "labels (begin_put a i sid s) = labels s"
  "segments (tick_on k any s) = segments s" "labels (tick_on k any s) = labels s"
  by (simp_all add: await_def call_def obj_upd_def add_entry_def drop_row_def unstage_def idbDelete_def begin_put_def
      tick_on_def split: option.split)

lemma place_ops [simp]:
  "segments (startPolling s) = segments s" "labels (startPolling s) = labels s"
  "segments (startUpload f ov m ok s) = segments s" "labels (startUpload f ov m ok s) = labels s"
  "segments (startUpload_rest f ov i s) = segments s" "labels (startUpload_rest f ov i s) = labels s"
  "segments (beginDownload a s) = segments s" "labels (beginDownload a s) = labels s"
  "segments (beginDownload_ids a i j s) = segments s" "labels (beginDownload_ids a i j s) = labels s"
  "segments (beginDownload_stored r path s) = segments s" "labels (beginDownload_stored r path s) = labels s"
  "segments (confirmDownload e ok s) = segments s" "labels (confirmDownload e ok s) = labels s"
  "segments (begin_again r ov s) = segments s" "labels (begin_again r ov s) = labels s"
  "segments (hand_over n s) = segments s" "labels (hand_over n s) = labels s"
  "segments (finishTransfer n s) = segments s" "labels (finishTransfer n s) = labels s"
  by (simp_all add: startPolling_def startUpload_def startUpload_rest_def beginDownload_def beginDownload_ids_def
      beginDownload_stored_def confirmDownload_def begin_again_def hand_over_def finishTransfer_def Let_def split: option.split)

lemma place_load [simp]: "segments (load_next rs s) = segments s" "labels (load_next rs s) = labels s"
  by (induction rs) (simp_all add: load_end_def)

lemma place_rows [simp]:
  "segments (tap_row n a s) = segments s" "labels (tap_row n a s) = labels s"
  "segments (on_progress j n any p s) = segments s" "labels (on_progress j n any p s) = labels s"
  "segments (load_offer r len rs s) = segments s" "labels (load_offer r len rs s) = labels s"
  "segments (toggleDropdown s) = segments s" "labels (toggleDropdown s) = labels s"
  by (simp_all add: tap_row_def retryTransfer_def cancelTransfer_def resumeDownload_def discardResumable_def on_progress_def
      load_offer_def toggleDropdown_def Let_def split: option.split row_action.split)

lemma place_task [simp]: "segments (task_step t b s) = segments s \<and> labels (task_step t b s) = labels s"
proof (cases t)
  case (UploadPoly f ov)
  show ?thesis unfolding UploadPoly task_step.simps by (simp split: answer.split option.split)
next
  case (BeginPoly a)
  show ?thesis unfolding BeginPoly task_step.simps by (simp split: answer.split option.split)
next
  case (BeginRemoved a i sid)
  show ?thesis unfolding BeginRemoved task_step.simps by (simp split: answer.split option.split)
next
  case (BeginPut r path)
  show ?thesis unfolding BeginPut task_step.simps by (simp split: answer.split option.split)
next
  case (Calling n)
  show ?thesis unfolding Calling task_step.simps by (simp split: answer.split option.split)
next
  case (Listed fl)
  show ?thesis unfolding Listed task_step.simps by (simp split: answer.split option.split)
next
  case LoadAll
  show ?thesis unfolding LoadAll task_step.simps by (simp add: load_end_def split: answer.split option.split)
next
  case (LoadBlob r rest)
  show ?thesis unfolding LoadBlob task_step.simps by (simp split: answer.split option.split)
next
  case (LoadHeal r rest)
  show ?thesis unfolding LoadHeal task_step.simps by (simp split: answer.split option.split)
next
  case (LoadDrop r rest)
  show ?thesis unfolding LoadDrop task_step.simps by (simp split: answer.split option.split)
next
  case (DiscardDelete r)
  show ?thesis unfolding DiscardDelete task_step.simps by (simp split: answer.split option.split)
next
  case (DiscardPoly r)
  show ?thesis unfolding DiscardPoly task_step.simps by (simp split: answer.split option.split)
next
  case (DiscardRemove r)
  show ?thesis unfolding DiscardRemove task_step.simps by (simp split: answer.split option.split)
next
  case (CleanRemove n)
  show ?thesis unfolding CleanRemove task_step.simps by (simp split: answer.split option.split)
next
  case (CleanDelete n)
  show ?thesis unfolding CleanDelete task_step.simps by (simp split: answer.split option.split)
qed

lemma place_tick [simp]: "segments (tick_step k b s) = segments s" "labels (tick_step k b s) = labels s"
  by (simp_all add: tick_step_def split: wait.split answer.split)

lemma in_step_step: "in_step s \<Longrightarrow> in_step (ui_step e s)"
proof (cases e)
  case (Settles k b)
  assume "in_step s"
  then show ?thesis unfolding Settles ui_step.simps by (simp add: in_step_def)
next
  case (TickSettles k b)
  assume "in_step s"
  then show ?thesis unfolding TickSettles ui_step.simps by (simp add: in_step_def)
next
  case (Tap n a)
  assume "in_step s"
  then show ?thesis unfolding Tap ui_step.simps by (simp add: in_step_def)
next
  case (OpenPanel ready)
  then show ?thesis by (simp add: in_step_def open_panel_def)
next
  case (TapDir x)
  assume "in_step s"
  then show ?thesis unfolding TapDir ui_step.simps by (simp add: in_step_def descend_def)
next
  case (TapCrumb d)
  assume "in_step s"
  then show ?thesis unfolding TapCrumb ui_step.simps by (simp add: in_step_def navigate_place)
next
  case TapUp
  assume "in_step s"
  then show ?thesis unfolding TapUp ui_step.simps goUp_def by (simp add: in_step_def navigate_place)
next
  case (TapFile x ok)
  assume "in_step s"
  then show ?thesis unfolding TapFile ui_step.simps by (simp add: in_step_def)
next
  case (Picked k f ok)
  assume "in_step s"
  then show ?thesis unfolding Picked ui_step.simps by (simp add: in_step_def)
qed (simp_all add: in_step_def)

interpretation walking: started_machine "\<lambda>s e. ui_step e s" in_step "fresh_page db files ids"
  by unfold_locales (simp_all add: in_step_step, simp add: in_step_def fresh_page_def)

text \<open>What is on screen. Every step of the panel may or may not come with a \<open>render\<close>, and the answer of a listing
  does. The drawing keeps the page it was made of, none before the first.\<close>

type_synonym drawn_panel = "tpage \<times> tpage option"

definition answers_listing :: "ui_event \<Rightarrow> tpage \<Rightarrow> bool" where
  "answers_listing e s =
     (case e of
        Settles k b \<Rightarrow> k < length (tasks s) \<and> possible (tasks s ! k) b s \<and>
          (case tasks s ! k of Listed _ \<Rightarrow> True | _ \<Rightarrow> False)
      | _ \<Rightarrow> False)"

fun panel_step :: "drawn_panel \<Rightarrow> ui_event \<times> bool \<Rightarrow> drawn_panel" where
  "panel_step (s, v) (e, renders) =
     (let s' = ui_step e s in (s', if renders \<or> answers_listing e s then Some s' else v))"

definition panel_run :: "(ui_event \<times> bool) list \<Rightarrow> tpage \<Rightarrow> drawn_panel" where
  "panel_run es s = foldl panel_step (s, None) es"







text \<open>A directory \<^verbatim>\<open>a\<close> with a directory \<^verbatim>\<open>b\<close> in it, gone into, with each listing answered; then home, whose listing
  is still to come.\<close>

definition folder :: "nat \<Rightarrow> dir_entry" where
  "folder c = \<lparr>de_name = [of_nat c], de_display = [c], de_dir = True, de_size = None\<rparr>"

definition gone_home :: "(ui_event \<times> bool) list" where
  "gone_home = [(OpenPanel True, False), (Settles 0 Unread, False), (Settles 0 (Rows [folder 97]), True),
     (TapDir (folder 97), False), (Settles 0 (Rows [folder 98]), True), (TapDir (folder 98), False),
     (Settles 0 (Rows [folder 99]), True), (TapCrumb 0, False)]"

lemma joins: "joinSegments [] \<noteq> None" "joinSegments [x] \<noteq> None" "joinSegments [x, y] \<noteq> None"
  by (simp_all add: joinSegments_def join_loop.simps typed_set_def)

lemma refresh_tasks:
  "session s \<Longrightarrow> joinSegments (segments s) = Some path \<Longrightarrow>
     refreshListing b s = await (Listed b) (call (ListDir path) s)"
  by (simp add: refreshListing_def)

lemma gone_home_state:
  "\<exists>s p. panel_run gone_home (fresh_page [] (\<lambda>_. None) []) = (s, Some p) \<and> segments s = [] \<and> labels s = [] \<and>
     session s \<and> listing s = [folder 99] \<and> segments p = [[97], [98]] \<and> labels p = [[97], [98]]"
  by (simp add: panel_run_def gone_home_def fresh_page_def open_panel_def startPolling_def tick_on_def next_handle_def
      await_def call_def refreshListing_def joinSegments_def join_loop.simps typed_set_def load_end_def navigateTo_def
      descend_def answers_listing_def without_def folder_def Let_def List.map_filter_def)


text \<open>The crumbs and the rows on screen are the old ones until the listing comes: a folder tapped then, of the
  directory that was left, is looked for in the new one, and the crumb that says \<^verbatim>\<open>a\<close> leads to whatever is
  one level below home by then.\<close>

lemma stale_crumb_elsewhere:
  "let (s, v) = panel_run (gone_home @ [(TapDir (folder 99), False)]) (fresh_page [] (\<lambda>_. None) []) in
     segments s = [[99]] \<and> (\<exists>p. v = Some p \<and> crumb_list (render p) ! 1 = Back [97] 1) \<and>
     segments (press_crumb (Back [97] 1) s) = [[99]]"
proof -
  obtain s p where g: "panel_run gone_home (fresh_page [] (\<lambda>_. None) []) = (s, Some p)" "segments s = []" "labels s = []"
    "listing s = [folder 99]" "segments p = [[97], [98]]" "labels p = [[97], [98]]" using gone_home_state by blast
  have "panel_run (gone_home @ [(TapDir (folder 99), False)]) (fresh_page [] (\<lambda>_. None) []) =
      (descend (folder 99) s, Some p)"
    using g(1,4) by (simp add: panel_run_def answers_listing_def folder_def Let_def)
  moreover have "segments (descend (folder 99) s) = [[99]]" by (simp add: descend_def g(2) folder_def)
  moreover have "crumb_list (render p) ! 1 = Back [97] 1" by (simp add: render_def crumbs_def g(5,6))
  ultimately show ?thesis by (simp add: navigate_place)
qed

subsection \<open>The listing's rows\<close>

text \<open>\<open>fmtMtime\<close>. How the locale writes a day is a parameter; an instant no \<open>Date\<close> can hold is written as such,
  and does not throw.\<close>

definition fmtMtime :: "(int \<Rightarrow> jstr) \<Rightarrow> int option \<Rightarrow> jstr" where
  "fmtMtime day secs =
     (case secs of
        None \<Rightarrow> []
      | Some t \<Rightarrow> if \<bar>t * 1000\<bar> > 8640000000000000 then js ''Invalid Date'' else day (t * 1000))"

record entry_row =
  er_folder :: bool
  er_name :: jstr
  er_meta :: jstr

definition renderEntryRow :: "(int \<Rightarrow> jstr) \<Rightarrow> int option \<Rightarrow> dir_entry \<Rightarrow> entry_row" where
  "renderEntryRow day mtime e =
     \<lparr>er_folder = de_dir e, er_name = de_display e,
      er_meta = (if de_dir e then [] else trim (fmtBytes (de_size e) @ 32 # fmtMtime day mtime))\<rparr>"

text \<open>The press of a row's name.\<close>

definition press_entry :: "dir_entry \<Rightarrow> bool \<Rightarrow> ui_event" where
  "press_entry e ok = (if de_dir e then TapDir e else TapFile e ok)"

text \<open>The row of a listed entry does what its icon says: a folder is entered, a file is asked about.\<close>

lemma entry_row_acts:
  "e \<in> set (listing s) \<Longrightarrow>
     ui_step (press_entry e ok) s = (if er_folder (renderEntryRow day m e) then descend e s else confirmDownload e ok s)"
  by (simp add: press_entry_def renderEntryRow_def)

subsection \<open>The button in the bar\<close>

text \<open>Once a second the page asks the session it has for its status; a refusal hides the button.\<close>

definition button_hidden :: "bool \<Rightarrow> jstr + jstr option \<Rightarrow> bool" where
  "button_hidden has_session status \<longleftrightarrow>
     \<not> has_session \<or> (case status of Inl e \<Rightarrow> True | Inr kind \<Rightarrow> kind \<noteq> Some (js ''ready''))"

end
