(* ===== verification/InstallScript.thy ===== *)
theory InstallScript
  imports AuthorizedKeys
begin

unbundle bit_operations_syntax

text \<open>
  What the script that \<^verbatim>\<open>site/authorized-keys.mjs\<close> sends does on the machine. The script is shell code,
  so it is a syntax tree here: \<open>install_script\<close> has the same eight commands as \<open>installCommand\<close>, and its
  text is proved to be that string. Its meaning is that of the POSIX shell and of the tools it runs,
  on the two things it can touch: \<^verbatim>\<open>~/.ssh\<close> and \<^verbatim>\<open>~/.ssh/authorized_keys\<close>.
\<close>

subsection \<open>The script as a syntax tree\<close>

text \<open>\<open>LastByteMissing f\<close> is the test that the command substitution \<open>$(tail -1c f)\<close> is empty.\<close>

datatype cmd =
    Cd | Umask | MkdirP | GrepKey jstr | LastByteMissing | AppendNewline | AppendLine jstr
  | Restorecon | Echo jstr | ExitWith nat
  | OrElse cmd cmd | Grouped cmd | Cond cmd "cmd list"

definition script_line :: "jstr list \<Rightarrow> jstr" where
  "script_line = join (js ''; '')"

primrec sh_text :: "cmd \<Rightarrow> jstr" where
  "sh_text Cd = js ''cd''"
| "sh_text Umask = js ''umask 077''"
| "sh_text MkdirP = js ''mkdir -p .ssh''"
| "sh_text (GrepKey w) = js ''grep -qsF '' @ [39] @ w @ [39] @ js '' .ssh/authorized_keys''"
| "sh_text LastByteMissing = js ''[ -z \"$(tail -1c .ssh/authorized_keys 2>/dev/null)\" ]''"
| "sh_text AppendNewline = js ''echo >> .ssh/authorized_keys''"
| "sh_text (AppendLine l) =
     js ''printf '' @ [39] @ js ''%s'' @ [92, 110] @ [39] @ js '' '' @ [39] @ l @ [39] @
     js '' >> .ssh/authorized_keys''"
| "sh_text Restorecon =
     js ''if command -v restorecon >/dev/null 2>&1; then restorecon -F .ssh .ssh/authorized_keys 2>/dev/null; fi''"
| "sh_text (Echo w) = js ''echo '' @ w"
| "sh_text (ExitWith n) = js ''exit '' @ [48 + n]"
| "sh_text (OrElse a b) = sh_text a @ js '' || '' @ sh_text b"
| "sh_text (Grouped a) = js ''{ '' @ sh_text a @ js ''; }''"
| "sh_text (Cond a bs) = js ''if '' @ sh_text a @ js ''; then '' @ script_line (map sh_text bs) @ js ''; fi''"

definition install_script :: "jstr \<Rightarrow> cmd list" where
  "install_script line =
     [OrElse Cd (ExitWith 1),
      Umask,
      OrElse MkdirP (ExitWith 1),
      Cond (GrepKey (nth_or_empty (split_ws line) 1)) [Echo (js ''WOSH_ALREADY''), ExitWith 0],
      OrElse (Grouped (OrElse LastByteMissing AppendNewline)) (ExitWith 1),
      OrElse (AppendLine line) (ExitWith 1),
      Restorecon,
      Echo (js ''WOSH_ADDED'')]"

subsection \<open>What it does\<close>

text \<open>The account: the mode of \<^verbatim>\<open>~/.ssh\<close> and the bytes and mode of the file, where they exist.\<close>

record account =
  ssh_dir :: "9 word option"
  keys_file :: "(jstr \<times> 9 word) option"

record shell =
  account_of :: account
  mask :: "9 word"
  said :: jstr

datatype status = Success | Failure | Exited nat

definition keys_text :: "account \<Rightarrow> jstr" where
  "keys_text a = (case keys_file a of None \<Rightarrow> [] | Some (t, _) \<Rightarrow> t)"

text \<open>The lines of a text file: a last line needs no newline to count.\<close>

definition file_lines :: "jstr \<Rightarrow> jstr list" where
  "file_lines t = (let ls = split_on 10 t in if last ls = [] then butlast ls else ls)"

text \<open>\<open>>>\<close> creates the file under the mask. \<open>room\<close> is what the system lets through: everything, nothing at
  all (the file does not open), or \<open>n\<close> bytes before the write fails, as \<open>Some (Suc n)\<close>.\<close>

definition landed :: "nat option \<Rightarrow> jstr \<Rightarrow> jstr" where
  "landed room t = (case room of None \<Rightarrow> t | Some n \<Rightarrow> take (n - 1) t)"

definition append_to_keys :: "nat option \<Rightarrow> jstr \<Rightarrow> shell \<Rightarrow> shell \<times> status" where
  "append_to_keys room t s =
     (let a = account_of s;
          w = landed room t;
          m = (case keys_file a of None \<Rightarrow> 0x1B6 AND NOT (mask s) | Some (_, m) \<Rightarrow> m)
      in if ssh_dir a = None \<or> room = Some 0 then (s, Failure)
         else (s\<lparr>account_of := a\<lparr>keys_file := Some (keys_text a @ w, m)\<rparr>\<rparr>,
               if room = None then Success else Failure))"

text \<open>One simple command. \<open>io c\<close> says how far the system lets \<open>c\<close> go: \<open>None\<close> is all the way, anything else a
  failure, of a write as above, and what the command prints about it on its standard error, which the probe
  brings back among the output. A search that cannot read its file finds nothing, a \<open>tail\<close> that cannot prints
  nothing, and the script silences what these two would say.\<close>

type_synonym refusals = "cmd \<Rightarrow> (nat \<times> jstr) option"

definition complain :: "refusals \<Rightarrow> cmd \<Rightarrow> shell \<times> status \<Rightarrow> shell \<times> status" where
  "complain io c = (\<lambda>(s, st).
     (if st = Failure then s\<lparr>said := said s @ (case io c of None \<Rightarrow> [] | Some (_, msg) \<Rightarrow> msg)\<rparr> else s, st))"

fun run_simple :: "refusals \<Rightarrow> cmd \<Rightarrow> shell \<Rightarrow> shell \<times> status" where
  "run_simple io Cd s = complain io Cd (s, if io Cd = None then Success else Failure)"
| "run_simple io Umask s = (s\<lparr>mask := 0x3F\<rparr>, Success)"
| "run_simple io MkdirP s =
     (if ssh_dir (account_of s) \<noteq> None then (s, Success)
      else if io MkdirP \<noteq> None then complain io MkdirP (s, Failure)
      else (s\<lparr>account_of := (account_of s)\<lparr>ssh_dir := Some (0x1FF AND NOT (mask s))\<rparr>\<rparr>, Success))"
| "run_simple io (GrepKey w) s =
     (s, if io (GrepKey w) = None \<and> list_ex (str_includes w) (file_lines (keys_text (account_of s)))
         then Success else Failure)"
| "run_simple io LastByteMissing s =
     (let t = keys_text (account_of s)
      in (s, if t = [] \<or> last t = 10 \<or> io LastByteMissing \<noteq> None then Success else Failure))"
| "run_simple io AppendNewline s = complain io AppendNewline (append_to_keys (map_option fst (io AppendNewline)) [10] s)"
| "run_simple io (AppendLine l) s =
     complain io (AppendLine l) (append_to_keys (map_option fst (io (AppendLine l))) (l @ [10]) s)"
| "run_simple io (Echo w) s = (s\<lparr>said := said s @ w @ [10]\<rparr>, Success)"
| "run_simple io (ExitWith n) s = (s, Exited n)"
| "run_simple io _ s = (s, Success)"

text \<open>A list runs on past failures and stops at an \<open>exit\<close>.\<close>

fun run_cmd :: "refusals \<Rightarrow> cmd \<Rightarrow> shell \<Rightarrow> shell \<times> status"
and run_list :: "refusals \<Rightarrow> cmd list \<Rightarrow> shell \<Rightarrow> shell \<times> status" where
  "run_cmd io (OrElse a b) s =
     (case run_cmd io a s of (t, Failure) \<Rightarrow> run_cmd io b t | r \<Rightarrow> r)"
| "run_cmd io (Grouped a) s = run_cmd io a s"
| "run_cmd io (Cond a bs) s =
     (case run_cmd io a s of
        (t, Success) \<Rightarrow> run_list io bs t
      | (t, Failure) \<Rightarrow> (t, Success)
      | r \<Rightarrow> r)"
| "run_cmd io c s = run_simple io c s"
| "run_list io [] s = (s, Success)"
| "run_list io (c # cs) s =
     (case run_cmd io c s of
        (t, Exited n) \<Rightarrow> (t, Exited n)
      | (t, st) \<Rightarrow> if cs = [] then (t, st) else run_list io cs t)"

definition exit_code :: "status \<Rightarrow> int" where
  "exit_code st = (case st of Success \<Rightarrow> 0 | Failure \<Rightarrow> 1 | Exited n \<Rightarrow> int n)"

text \<open>A run of the script over an account, in a shell that starts with the mask \<open>m\<close>: the account after it, and what the probe brings back.\<close>

definition run_install ::
  "refusals \<Rightarrow> 9 word \<Rightarrow> jstr \<Rightarrow> account \<Rightarrow> account \<times> (jstr \<times> int option)" where
  "run_install io m line a =
     (let (s, st) = run_list io (install_script line) \<lparr>account_of = a, mask = m, said = []\<rparr>
      in (account_of s, (said s, Some (exit_code st))))"

text \<open>The line the install button sends, and what its press does to the account and the status line.\<close>

definition install_line :: "jstr \<Rightarrow> jstr \<Rightarrow> jstr" where
  "install_line line field =
     (let w = split_ws line
      in nth_printed w 0 @ js '' '' @ nth_printed w 1 @ js '' '' @ chosen_comment line field)"

definition press_install ::
  "refusals \<Rightarrow> 9 word \<Rightarrow> jstr \<Rightarrow> jstr \<Rightarrow> account \<Rightarrow> account \<times> install_outcome" where
  "press_install io m line field a =
     (let (b, r) = run_install io m (install_line line field) a in (b, install_outcome_of (Some r)))"

subsection \<open>The tree is the string\<close>

lemma install_script_text: "script_line (map sh_text (install_script line)) = installCommand line"
  by (simp add: install_script_def script_line_def installCommand_def install_parts_def Let_def)

lemma install_request_text:
  "script_line (map sh_text (install_script (install_line line field))) = install_request line field"
  by (simp add: install_script_text install_request_def install_line_def Let_def)

subsection \<open>Lines of a file\<close>

lemma split_on_sep: "split_on c (a @ c # s) = split_on c a @ split_on c s"
  by (induction a) (auto split: list.splits)

lemma split_on_single: "split_on c s = [y] \<Longrightarrow> c \<notin> set s"
  by (induction s arbitrary: y) (auto split: list.splits if_splits)

lemma last_split_on: "last (split_on c s) = [] \<longleftrightarrow> s = [] \<or> last s = c"
proof (induction s)
  case (Cons a s)
  then show ?case
    using split_on_single[of c s] last_in_set[of s] by (auto split: list.splits)
qed simp

lemma file_lines_Nil [simp]: "file_lines [] = []"
  by (simp add: file_lines_def)

lemma file_lines_open: "t \<noteq> [] \<Longrightarrow> last t \<noteq> 10 \<Longrightarrow> file_lines t = split_on 10 t"
  by (simp add: file_lines_def last_split_on Let_def)

lemma file_lines_closed: "file_lines (t @ [10]) = split_on 10 t"
  using split_on_sep[of 10 t "[]"] by (simp add: file_lines_def)

text \<open>What is written after a closed line is a line of its own.\<close>

lemma file_lines_append:
  assumes "t = [] \<or> last t = 10" and "10 \<notin> set u"
  shows "file_lines (t @ u) = file_lines t @ (if u = [] then [] else [u])"
    and "file_lines (t @ u @ [10]) = file_lines t @ [u]"
proof -
  have u: "split_on 10 u = [u]" using assms(2) by (rule split_on_no_sep)
  show "file_lines (t @ u) = file_lines t @ (if u = [] then [] else [u])"
  proof (cases "t = []")
    case True
    then show ?thesis using u by (simp add: file_lines_def)
  next
    case False
    then obtain v where v: "t = v @ [10]" using assms(1) by (cases t rule: rev_cases) auto
    then show ?thesis using split_on_sep[of 10 v u] u by (simp add: file_lines_closed file_lines_def[of "v @ 10 # u"])
  qed
  show "file_lines (t @ u @ [10]) = file_lines t @ [u]"
  proof (cases "t = []")
    case True
    then show ?thesis using file_lines_closed[of u] u by simp
  next
    case False
    then obtain v where v: "t = v @ [10]" using assms(1) by (cases t rule: rev_cases) auto
    then show ?thesis using file_lines_closed[of "v @ 10 # u"] split_on_sep[of 10 v u] u
      by (simp add: file_lines_closed)
  qed
qed


subsection \<open>What a run leaves behind\<close>

lemma said_outcome:
  "install_outcome_of (Some (js ''WOSH_ADDED'' @ [10], c)) = Installed"
  "install_outcome_of (Some (js ''WOSH_ALREADY'' @ [10], c)) = AlreadyThere"
  by (simp_all add: install_outcome_of_def starts_with_def)

definition unmarked :: "jstr \<Rightarrow> bool" where
  "unmarked msg \<longleftrightarrow> \<not> str_includes (js ''WOSH_ADDED'') msg \<and> \<not> str_includes (js ''WOSH_ALREADY'') msg"

lemma failed_outcome: "unmarked msg \<Longrightarrow> install_outcome_of (Some (msg, c)) = InstallFailed c (remote_words msg)"
  by (simp add: install_outcome_of_def unmarked_def)

text \<open>The words of the line that is sent.\<close>

lemma install_line_shape:
  assumes "key_line_ok kind blob rest"
  defines "line \<equiv> key_line kind blob rest"
  shows "install_line line field = kind @ 32 # blob @ 32 # chosen_comment line field"
    and "nth_or_empty (split_ws (install_line line field)) 1 = blob"
    and "10 \<notin> set (install_line line field)"
proof -
  obtain ws where sp: "split_ws line = kind # blob # ws"
    using split_key_line[OF assms(1)] unfolding line_def by blast
  show l: "install_line line field = kind @ 32 # blob @ 32 # chosen_comment line field"
    by (simp add: install_line_def sp nth_printed_def)
  from assms(1) have nw: "\<forall>c \<in> set kind. \<not> is_ws c" "\<forall>c \<in> set blob. \<not> is_ws c" "blob \<noteq> []"
    by (auto simp: key_line_ok_def list_all_iff)
  let ?c = "chosen_comment line field"
  have "dropWhile is_ws (blob @ 32 # ?c) = blob @ 32 # ?c" using nw by (cases blob) auto
  then show "nth_or_empty (split_ws (install_line line field)) 1 = blob"
    unfolding l using split_ws_Cons[OF nw(1), of 32 "blob @ 32 # ?c"] split_ws_Cons[OF nw(2), of 32 ?c]
    by (simp add: nth_or_empty_def)
  have "39 \<notin> set line" "10 \<notin> set line" "13 \<notin> set line"
    using assms(1) nw by (auto simp: line_def key_line_def key_line_ok_def is_ws_def)
  from chosen_comment_plain[OF this] show "10 \<notin> set (install_line line field)"
    unfolding l using nw by (auto simp: is_ws_def)
qed

text \<open>What a run may leave of a file whose text is \<open>t\<close>: the file itself, the file with its last line
  closed, or a piece of the new line after that.\<close>

definition closing :: "jstr \<Rightarrow> jstr" where
  "closing t = (if t = [] \<or> last t = 10 then t else t @ [10])"

lemma closing_closed: "closing t = [] \<or> last (closing t) = 10"
  by (simp add: closing_def)

lemma file_lines_closing [simp]: "file_lines (closing t) = file_lines t"
  by (simp add: closing_def file_lines_closed file_lines_open)

lemma prefix_closing: "prefix t (closing t)"
  by (simp add: closing_def)

lemma file_lines_piece:
  assumes "10 \<notin> set l"
  shows "file_lines (closing t @ take n (l @ [10])) = file_lines t @ (if n = 0 then [] else [take n l])"
proof (cases "n \<le> length l")
  case True
  have "10 \<notin> set (take n l)" using assms by (auto dest: in_set_takeD)
  moreover have "take n l = [] \<longleftrightarrow> n = 0 \<or> l = []" by auto
  ultimately show ?thesis using True file_lines_append(1)[OF closing_closed, of "take n l" t] by auto
next
  case False
  then show ?thesis using file_lines_append(2)[OF closing_closed assms, of t] by simp
qed

lemmas run_defs = run_install_def install_script_def append_to_keys_def Let_def keys_text_def
  exit_code_def closing_def complain_def

lemma landed_None [simp]: "landed None t = t"
  by (simp add: landed_def)

lemma landed_newline: "landed room [10] = [] \<or> landed room [10] = [10]"
  by (auto simp: landed_def take_Cons' split: option.split)

lemma landed_take: "\<exists>n. landed room t = take n t"
  by (cases room) (auto simp: landed_def intro: exI[of _ "length t"])

lemma append_text:
  assumes "append_to_keys room t s = (u, st)"
  shows "said u = said s" and "st = Success \<Longrightarrow> keys_text (account_of u) = keys_text (account_of s) @ t"
    and "st \<noteq> Success \<Longrightarrow> st = Failure \<and> (\<exists>n. keys_text (account_of u) = keys_text (account_of s) @ take n t)"
    and "st = Success \<longleftrightarrow> ssh_dir (account_of s) \<noteq> None \<and> room = None"
    and "ssh_dir (account_of u) = ssh_dir (account_of s)"
  using assms
  by (cases room; auto simp: append_to_keys_def landed_def Let_def keys_text_def split: if_splits option.splits
      intro: exI[of _ 0])+

lemma complain_simps [simp]:
  "snd (complain io c r) = snd r" "account_of (fst (complain io c r)) = account_of (fst r)"
  "mask (fst (complain io c r)) = mask (fst r)"
  by (simp_all add: complain_def split: prod.split)

lemma append_complains:
  assumes "complain io c (append_to_keys (map_option fst (io c)) t s) = (u, st)"
  shows "st = Success \<Longrightarrow> said u = said s \<and> keys_text (account_of u) = keys_text (account_of s) @ t"
    and "st \<noteq> Success \<Longrightarrow> st = Failure \<and> (\<exists>n. keys_text (account_of u) = keys_text (account_of s) @ take n t)"
    and "st \<noteq> Success \<Longrightarrow> ssh_dir (account_of s) \<noteq> None \<Longrightarrow> \<exists>n msg. io c = Some (n, msg) \<and> said u = said s @ msg"
    and "ssh_dir (account_of u) = ssh_dir (account_of s)"
proof -
  obtain v where v: "append_to_keys (map_option fst (io c)) t s = (v, st)" "account_of u = account_of v"
    "said u = (if st = Failure then said v @ (case io c of None \<Rightarrow> [] | Some (_, msg) \<Rightarrow> msg) else said v)"
    using assms by (cases "append_to_keys (map_option fst (io c)) t s") (auto simp: complain_def)
  note a = append_text[OF v(1)]
  show "st = Success \<Longrightarrow> said u = said s \<and> keys_text (account_of u) = keys_text (account_of s) @ t"
    using a(1,2) v by simp
  show f: "st \<noteq> Success \<Longrightarrow> st = Failure \<and> (\<exists>n. keys_text (account_of u) = keys_text (account_of s) @ take n t)"
    using a(3) v by simp
  show "st \<noteq> Success \<Longrightarrow> ssh_dir (account_of s) \<noteq> None \<Longrightarrow> \<exists>n msg. io c = Some (n, msg) \<and> said u = said s @ msg"
    using a(1,4) v f by (cases "io c") auto
  show "ssh_dir (account_of u) = ssh_dir (account_of s)" using a(5) v by simp
qed

text \<open>The end of the script, from the test of the last byte on.\<close>

definition script_end :: "jstr \<Rightarrow> cmd list" where
  "script_end line =
     [OrElse (Grouped (OrElse LastByteMissing AppendNewline)) (ExitWith 1), OrElse (AppendLine line) (ExitWith 1),
      Restorecon, Echo (js ''WOSH_ADDED'')]"

lemma script_end_reached:
  assumes "io LastByteMissing = None" and "run_list io (script_end line) s = (u, st)" and "said s = []"
    and "ssh_dir (account_of s) \<noteq> None"
  defines "t \<equiv> keys_text (account_of s)"
  shows "(\<exists>c n. io c = Some (n, said u)) \<and> st = Exited 1 \<and>
         (keys_text (account_of u) = t \<or> keys_text (account_of u) = closing t \<or>
          (\<exists>n. keys_text (account_of u) = closing t @ take n (line @ [10])))
       \<or> said u = js ''WOSH_ADDED'' @ [10] \<and> st = Success \<and> keys_text (account_of u) = closing t @ line @ [10]"
proof -
  obtain v sv where v: "complain io AppendNewline (append_to_keys (map_option fst (io AppendNewline)) [10] s) = (v, sv)"
    by fastforce
  define w where "w = (if t = [] \<or> last t = 10 then s else v)"
  obtain x sx where x: "complain io (AppendLine line) (append_to_keys (map_option fst (io (AppendLine line))) (line @ [10]) w) = (x, sx)"
    by fastforce
  show ?thesis
  proof (cases "(t = [] \<or> last t = 10) \<or> sv = Success")
    case False
    then have f: "sv = Failure" "\<exists>n. keys_text (account_of v) = t @ take n [10]" "\<exists>c n. io c = Some (n, said v)"
      using append_complains[OF v] assms(3,4) by (auto simp: t_def)
    then obtain n where n: "keys_text (account_of v) = t @ take n [10]" by blast
    have "u = v \<and> st = Exited 1"
      using assms(1,2) False f(1) by (auto simp: script_end_def v t_def Let_def)
    moreover have "t @ take n [10] = t \<or> t @ take n [10] = closing t"
      using False by (cases n) (simp_all add: closing_def)
    ultimately show ?thesis using n f(3) by auto
  next
    case True
    have w: "keys_text (account_of w) = closing t" "said w = []" "ssh_dir (account_of w) \<noteq> None"
      using True append_complains(1,4)[OF v] assms(3,4) by (auto simp: w_def closing_def t_def)
    have close: "run_cmd io (OrElse (Grouped (OrElse LastByteMissing AppendNewline)) (ExitWith 1)) s = (w, Success)"
      using True assms(1) by (auto simp: w_def t_def v Let_def)
    have add: "run_cmd io (OrElse (AppendLine line) (ExitWith 1)) w = (x, if sx = Success then Success else Exited 1)"
      using append_complains(2)[OF x] by (cases sx) (simp_all add: x)
    have run: "run_list io (script_end line) s =
        (if sx = Success then (x\<lparr>said := said x @ js ''WOSH_ADDED'' @ [10]\<rparr>, Success) else (x, Exited 1))"
      by (simp add: script_end_def close add del: run_cmd.simps(1) One_nat_def)
    show ?thesis
    proof (cases "sx = Success")
      case True
      then show ?thesis using run assms(2) append_complains(1)[OF x] w by auto
    next
      case False
      then have "u = x \<and> st = Exited 1" using run assms(2) append_complains(2)[OF x] by auto
      moreover have "\<exists>n msg. io (AppendLine line) = Some (n, msg) \<and> said x = msg"
        using append_complains(3)[OF x False w(3)] w(2) by simp
      ultimately show ?thesis using append_complains(2)[OF x False] w(1) by metis
    qed
  qed
qed

lemma run_install_reached:
  assumes "\<And>w. io (GrepKey w) = None" and "io LastByteMissing = None"
    and "run_install io m line a = (b, o', c)" and "keys_file a \<noteq> None \<longrightarrow> ssh_dir a \<noteq> None"
  defines "t \<equiv> keys_text a" and "w \<equiv> nth_or_empty (split_ws line) 1"
  shows "b = a \<and> o' = js ''WOSH_ALREADY'' @ [10] \<and> list_ex (str_includes w) (file_lines t)
       \<or> (\<exists>d n. io d = Some (n, o')) \<and> c = Some 1 \<and>
         (keys_text b = t \<or> keys_text b = closing t \<or> (\<exists>n. keys_text b = closing t @ take n (line @ [10])))
       \<or> o' = js ''WOSH_ADDED'' @ [10] \<and> \<not> list_ex (str_includes w) (file_lines t) \<and>
         keys_text b = closing t @ line @ [10]"
proof -
  let ?s = "\<lparr>account_of = a, mask = m, said = []\<rparr>"
  let ?front = "[OrElse Cd (ExitWith 1), Umask, OrElse MkdirP (ExitWith 1),
      Cond (GrepKey w) [Echo (js ''WOSH_ALREADY''), ExitWith 0]]"
  obtain u st where run: "run_list io (?front @ script_end line) ?s = (u, st)" by fastforce
  have b: "b = account_of u" "o' = said u" "c = Some (exit_code st)"
    using assms(3) run by (simp_all add: run_install_def install_script_def script_end_def w_def)
  define a1 where "a1 = (if ssh_dir a = None then a\<lparr>ssh_dir := Some (0x1FF AND NOT 0x3F)\<rparr> else a)"
  have a1: "keys_text a1 = t" "ssh_dir a1 \<noteq> None" by (simp_all add: a1_def t_def keys_text_def)
  consider (no_home) n msg where "io Cd = Some (n, msg)"
    | (no_dir) n msg where "io Cd = None" "ssh_dir a = None" "io MkdirP = Some (n, msg)"
    | (there) "list_ex (str_includes w) (file_lines t)" "ssh_dir a \<noteq> None" "io Cd = None"
    | (there_new) "list_ex (str_includes w) (file_lines t)" "ssh_dir a = None" "io Cd = None" "io MkdirP = None"
    | (adds) "io Cd = None" "ssh_dir a \<noteq> None \<or> io MkdirP = None" "\<not> list_ex (str_includes w) (file_lines t)"
    by (cases "io Cd"; cases "io MkdirP"; cases "ssh_dir a") auto
  then show ?thesis
  proof cases
    case no_home
    then have "account_of u = a \<and> said u = msg \<and> st = Exited 1" using run by (auto simp: complain_def split: if_splits)
    then show ?thesis using no_home by (auto simp: b exit_code_def t_def)
  next
    case no_dir
    then have "account_of u = a \<and> said u = msg \<and> st = Exited 1" using run by (auto simp: complain_def split: if_splits)
    then show ?thesis using no_dir by (auto simp: b exit_code_def t_def)
  next
    case there
    then have "account_of u = a \<and> said u = js ''WOSH_ALREADY'' @ [10]" using run assms(1) by (auto simp: t_def complain_def)
    then show ?thesis using there by (simp add: b)
  next
    case there_new
    then show ?thesis using assms(4) by (cases "keys_file a") (simp_all add: t_def keys_text_def)
  next
    case adds
    then have "run_list io (script_end line) \<lparr>account_of = a1, mask = 0x3F, said = []\<rparr> = (u, st)"
      using run by (auto simp: a1_def a1(1)[unfolded a1_def] t_def keys_text_def script_end_def complain_def split: if_splits)
    from script_end_reached[OF assms(2) this] show ?thesis
      using adds(3) a1(2) by (auto simp: a1(1) b exit_code_def)
  qed
qed

lemma run_install_smooth:
  fixes line :: jstr
  assumes "keys_file a \<noteq> None \<longrightarrow> ssh_dir a \<noteq> None" and "\<And>c. io c = None"
  defines "t \<equiv> keys_text a" and "w \<equiv> nth_or_empty (split_ws line) 1"
  shows "run_install io m line a =
     (if list_ex (str_includes w) (file_lines t) then (a, (js ''WOSH_ALREADY'' @ [10], Some 0))
      else (\<lparr>ssh_dir = Some (case ssh_dir a of None \<Rightarrow> 0x1C0 | Some d \<Rightarrow> d),
             keys_file = Some (closing t @ line @ [10], case keys_file a of None \<Rightarrow> 0x180 | Some f \<Rightarrow> snd f)\<rparr>,
            (js ''WOSH_ADDED'' @ [10], Some 0)))"
  using assms by (cases a; cases "keys_file a"; cases "ssh_dir a") (auto simp: run_defs)

text \<open>Modes that are already there stay, and what is created is for the owner alone.\<close>

lemma run_install_modes:
  "run_install io m line a = (b, r) \<Longrightarrow>
     ssh_dir b \<in> {ssh_dir a} \<union> (if ssh_dir a = None then {Some 0x1C0} else {}) \<and>
     map_option snd (keys_file b) \<in> {map_option snd (keys_file a)} \<union>
       (if keys_file a = None then {Some 0x180} else {})"
  by (auto simp: run_defs split: option.splits if_splits prod.splits)

lemma blob_included:
  assumes "key_line_ok kind blob rest"
  shows "str_includes blob (install_line (key_line kind blob rest) field)"
  unfolding includes_sublist install_line_shape(1)[OF assms]
  using sublist_appendI[of blob "kind @ [32]" "32 # chosen_comment (key_line kind blob rest) field"] by simp

text \<open>What the machine's file says: its lines, whether a key is in one of them, and its mode.\<close>

definition key_lines :: "account \<Rightarrow> jstr list" where
  "key_lines a = file_lines (keys_text a)"

definition key_present :: "jstr \<Rightarrow> account \<Rightarrow> bool" where
  "key_present blob a \<longleftrightarrow> list_ex (str_includes blob) (key_lines a)"

definition keys_mode :: "account \<Rightarrow> 9 word option" where
  "keys_mode a = map_option snd (keys_file a)"

definition account_ok :: "account \<Rightarrow> bool" where
  "account_ok a \<longleftrightarrow> (keys_file a \<noteq> None \<longrightarrow> ssh_dir a \<noteq> None)"

lemma press_smooth:
  assumes "key_line_ok kind blob rest" and "account_ok c"
  defines "line \<equiv> key_line kind blob rest"
  shows "press_install (\<lambda>_. None) m line field c =
     (if key_present blob c then (c, AlreadyThere)
      else (\<lparr>ssh_dir = Some (case ssh_dir c of None \<Rightarrow> 0x1C0 | Some d \<Rightarrow> d),
             keys_file = Some (closing (keys_text c) @ install_line line field @ [10],
               case keys_file c of None \<Rightarrow> 0x180 | Some f \<Rightarrow> snd f)\<rparr>, Installed))"
  unfolding press_install_def key_present_def key_lines_def
    run_install_smooth[of c "\<lambda>_. None" m "install_line line field", OF assms(2)[unfolded account_ok_def] refl]
    install_line_shape(2)[OF assms(1), folded line_def]
  by (cases "list_ex (str_includes blob) (file_lines (keys_text c))")
    (simp_all only: if_True if_False Let_def prod.case said_outcome)

text \<open>The search is for the blob anywhere in a line, so a key that is commented out counts as there: the
  page says so and adds nothing, though no server reads that line.\<close>

lemma commented_key_counts:
  assumes "key_line_ok kind blob rest" and "account_ok a"
    and "35 # l \<in> set (key_lines a)" and "str_includes blob l"
  shows "press_install (\<lambda>_. None) m (key_line kind blob rest) field a = (a, AlreadyThere)"
proof -
  have "str_includes blob (35 # l)" using assms(4) by simp
  then have "key_present blob a" using assms(3) unfolding key_present_def list_ex_iff by blast
  then show ?thesis using press_smooth[OF assms(1,2)] by simp
qed

text \<open>A file that can be written and not read is taken for one without the key and with its last line
  closed: the new key lands on the end of the old text as it is.\<close>

lemma unreadable_file_not_closed:
  assumes "keys_file a = Some (t, f)" and "ssh_dir a \<noteq> None"
    and "\<And>c. io c = (case c of GrepKey _ \<Rightarrow> Some (0, []) | LastByteMissing \<Rightarrow> Some (0, []) | _ \<Rightarrow> None)"
  shows "keys_text (fst (run_install io m line a)) = t @ line @ [10]"
  using assms by (simp add: run_defs)

text \<open>C23: Installing a key adds it, once. On a machine where nothing fails, whatever the file holds and
  whatever comment is typed, the press adds exactly one line, the key with its comment, after the lines
  that were there, even when the last of them has no newline, and says it is installed; if the key is in
  some line already, it changes nothing and says so. What it creates is mode 700 and 600, what is there
  keeps its mode, and pressing again, with any comment, changes nothing. The script run is the string that
  the page sends.\<close>

theorem install_adds_once:
  assumes "key_line_ok kind blob rest" and "account_ok a"
  shows "let line = key_line kind blob rest; (b, told) = press_install (\<lambda>_. None) m line field a in
    script_line (map sh_text (install_script (install_line line field))) = install_request line field \<and>
    (if key_present blob a then b = a \<and> told = AlreadyThere
     else told = Installed \<and>
       key_lines b = key_lines a @ [kind @ 32 # blob @ 32 # chosen_comment line field] \<and>
       ssh_dir b = Some (case ssh_dir a of None \<Rightarrow> 0x1C0 | Some d \<Rightarrow> d) \<and>
       keys_mode b = Some (case keys_mode a of None \<Rightarrow> 0x180 | Some f \<Rightarrow> f)) \<and>
    (\<forall>again. press_install (\<lambda>_. None) m line again b = (b, AlreadyThere))"
proof -
  let ?line = "key_line kind blob rest"
  let ?press = "press_install (\<lambda>_. None) m ?line"
  have sh: "install_line ?line f = kind @ 32 # blob @ 32 # chosen_comment ?line f"
    "nth_or_empty (split_ws (install_line ?line f)) 1 = blob" "10 \<notin> set (install_line ?line f)" for f
    using install_line_shape[OF assms(1)] by auto
  note run = press_smooth[OF assms(1), of _ m]
  have ls: "file_lines (closing (keys_text a) @ install_line ?line field @ [10]) =
      key_lines a @ [install_line ?line field]"
    using file_lines_append(2)[OF closing_closed sh(3)] by (simp add: key_lines_def)
  show ?thesis
  proof (cases "key_present blob a")
    case True
    then show ?thesis using assms(2) by (simp add: run install_request_text)
  next
    case False
    let ?b = "\<lparr>ssh_dir = Some (case ssh_dir a of None \<Rightarrow> 0x1C0 | Some d \<Rightarrow> d),
             keys_file = Some (closing (keys_text a) @ install_line ?line field @ [10],
               case keys_file a of None \<Rightarrow> 0x180 | Some f \<Rightarrow> snd f)\<rparr>"
    have first: "?press field a = (?b, Installed)" by (simp only: run[OF assms(2)] False if_False)
    have lines: "key_lines ?b = key_lines a @ [install_line ?line field]"
      using ls by (simp add: key_lines_def[of "\<lparr>ssh_dir = _, keys_file = _\<rparr>"] keys_text_def)
    then have "key_present blob ?b"
      using blob_included[OF assms(1), of field] by (simp only: key_present_def list_ex_iff set_append list.set) blast
    then have "?press f ?b = (?b, AlreadyThere)" for f
      by (subst run) (simp_all add: account_ok_def)
    moreover have "keys_mode ?b = Some (case keys_mode a of None \<Rightarrow> 0x180 | Some f \<Rightarrow> f)"
      by (simp add: keys_mode_def split: option.splits)
    ultimately show ?thesis using False lines
      by (simp add: first install_request_text sh(1))
  qed
qed

lemma install_adds_once_witness:
  "let line = key_line (js ''ssh-ed25519'') (js ''AAAA'') [];
       a = \<lparr>ssh_dir = Some 0x1ED, keys_file = Some (js ''ssh-rsa BBBB me'', 0x1A4)\<rparr>;
       (b, told) = press_install (\<lambda>_. None) 0x12 line (js ''my phone'') a
   in \<not> key_present (js ''AAAA'') a \<and> told = Installed \<and> length (key_lines b) = 2 \<and>
      keys_mode b = Some 0x1A4"
proof -
  let ?a = "\<lparr>ssh_dir = Some 0x1ED, keys_file = Some (js ''ssh-rsa BBBB me'', 0x1A4 :: 9 word)\<rparr>"
  let ?line = "key_line (js ''ssh-ed25519'') (js ''AAAA'') []"
  have "key_line_ok (js ''ssh-ed25519'') (js ''AAAA'') []" "account_ok ?a"
    by (simp_all add: key_line_ok_def account_ok_def)
  note added = install_adds_once[OF this, where m = "0x12" and field = "js ''my phone''"]
  have ls: "key_lines ?a = [js ''ssh-rsa BBBB me'']"
    by (simp add: key_lines_def keys_text_def file_lines_def)
  have "\<not> key_present (js ''AAAA'') ?a"
    unfolding key_present_def ls by (simp add: starts_with_def)
  moreover have "keys_mode ?a = Some 0x1A4" by (simp add: keys_mode_def)
  ultimately show ?thesis
    using added by (auto simp only: Let_def ls if_False list.size length_append option.case split: prod.splits)
qed

text \<open>Whatever fails, the old text stays in front.\<close>

lemma append_prefix: "prefix (keys_text (account_of s)) (keys_text (account_of (fst (append_to_keys room w s))))"
  by (auto simp: append_to_keys_def Let_def keys_text_def split: option.splits)

lemma simple_prefix: "prefix (keys_text (account_of s)) (keys_text (account_of (fst (run_simple io c s))))"
  by (cases c) (simp_all add: append_prefix Let_def, simp add: keys_text_def)

lemma run_prefix:
  "prefix (keys_text (account_of s)) (keys_text (account_of (fst (run_cmd io c s))))"
  "prefix (keys_text (account_of s)) (keys_text (account_of (fst (run_list io cs s))))"
proof (induction io c s and io cs s rule: run_cmd_run_list.induct)
  case (1 io a b s)
  then show ?case
    by (cases "run_cmd io a s"; cases "snd (run_cmd io a s)") (auto intro: prefix_order.order_trans)
next
  case (3 io a bs s)
  then show ?case
    by (cases "run_cmd io a s"; cases "snd (run_cmd io a s)") (auto intro: prefix_order.order_trans)
next
  case (6 io c cs s)
  then show ?case
    by (cases "run_cmd io c s"; cases "snd (run_cmd io c s)") (auto intro: prefix_order.order_trans)
qed (simp_all only: run_cmd.simps run_list.simps simple_prefix fst_conv prefix_order.order_refl)

text \<open>C27: A failed install breaks nothing. Whatever the system refuses on the way, a directory, a look into the
  file, the closing newline, or the write of the line after any number of its bytes: the old text stays in
  front, and a mode that was there is kept. As long as an existing file can be read (the script's search and its
  look at the last byte succeed), and no message of a refused command has the script's own two words in it,
  every old line is also still a line, at most one more line follows, a piece of the new one; Installed is said
  only when that line is the whole key line, already there only when some line has the key and nothing changed,
  and otherwise the status line says the install failed, in the words of the command that was refused.\<close>

theorem install_failure_keeps_keys:
  assumes "key_line_ok kind blob rest" and "account_ok a"
  shows "let line = key_line kind blob rest; new = kind @ 32 # blob @ 32 # chosen_comment line field;
      (b, told) = press_install io m line field a in
    account_ok b \<and> prefix (keys_text a) (keys_text b) \<and>
    (ssh_dir a \<noteq> None \<longrightarrow> ssh_dir b = ssh_dir a) \<and> (keys_mode a \<noteq> None \<longrightarrow> keys_mode b = keys_mode a) \<and>
    ((\<forall>w. io (GrepKey w) = None) \<and> io LastByteMissing = None \<and> (\<forall>c n msg. io c = Some (n, msg) \<longrightarrow> unmarked msg) \<longrightarrow>
     (\<exists>ts. key_lines b = key_lines a @ ts \<and> (ts = [] \<or> (\<exists>n. ts = [take n new])) \<and>
       (case told of
          Installed \<Rightarrow> ts = [new] \<and> \<not> key_present blob a
        | AlreadyThere \<Rightarrow> b = a \<and> key_present blob a
        | _ \<Rightarrow> (\<exists>c n msg. io c = Some (n, msg) \<and> told = InstallFailed (Some 1) (remote_words msg)))))"
proof -
  let ?line = "key_line kind blob rest"
  let ?l = "install_line ?line field"
  have sh: "?l = kind @ 32 # blob @ 32 # chosen_comment ?line field"
    "nth_or_empty (split_ws ?l) 1 = blob" "10 \<notin> set ?l"
    using install_line_shape[OF assms(1)] by auto
  obtain b o' c where run: "run_install io m ?l a = (b, o', c)" by (metis prod_cases3)
  then have press: "press_install io m ?line field a = (b, install_outcome_of (Some (o', c)))"
    by (simp add: press_install_def)
  have modes: "(ssh_dir a \<noteq> None \<longrightarrow> ssh_dir b = ssh_dir a) \<and> (keys_mode a \<noteq> None \<longrightarrow> keys_mode b = keys_mode a)"
    using run_install_modes[OF run] by (auto simp: keys_mode_def split: if_splits)
  have ok: "account_ok b"
    using assms(2) run by (auto simp: account_ok_def run_defs split: option.splits if_splits prod.splits)
  have piece: "file_lines (closing (keys_text a) @ take n (?l @ [10])) =
      key_lines a @ (if n = 0 then [] else [take n ?l])" for n
    using file_lines_piece[OF sh(3)] by (simp add: key_lines_def)
  have pre: "prefix (keys_text a) (keys_text b)"
    using run run_prefix(2)[of "\<lparr>account_of = a, mask = m, said = []\<rparr>" io "install_script ?l"]
    by (simp add: run_install_def case_prod_beta)
  let ?failed = "\<lambda>told. \<exists>c n msg. io c = Some (n, msg) \<and> told = InstallFailed (Some 1) (remote_words msg)"
  let ?told = "\<lambda>ts. case install_outcome_of (Some (o', c)) of
      Installed \<Rightarrow> ts = [?l] \<and> \<not> key_present blob a
    | AlreadyThere \<Rightarrow> b = a \<and> key_present blob a
    | _ \<Rightarrow> ?failed (install_outcome_of (Some (o', c)))"
  have "\<exists>ts. key_lines b = key_lines a @ ts \<and> (ts = [] \<or> (\<exists>n. ts = [take n ?l])) \<and> ?told ts"
    if rd: "\<forall>w. io (GrepKey w) = None" "io LastByteMissing = None" and um: "\<forall>c n msg. io c = Some (n, msg) \<longrightarrow> unmarked msg"
  proof -
    have failed: "\<exists>d n. io d = Some (n, o') \<Longrightarrow> c = Some 1 \<Longrightarrow> ?told ts" for ts
      using um failed_outcome[of o' "Some 1"] by (auto split: install_outcome.split) blast
    from run_install_reached[OF rd(1)[rule_format] rd(2) run assms(2)[unfolded account_ok_def], unfolded sh(2)]
    consider (there) "b = a" "o' = js ''WOSH_ALREADY'' @ [10]" "key_present blob a"
      | (refused) "\<exists>d n. io d = Some (n, o')" "c = Some 1" "keys_text b = keys_text a \<or> keys_text b = closing (keys_text a)"
      | (partly) n where "\<exists>d n. io d = Some (n, o')" "c = Some 1" "keys_text b = closing (keys_text a) @ take n (?l @ [10])"
      | (added) "o' = js ''WOSH_ADDED'' @ [10]" "\<not> key_present blob a" "keys_text b = closing (keys_text a) @ ?l @ [10]"
      unfolding key_present_def key_lines_def by blast
    then show ?thesis
    proof cases
      case there
      then show ?thesis by (intro exI[of _ "[]"]) (simp_all only: said_outcome install_outcome.case, simp_all)
    next
      case refused
      then have "key_lines b = key_lines a" by (auto simp: key_lines_def)
      with failed[OF refused(1,2)] show ?thesis by (intro exI[of _ "[]"]) simp
    next
      case partly
      have "key_lines b = key_lines a @ (if n = 0 then [] else [take n ?l])"
        using piece[of n] partly(3) by (simp add: key_lines_def)
      with failed[OF partly(1,2)] show ?thesis by (intro exI[of _ "if n = 0 then [] else [take n ?l]"]) auto
    next
      case added
      moreover have "key_lines b = key_lines a @ [?l]"
        using piece[of "Suc (length ?l)"] added(3) by (simp add: key_lines_def)
      moreover have "[?l] = [take (length ?l) ?l]" by simp
      ultimately show ?thesis by (intro exI[of _ "[?l]"]) (simp_all only: said_outcome install_outcome.case, blast+)
    qed
  qed
  with pre modes ok show ?thesis unfolding press Let_def prod.case sh(1)[symmetric] by blast
qed

lemma install_failure_keeps_keys_witness:
  "let line = key_line (js ''ssh-ed25519'') (js ''AAAA'') [];
       a = \<lparr>ssh_dir = Some 0x1ED, keys_file = Some (js ''ssh-rsa BBBB me'', 0x1A4)\<rparr>;
       io = (\<lambda>c. case c of AppendLine _ \<Rightarrow> Some (7, js ''no space left'') | _ \<Rightarrow> None);
       b = fst (press_install io 0x12 line (js ''my phone'') a)
   in prefix (keys_text a) (keys_text b) \<and> keys_mode b = keys_mode a \<and> (\<exists>ts. key_lines b = key_lines a @ ts)"
proof -
  let ?a = "\<lparr>ssh_dir = Some 0x1ED, keys_file = Some (js ''ssh-rsa BBBB me'', 0x1A4 :: 9 word)\<rparr>"
  let ?io = "\<lambda>c. case c of AppendLine _ \<Rightarrow> Some (7, js ''no space left'') | _ \<Rightarrow> None"
  have "key_line_ok (js ''ssh-ed25519'') (js ''AAAA'') []" "account_ok ?a"
    by (simp_all add: key_line_ok_def account_ok_def)
  note kept = install_failure_keeps_keys[OF this, where io = ?io and m = "0x12" and field = "js ''my phone''"]
  have m: "keys_mode ?a \<noteq> None" by (simp add: keys_mode_def)
  have u: "unmarked (js ''no space left'')" by (simp add: unmarked_def starts_with_def)
  have "unmarked msg" if "?io c = Some (n, msg)" for c n msg using that u by (simp split: cmd.splits)
  then show ?thesis using kept m unfolding Let_def by (fastforce split: prod.splits)
qed

end
