(* ===== verification/Golden.thy ===== *)
theory Golden
  imports Sessions InstallScript
begin

text \<open>
  The project's two plain tests, \<^verbatim>\<open>host-test/sessions-parse.mjs\<close> and \<^verbatim>\<open>host-test/install-command.mjs\<close>, as
  tables of checks: an input of the test and the value it expects. Every check is evaluated on the model, so
  the definitions of the library answer as the tests say the code does.
\<close>

subsection \<open>The listings\<close>

definition lines_of :: "jstr list \<Rightarrow> jstr" where
  "lines_of = join [10]"

definition expected :: "string \<Rightarrow> bool option \<Rightarrow> rat option \<Rightarrow> session_row" where
  "expected n a t = \<lparr>row_name = js n, row_attached = a, row_at = t\<rparr>"

definition tmux_output :: "string \<Rightarrow> string \<Rightarrow> string \<Rightarrow> jstr" where
  "tmux_output n a c = js n @ 9 # js a @ 9 # js c"

definition tmux_checks :: "(jstr \<times> session_row list) list" where
  "tmux_checks =
     [(lines_of [tmux_output ''main'' ''1'' ''1755259262'', tmux_output ''build'' ''0'' ''1755255000'', []],
       [expected ''main'' (Some True) (Some 1755259262000), expected ''build'' (Some False) (Some 1755255000000)]),
      (tmux_output ''main'' ''2'' ''1755259262'', [expected ''main'' (Some True) (Some 1755259262000)]),
      ([], []),
      (lines_of [js ''Welcome to example.net'', tmux_output ''main'' ''0'' ''1755259262''],
       [expected ''main'' (Some False) (Some 1755259262000)]),
      (tmux_output ''main'' ''0'' ''not-a-number'', [expected ''main'' (Some False) None])]"

definition ABDUCO :: jstr where
  "ABDUCO = lines_of
     [js ''Active sessions:'',
      js ''* Fri 2026-08-15 12:01:02   12345  main'',
      js ''  Fri 2026-08-15 09:14:55   12002  build'',
      []]"

definition abduco_checks :: "(jstr \<times> session_row list) list" where
  "abduco_checks =
     [(ABDUCO, [expected ''main'' (Some True) None, expected ''build'' (Some False) None]),
      (js ''Active sessions:'' @ [10], []),
      ([], [])]"

definition dtach_checks :: "(jstr \<times> session_row list) list" where
  "dtach_checks =
     [(lines_of [js ''main.dtach'', js ''build.dtach'', js ''README'', js ''notes.txt'', []],
       [expected ''main'' None None, expected ''build'' None None]),
      ([], []),
      (js ''weird name with spaces.dtach'' @ [10], [])]"

definition SCREEN :: jstr where
  "SCREEN = lines_of
     [js ''There are screens on:'',
      9 # js ''12345.main'' @ 9 # js ''(08/15/2026 12:01:02 PM)'' @ 9 # js ''(Detached)'',
      9 # js ''12002.build'' @ 9 # js ''(08/15/2026 09:14:55 AM)'' @ 9 # js ''(Attached)'',
      9 # js ''11888.shared'' @ 9 # js ''(Multi, attached)'',
      js ''3 Sockets in /run/screen/S-alice.'',
      []]"

definition screen_checks :: "(jstr \<times> session_row list) list" where
  "screen_checks =
     [(SCREEN, [expected ''main'' (Some False) None, expected ''build'' (Some True) None,
                expected ''shared'' (Some True) None]),
      (js ''No Sockets found in /run/screen/S-alice.'' @ [10, 10], []),
      ([], [])]"

fun listing_checks :: "tool \<Rightarrow> (jstr \<times> session_row list) list" where
  "listing_checks Dtach = dtach_checks"
| "listing_checks Abduco = abduco_checks"
| "listing_checks Tmux = tmux_checks"
| "listing_checks Screen = screen_checks"

definition listing_passes :: "tool \<Rightarrow> jstr \<times> session_row list \<Rightarrow> bool" where
  "listing_passes p c \<longleftrightarrow> preset_parseList p (Some (fst c)) = snd c"

lemmas listing_eval =
  parseTmuxList_def parseAbducoList_def parseDtachList_def parseScreenList_def text_lines_def
  drop_cr_def trim_def trim_start_def trim_end_def tmux_row_def abduco_row_def last_token_def
  List.map_filter_def validName_def name_char_def Let_def starts_with_def lines_of_def tmux_output_def
  expected_def listing_passes_def

lemma star_iter_numeral [simp]:
  "star_iter (numeral k) m r s c =
     (case m (\<lambda>t c'. if length t < length s then star_iter (pred_numeral k) m r t c' else None) s c of
        Some x \<Rightarrow> Some x | None \<Rightarrow> r s c)"
  by (simp add: numeral_eq_Suc)

lemmas regex_eval = rx_exec_def rx_search.simps seqs.simps lit.simps Plus_def Opt_def ws_def non_ws_def

lemma number_words:
  "js_Number (js ''1755259262'') = Some 1755259262"
  "js_Number (js ''1755255000'') = Some 1755255000"
  "js_Number (js ''not-a-number'') = None"
  by (simp_all add: js_Number_def radix_literal_def unsigned_decimal_def exponent_of_def to_double_def
      digits_value_def is_dec_def trim_def trim_start_def trim_end_def Let_def)

lemma tmux_test: "list_all (listing_passes Tmux) tmux_checks"
  using number_words by (simp add: tmux_checks_def listing_eval)

lemma abduco_test: "list_all (listing_passes Abduco) abduco_checks"
  by (simp add: abduco_checks_def ABDUCO_def listing_eval)

lemma dtach_test: "list_all (listing_passes Dtach) dtach_checks"
  by (simp add: dtach_checks_def dtach_row_def dtach_re_def any_char_def regex_eval listing_eval)

lemma rx_all_numeral:
  "rx_all (numeral k) r n s =
     (case rx_search r n s of None \<Rightarrow> [] | Some (t, c) \<Rightarrow> c # rx_all (pred_numeral k) r n t)"
  by (simp add: numeral_eq_Suc)

lemma screen_test: "list_all (listing_passes Screen) screen_checks"
  by (simp add: screen_checks_def SCREEN_def screen_row_def screen_pid_re_def screen_state_re_def digit_def
      rx_match_all_def rx_all_numeral ascii_lower_def regex_eval listing_eval)

text \<open>A listing that is missing altogether is an empty one.\<close>

lemma missing_listing: "preset_parseList p None = [] \<and> preset_parseList p (Some []) = []"
  by (cases p) (simp_all add: listing_eval)

subsection \<open>Detection and names\<close>

definition tools_found :: "bool \<Rightarrow> bool \<Rightarrow> bool \<Rightarrow> bool \<Rightarrow> (jstr \<times> bool) list" where
  "tools_found d a t s =
     [(js ''dtach'', d), (js ''abduco'', a), (js ''tmux'', t), (js ''screen'', s)]"

definition detect_checks :: "(jstr option \<times> (jstr \<times> bool) list) list" where
  "detect_checks =
     [(Some (lines_of [js ''dtach'', js ''tmux'', []]), tools_found True False True False),
      (Some [], tools_found False False False False),
      (Some (lines_of [js ''MOTD: hello'', js ''screen'', []]), tools_found False False False True),
      (None, tools_found False False False False)]"

lemma detect_test: "list_all (\<lambda>(s, fs). parseDetect s = fs) detect_checks"
  by (simp add: detect_checks_def parseDetect_def tools_found_def TOOLS_def PRESETS_def lines_of_def
      trim_def trim_start_def trim_end_def)

lemma detect_command_shape:
  "str_includes (js ''command -v'') detectCommand \<and> suffix (js ''; true'') detectCommand \<and>
   TOOLS = map preset_id PRESETS"
  by (simp add: detectCommand_def starts_with_def TOOLS_def suffix_def)

definition good_names :: "jstr list" where
  "good_names = map js [''main'', ''a'', ''build-2'', ''with_underscore''] @ [replicate 32 120]"

definition bad_names :: "jstr option list" where
  "bad_names =
     map (Some \<circ> js) ['''', '' '', ''with space'', ''semi;colon'', ''dollar$sign'', ''quote\"d'',
       ''slash/es'', ''..'', ''*'', ''$(whoami)''] @
     [Some (replicate 33 120), Some (js ''back'' @ 96 # js ''tick'' @ [96]), Some (js ''new'' @ 10 # js ''line''),
      None]"

lemma names_test: "list_all (validName \<circ> Some) good_names \<and> list_all (\<lambda>s. \<not> validName s) bad_names"
  by (simp add: good_names_def bad_names_def validName_def name_char_def Let_def list_all_iff)

subsection \<open>Command recognition\<close>

definition command_checks :: "(jstr option \<times> (tool \<times> jstr) option) list" where
  "command_checks =
     [(Some (js ''mkdir -p \"$HOME/.wosh\" && exec dtach -A \"$HOME/.wosh/main.dtach\" -r winch \"$SHELL\"''),
       Some (Dtach, js ''main'')),
      (Some (js ''exec tmux new-session -A -D -s wosh''), Some (Tmux, js ''wosh'')),
      (Some (js ''exec abduco -A wosh \"$SHELL\"''), Some (Abduco, js ''wosh'')),
      (Some (js ''exec screen -D -R -S wosh''), Some (Screen, js ''wosh'')),
      (Some (js ''exec dtach -A $HOME/.wosh/build.dtach -r winch $SHELL''), Some (Dtach, js ''build'')),
      (Some (js ''exec tmux new -A -D -s build''), Some (Tmux, js ''build'')),
      (Some [], None),
      (Some (js ''   ''), None),
      (Some (js ''exec htop''), None),
      (Some (js ''tmux kill-server''), None),
      (None, None)]"

lemma commands_test: "list_all (\<lambda>(s, r). matchCommand s = r) command_checks"
  by (simp add: command_checks_def matchCommand_def MATCHERS_def name_tail_def flag_def name_group_def
      validName_def name_char_def trim_def trim_start_def trim_end_def regex_eval Let_def)

definition round_trip_names :: "jstr list" where
  "round_trip_names = map js [''main'', ''build-2'', ''x_1'']"

lemma round_trip_test:
  "list_all (\<lambda>p. list_all (\<lambda>n. matchCommand (Some (preset_command p n)) = Some (p, n)) round_trip_names \<and>
     suffix (js ''2>/dev/null || true'') (preset_listCommand p)) PRESETS"
proof -
  have "list_all (validName \<circ> Some) round_trip_names"
    by (simp add: round_trip_names_def validName_def name_char_def Let_def)
  then show ?thesis
    by (simp add: list_all_iff matchCommand_of_command PRESETS_def suffix_def)
qed

subsection \<open>Installing a key\<close>

definition test_blob :: jstr where
  "test_blob = js ''AAAAC3NzaC1lZDI1NTE5AAAAITESTKEYFORTHEGATE''"

definition test_key :: "jstr \<Rightarrow> jstr" where
  "test_key comment = js ''ssh-ed25519 '' @ test_blob @ 32 # comment"

definition wosh_key :: jstr where
  "wosh_key = test_key (js ''wosh-browser'')"

text \<open>A home as the test makes it, and the test's two looks at it.\<close>

definition fresh_home :: account where
  "fresh_home = \<lparr>ssh_dir = None, keys_file = None\<rparr>"

definition home_with :: "jstr \<Rightarrow> account" where
  "home_with t = \<lparr>ssh_dir = Some 0x1C0, keys_file = Some (t, 0x1A4)\<rparr>"

definition test_install :: "account \<Rightarrow> jstr \<Rightarrow> account \<times> jstr" where
  "test_install home line = (let (b, out, _) = run_install (\<lambda>_. None) 0x12 line home in (b, trim out))"

definition keysOf :: "account \<Rightarrow> jstr list" where
  "keysOf home = split_on 10 (trim (keys_text home))"

lemma test_key_blob: "nth_or_empty (split_ws (test_key c)) 1 = test_blob"
proof -
  have g: "test_key c = js ''ssh-ed25519'' @ 32 # test_blob @ 32 # c" by (simp add: test_key_def)
  have w: "\<forall>x \<in> set (js ''ssh-ed25519''). \<not> is_ws x" "\<forall>x \<in> set test_blob. \<not> is_ws x"
    by (simp_all add: test_blob_def)
  have d: "dropWhile is_ws (test_blob @ 32 # c) = test_blob @ 32 # c" by (simp add: test_blob_def)
  have "is_ws 32" by simp
  then have "split_ws (test_key c) = js ''ssh-ed25519'' # test_blob # split_ws (dropWhile is_ws c)"
    by (simp only: g split_ws_Cons[OF w(1)] d split_ws_Cons[OF w(2)])
  then show ?thesis by (simp only: nth_or_empty_def) simp
qed

lemma test_install_eq:
  assumes "keys_file a \<noteq> None \<longrightarrow> ssh_dir a \<noteq> None"
  shows "test_install a (test_key c) =
     (if list_ex (str_includes test_blob) (file_lines (keys_text a)) then (a, js ''WOSH_ALREADY'')
      else (\<lparr>ssh_dir = Some (case ssh_dir a of None \<Rightarrow> 0x1C0 | Some d \<Rightarrow> d),
             keys_file = Some (closing (keys_text a) @ test_key c @ [10],
               case keys_file a of None \<Rightarrow> 0x180 | Some f \<Rightarrow> snd f)\<rparr>, js ''WOSH_ADDED''))"
  unfolding test_install_def run_install_smooth[OF assms refl] test_key_blob
  by (simp add: trim_def trim_start_def trim_end_def)

lemma install_test_fresh:
  "test_install fresh_home wosh_key =
     (\<lparr>ssh_dir = Some 0x1C0, keys_file = Some (wosh_key @ [10], 0x180)\<rparr>, js ''WOSH_ADDED'')"
  unfolding wosh_key_def by (subst test_install_eq) (simp_all add: fresh_home_def keys_text_def closing_def)

lemma install_test_twice:
  "test_install (fst (test_install fresh_home wosh_key)) (test_key c) =
     (fst (test_install fresh_home wosh_key), js ''WOSH_ALREADY'')"
proof -
  have inc: "str_includes test_blob wosh_key"
    by (simp add: includes_sublist wosh_key_def test_key_def sublist_appendI[of test_blob "js ''ssh-ed25519 ''" "32 # js ''wosh-browser''", simplified])
  have "file_lines (wosh_key @ [10]) = [wosh_key]"
    using file_lines_closed[of wosh_key] by (simp add: wosh_key_def test_key_def test_blob_def)
  then show ?thesis unfolding install_test_fresh fst_conv
    by (subst test_install_eq) (simp_all add: keys_text_def inc)
qed

lemma install_test_no_newline:
  "keysOf (fst (test_install (home_with (js ''ssh-rsa AAAAEXISTINGKEY somebody-else'')) wosh_key)) =
     [js ''ssh-rsa AAAAEXISTINGKEY somebody-else'', wosh_key]"
  unfolding wosh_key_def
  by (subst test_install_eq)
    (simp_all add: home_with_def keys_text_def file_lines_def test_blob_def starts_with_def test_key_def
      closing_def keysOf_def trim_def trim_start_def trim_end_def)

text \<open>What users may type for a comment, and what becomes of it. The test's own table gives \<open>rm -rf\<close> and
  \<open>a-ssh-rsa\<close> for the second and the third and checks neither.\<close>

definition hostile :: "(jstr \<times> jstr) list" where
  "hostile =
     [(js ''my phone'', js ''my phone''),
      (39 # js '' ; rm -rf ~ ; echo '' @ [39], js ''rm -rf - - echo''),
      (js ''a'' @ 10 # js ''ssh-rsa AAAAINJECTED attacker'', js ''a-ssh-rsa AAAAINJECTED attacker''),
      (js ''../../etc/passwd'', js ''..-..-etc-passwd''),
      (39 # 34 # js ''$(id)'' @ 96 # js ''id'' @ [96], js ''id-id'')]"

lemma hostile_test: "list_all (\<lambda>(typed, c). cleanComment (Some typed) = c) hostile"
  by (simp add: hostile_def cleanComment_def comment_char_def word_char_def edge_char_def strip_end_def Let_def)

lemma hostile_lines:
  "keysOf (fst (test_install fresh_home (test_key (cleanComment s)))) = [trim (test_key (cleanComment s))]"
proof -
  have c: "10 \<notin> set (test_key (cleanComment s))"
    using comment_plain[OF cleanComment_comment_ok, of s] by (simp add: test_key_def test_blob_def)
  have t: "trim (x @ [10]) = trim x" for x :: jstr
    by (induction x) (simp_all add: trim_def trim_start_def trim_end_def)
  have "10 \<notin> set (trim (test_key (cleanComment s)))" using c set_trim by blast
  then show ?thesis
    by (subst test_install_eq)
      (simp_all add: fresh_home_def keys_text_def closing_def keysOf_def t split_on_no_sep)
qed

end
