(* ===== verification/TouchMetrics.thy ===== *)
theory TouchMetrics
  imports Prelude
begin

text \<open>
  \<^verbatim>\<open>site/touch-select.mjs\<close>, the layout of the selection mirror: \<open>applyMetrics\<close> with its memo key, the heights
  the row divs are given, and the offset of the sheet. What is shown is that the transparent characters lie
  over the terminal's own cells. Lengths are exact rationals of CSS pixels; the advance of a font is what
  \<open>measureAdvance\<close> measures, so it is a parameter.
\<close>

subsection \<open>The code\<close>

text \<open>What a layout depends on: the box of the screen, the size of the terminal, its font. The memo key of
  the code is the text of these six, which determines them.\<close>

record geometry =
  box_width :: rat
  box_height :: rat
  geo_cols :: nat
  geo_rows :: nat
  font_family :: jstr
  font_size :: rat

text \<open>The height of a row div is \<open>None\<close> until it is set. The offset is the sheet's \<open>top\<close>, in pixels.\<close>

record mirror =
  metricsKey :: "geometry option"
  cellW :: rat
  cellH :: rat
  letterSpacing :: rat
  row_heights :: "rat option list"
  top_line :: nat
  view_line :: nat
  sheet_offset :: rat
  held :: bool

definition or_one :: "nat \<Rightarrow> rat" where
  "or_one n = (if n = 0 then 1 else of_nat n)"

definition applyMetrics :: "(jstr \<Rightarrow> rat \<Rightarrow> rat) \<Rightarrow> geometry \<Rightarrow> mirror \<Rightarrow> mirror \<times> bool" where
  "applyMetrics advance g s =
     (if box_height g = 0 then (s, False)
      else if metricsKey s = Some g then (s, True)
      else
        (let w = box_width g / or_one (geo_cols g); h = box_height g / or_one (geo_rows g)
         in (s\<lparr>metricsKey := Some g, cellW := w, cellH := h,
               letterSpacing := w - advance (font_family g) (font_size g),
               row_heights := map (\<lambda>_. Some h) (row_heights s)\<rparr>, True)))"

definition rebuildRows :: "nat \<Rightarrow> mirror \<Rightarrow> mirror" where
  "rebuildRows n s =
     s\<lparr>row_heights := take n (row_heights s) @ replicate (n - length (row_heights s)) None, metricsKey := None\<rparr>"

definition sync :: "(jstr \<Rightarrow> rat \<Rightarrow> rat) \<Rightarrow> geometry \<Rightarrow> nat \<Rightarrow> mirror \<Rightarrow> mirror" where
  "sync advance g vy s =
     (if held s then s
      else
        (let s1 = (if length (row_heights s) \<noteq> geo_rows g then rebuildRows (geo_rows g) s else s);
             (s2, laid_out) = applyMetrics advance g s1
         in if laid_out then s2\<lparr>top_line := vy, view_line := vy, sheet_offset := 0\<rparr>
            else s2\<lparr>view_line := vy\<rparr>))"

text \<open>\<open>reAnchor\<close>: rows are added before and after until they cover the screen, each as high as a cell.\<close>

definition reAnchor :: "nat \<Rightarrow> mirror \<Rightarrow> mirror" where
  "reAnchor n s =
     (let vy = view_line s;
          above = top_line s - vy;
          t = top_line s - above;
          hs = replicate above (Some (cellH s)) @ row_heights s;
          below = (vy + n) - (t + length hs)
      in s\<lparr>top_line := t, row_heights := hs @ replicate below (Some (cellH s)),
           sheet_offset := (of_nat t - of_nat vy) * cellH s\<rparr>)"

text \<open>What can happen: a frame mirrors the terminal, the selection begins or ends, the view scrolls over
  \<open>n\<close> rows, or the terminal is resized to \<open>n\<close> rows.\<close>

datatype mirror_event = Frame geometry nat | Holds | Lets | Scrolls nat nat | Resizes nat nat

fun mirror_step :: "(jstr \<Rightarrow> rat \<Rightarrow> rat) \<Rightarrow> mirror \<Rightarrow> mirror_event \<Rightarrow> mirror" where
  "mirror_step advance s (Frame g vy) = sync advance g vy s"
| "mirror_step advance s Holds = s\<lparr>held := True\<rparr>"
| "mirror_step advance s Lets = s\<lparr>held := False\<rparr>"
| "mirror_step advance s (Scrolls n vy) =
     (let s1 = s\<lparr>view_line := vy\<rparr> in if held s1 then reAnchor n s1 else s1)"
| "mirror_step advance s (Resizes n vy) = rebuildRows n (s\<lparr>held := False, view_line := vy\<rparr>)"

definition unlaid :: mirror where
  "unlaid = \<lparr>metricsKey = None, cellW = 0, cellH = 0, letterSpacing = 0, row_heights = [], top_line = 0,
     view_line = 0, sheet_offset = 0, held = False\<rparr>"

text \<open>A character of a row, as the browser and the terminal draw it: its natural advance in the font, and how many
  cells the terminal gives it (two for a wide one).\<close>

type_synonym glyph = "rat \<times> nat"

text \<open>Where the browser puts things: the left edge of character \<open>k\<close> of a row (letter spacing is added to every
  character, however many cells it has), and the top edge of row \<open>i\<close>, both from the corner of the screen. The
  terminal paints the character at \<open>cell_left\<close>.\<close>

definition char_left :: "glyph list \<Rightarrow> mirror \<Rightarrow> nat \<Rightarrow> rat" where
  "char_left row s k = sum_list (map (\<lambda>(a, _). a + letterSpacing s) (take k row))"

definition cell_left :: "rat \<Rightarrow> glyph list \<Rightarrow> nat \<Rightarrow> rat" where
  "cell_left cw row k = of_nat (sum_list (map snd (take k row))) * cw"

text \<open>A character of one cell, as wide as the one \<open>measureAdvance\<close> measured.\<close>

definition plain_glyph :: "rat \<Rightarrow> glyph \<Rightarrow> bool" where
  "plain_glyph a x \<longleftrightarrow> x = (a, 1)"

definition row_offset :: "mirror \<Rightarrow> nat \<Rightarrow> rat" where
  "row_offset s i = sheet_offset s + sum_list (map (\<lambda>h. case h of Some x \<Rightarrow> x | None \<Rightarrow> 0) (take i (row_heights s)))"

subsection \<open>The memo key is sound\<close>

definition styled :: "mirror \<Rightarrow> bool" where
  "styled s \<longleftrightarrow> set (row_heights s) \<subseteq> {Some (cellH s)}"

definition metrics_inv :: "(jstr \<Rightarrow> rat \<Rightarrow> rat) \<Rightarrow> mirror \<Rightarrow> bool" where
  "metrics_inv advance s \<longleftrightarrow>
     (case metricsKey s of
        None \<Rightarrow> True
      | Some g \<Rightarrow> styled s \<and> cellW s = box_width g / or_one (geo_cols g) \<and>
          cellH s = box_height g / or_one (geo_rows g) \<and>
          letterSpacing s = cellW s - advance (font_family g) (font_size g))"

lemma metrics_inv_apply:
  "metrics_inv advance s \<Longrightarrow> applyMetrics advance g s = (t, ok) \<Longrightarrow>
     metrics_inv advance t \<and> ok = (box_height g \<noteq> 0) \<and> (ok \<longrightarrow> metricsKey t = Some g) \<and>
     length (row_heights t) = length (row_heights s) \<and> held t = held s"
  by (auto simp: applyMetrics_def metrics_inv_def styled_def Let_def split: if_splits)

lemma metrics_inv_rebuild: "metrics_inv advance (rebuildRows n s)"
  by (simp add: metrics_inv_def rebuildRows_def)

lemma metrics_inv_frame:
  "metrics_inv advance (s\<lparr>top_line := a, view_line := b, sheet_offset := c\<rparr>) = metrics_inv advance s"
  "metrics_inv advance (s\<lparr>view_line := b\<rparr>) = metrics_inv advance s"
  "metrics_inv advance (s\<lparr>held := d\<rparr>) = metrics_inv advance s"
  by (simp_all add: metrics_inv_def styled_def split: option.split)

lemma sync_result:
  assumes "metrics_inv advance s" and "\<not> held s"
  shows "metrics_inv advance (sync advance g vy s)"
    and "box_height g \<noteq> 0 \<Longrightarrow> metricsKey (sync advance g vy s) = Some g"
    and "box_height g \<noteq> 0 \<Longrightarrow> length (row_heights (sync advance g vy s)) = geo_rows g"
    and "box_height g \<noteq> 0 \<Longrightarrow> top_line (sync advance g vy s) = vy \<and> view_line (sync advance g vy s) = vy \<and>
           sheet_offset (sync advance g vy s) = 0"
proof -
  define u where "u = (if length (row_heights s) \<noteq> geo_rows g then rebuildRows (geo_rows g) s else s)"
  obtain v ok where v: "applyMetrics advance g u = (v, ok)" by fastforce
  have u: "metrics_inv advance u" "length (row_heights u) = geo_rows g"
    using assms(1) by (simp add: u_def metrics_inv_rebuild, auto simp: u_def rebuildRows_def min_def)
  have s: "sync advance g vy s =
      (if ok then v\<lparr>top_line := vy, view_line := vy, sheet_offset := 0\<rparr> else v\<lparr>view_line := vy\<rparr>)"
    using assms(2) by (simp add: sync_def u_def[symmetric] v)
  note r = metrics_inv_apply[OF u(1) v]
  show "metrics_inv advance (sync advance g vy s)" using r by (simp add: s metrics_inv_frame)
  show "box_height g \<noteq> 0 \<Longrightarrow> metricsKey (sync advance g vy s) = Some g"
    "box_height g \<noteq> 0 \<Longrightarrow> length (row_heights (sync advance g vy s)) = geo_rows g"
    "box_height g \<noteq> 0 \<Longrightarrow> top_line (sync advance g vy s) = vy \<and> view_line (sync advance g vy s) = vy \<and>
       sheet_offset (sync advance g vy s) = 0"
    using r u(2) by (simp_all add: s)
qed

lemma metrics_inv_sync: "metrics_inv advance s \<Longrightarrow> metrics_inv advance (sync advance g vy s)"
  using sync_result(1) by (cases "held s") (simp_all add: sync_def)

lemma metrics_inv_reAnchor: "metrics_inv advance s \<Longrightarrow> metrics_inv advance (reAnchor n s)"
  by (auto simp: reAnchor_def metrics_inv_def styled_def Let_def split: option.splits)

lemma metrics_inv_step [page_inv]: "metrics_inv advance s \<Longrightarrow> metrics_inv advance (mirror_step advance s e)"
  by (cases e) (simp_all add: metrics_inv_sync metrics_inv_reAnchor metrics_inv_rebuild metrics_inv_frame Let_def)

interpretation laying_out: started_machine "mirror_step advance" "metrics_inv advance" unlaid
  by unfold_locales (simp_all add: metrics_inv_step, simp add: metrics_inv_def unlaid_def)

subsection \<open>The mirror lies over the cells\<close>

lemma row_offset_styled:
  assumes "styled s" and "i \<le> length (row_heights s)"
  shows "row_offset s i = sheet_offset s + of_nat i * cellH s"
proof -
  have "row_heights s = replicate (length (row_heights s)) (Some (cellH s))"
    using assms(1) by (auto simp: styled_def intro!: replicate_eqI)
  then have "take i (row_heights s) = replicate i (Some (cellH s))"
    using assms(2) by (metis min.absorb1 take_replicate)
  then show ?thesis by (simp add: row_offset_def sum_list_replicate)
qed

text \<open>What holds from the frame that laid the mirror out, as long as the selection is held.\<close>

definition laid_over :: "geometry \<Rightarrow> mirror \<Rightarrow> bool" where
  "laid_over g s \<longleftrightarrow>
     metricsKey s = Some g \<and> sheet_offset s = (of_nat (top_line s) - of_nat (view_line s)) * cellH s \<and>
     top_line s \<le> view_line s \<and> view_line s + geo_rows g \<le> top_line s + length (row_heights s)"

lemma laid_over_reAnchor:
  "metricsKey s = Some g \<Longrightarrow> laid_over g (reAnchor (geo_rows g) s)"
  by (auto simp: laid_over_def reAnchor_def Let_def)

text \<open>Events of a selection that is being held, while the terminal keeps its size.\<close>

fun while_held :: "geometry \<Rightarrow> mirror_event \<Rightarrow> bool" where
  "while_held g (Scrolls n vy) = (n = geo_rows g)"
| "while_held g (Resizes n vy) = False"
| "while_held g Lets = False"
| "while_held g e = True"

lemma laid_over_held:
  assumes "laid_over g s" and "held s" and "list_all (while_held g) es"
  shows "laid_over g (foldl (mirror_step advance) s es)"
  using assms
proof (induction es arbitrary: s)
  case (Cons e es)
  have "laid_over g (mirror_step advance s e) \<and> held (mirror_step advance s e)"
  proof (cases e)
    case (Scrolls n vy)
    then have "reAnchor n (s\<lparr>view_line := vy\<rparr>) = mirror_step advance s e" "n = geo_rows g"
      using Cons.prems by (simp_all add: Let_def)
    moreover have "laid_over g (reAnchor (geo_rows g) (s\<lparr>view_line := vy\<rparr>))"
      using Cons.prems(1) by (intro laid_over_reAnchor) (simp add: laid_over_def)
    moreover have "held (reAnchor n (s\<lparr>view_line := vy\<rparr>))"
      using Cons.prems(2) by (simp add: reAnchor_def Let_def)
    ultimately show ?thesis by simp
  qed (use Cons.prems in \<open>auto simp: sync_def laid_over_def\<close>)
  then show ?case using Cons by simp
qed simp

lemma drift:
  assumes "a + letterSpacing s = cw"
  shows "char_left row s k - cell_left cw row k = sum_list (map (\<lambda>(b, n). b - a - (of_nat n - 1) * cw) (take k row))"
proof -
  have ls: "letterSpacing s = cw - a" using assms by simp
  have "sum_list (map (\<lambda>(b, _). b + letterSpacing s) xs) - of_nat (sum_list (map snd xs)) * cw =
      sum_list (map (\<lambda>(b, n). b - a - (of_nat n - 1) * cw) xs)" for xs :: "glyph list"
    by (induction xs) (auto simp: ls algebra_simps)
  then show ?thesis by (simp add: char_left_def cell_left_def)
qed

lemma plain_left:
  assumes "a + letterSpacing s = cw" and "k \<le> length row" and "list_all (plain_glyph a) (take k row)"
  shows "char_left row s k = of_nat k * cw"
proof -
  have "take k row = replicate k (a, 1)"
    using assms(2,3) by (auto simp: list_all_iff plain_glyph_def intro!: replicate_eqI)
  then show ?thesis using assms(1) by (simp add: char_left_def sum_list_replicate)
qed

text \<open>C35: The selection lies over the text it selects, on rows of plain characters. Take any run of the mirror up
  to a frame that lays it out, with no selection held, and then any scrolling under a selection that is held.
  In each state from that frame on, character \<open>k\<close> of a mirrored row starts where column \<open>k\<close> of the terminal
  starts, if the characters before it have one cell each and the advance that was measured; on any row its
  distance from where the terminal paints it is the sum, over the characters before it, of what each is wider
  than the measured one, less a cell for each cell beyond its first (so wide glyphs drift the highlight). Every
  mirrored row lies where the terminal paints the buffer line it was copied from, and the mirrored rows cover
  the whole screen.\<close>

theorem mirror_over_cells:
  assumes "s = foldl (mirror_step advance) unlaid es" and "\<not> held s"
    and "box_height g \<noteq> 0" and "list_all (while_held g) es'"
  shows "let t = foldl (mirror_step advance) (mirror_step advance s (Frame g vy)) (Holds # es');
      cw = box_width g / or_one (geo_cols g); ch = box_height g / or_one (geo_rows g);
      a = advance (font_family g) (font_size g) in
    (\<forall>row k. k \<le> length row \<and> list_all (plain_glyph a) (take k row) \<longrightarrow> char_left row t k = of_nat k * cw) \<and>
    (\<forall>row k. char_left row t k - cell_left cw row k =
       sum_list (map (\<lambda>(b, n). b - a - (of_nat n - 1) * cw) (take k row))) \<and>
    (\<forall>i < length (row_heights t). row_offset t i = (of_nat (top_line t + i) - of_nat (view_line t)) * ch) \<and>
    top_line t \<le> view_line t \<and> view_line t + geo_rows g \<le> top_line t + length (row_heights t)"
proof -
  let ?f = "mirror_step advance s (Frame g vy)"
  let ?t = "foldl (mirror_step advance) ?f (Holds # es')"
  have inv: "metrics_inv advance s" unfolding assms(1) by (rule laying_out.ok_reached)
  note sr = sync_result[OF inv assms(2)]
  have "metrics_inv advance ?t"
    using laying_out.ok_run[of advance ?f "Holds # es'"] sr(1) by simp
  moreover have "laid_over g ?t"
  proof -
    have "laid_over g (?f\<lparr>held := True\<rparr>)"
      using sr(2-4)[OF assms(3)] by (simp add: laid_over_def)
    from laid_over_held[OF this _ assms(4)] show ?thesis by simp
  qed
  moreover define u where "u = ?t"
  ultimately have inv: "metrics_inv advance u" and over: "laid_over g u" by simp_all
  define ch where "ch = box_height g / or_one (geo_rows g)"
  from inv over have u: "styled u" "cellH u = ch" "advance (font_family g) (font_size g) + letterSpacing u =
      box_width g / or_one (geo_cols g)"
    by (simp_all add: metrics_inv_def laid_over_def ch_def)
  have "sheet_offset u = (of_nat (top_line u) - of_nat (view_line u)) * ch"
    using over u(2) by (simp add: laid_over_def)
  then have "row_offset u i = (of_nat (top_line u + i) - of_nat (view_line u)) * ch"
    if "i < length (row_heights u)" for i
    using row_offset_styled[OF u(1), of i] that by (simp add: u(2) ring_distribs)
  then show ?thesis
    using over drift[OF u(3)] plain_left[OF u(3)] unfolding u_def[symmetric] Let_def laid_over_def ch_def by simp
qed

definition phone :: geometry where
  "phone = \<lparr>box_width = 800, box_height = 600, geo_cols = 80, geo_rows = 24, font_family = [], font_size = 14\<rparr>"

lemma mirror_over_cells_witness:
  "let a = (\<lambda>_ _. 17 / 2);
       t = foldl (mirror_step a) (mirror_step a unlaid (Frame phone 100)) (Holds # [Scrolls 24 97, Scrolls 24 105])
   in char_left (replicate 9 (17 / 2, 1)) t 7 = 70 \<and> char_left [(17, 2), (17 / 2, 1)] t 1 - cell_left 10 [(17, 2), (17 / 2, 1)] 1 = - 3 / 2"
proof -
  let ?a = "\<lambda>_ _. 17 / 2"
  have h: "unlaid = foldl (mirror_step ?a) unlaid []" "\<not> held unlaid" "box_height phone \<noteq> 0"
    "list_all (while_held phone) [Scrolls 24 97, Scrolls 24 105]"
    by (simp_all add: unlaid_def phone_def)
  have w: "box_width phone / or_one (geo_cols phone) = 10" by (simp add: phone_def or_one_def)
  define t where "t = foldl (mirror_step ?a) (mirror_step ?a unlaid (Frame phone 100)) (Holds # [Scrolls 24 97, Scrolls 24 105])"
  note over = mirror_over_cells[OF h, of 100, unfolded Let_def t_def[symmetric] w]
  have "char_left (replicate 9 (17 / 2, 1)) t 7 = of_nat 7 * 10"
    using over[THEN conjunct1, rule_format, of 7 "replicate 9 (17 / 2, 1)"]
    by (simp add: plain_glyph_def list_all_iff)
  moreover have "char_left [(17, 2), (17 / 2, 1)] t 1 - cell_left 10 [(17, 2), (17 / 2, 1)] 1 = 17 - 17 / 2 - 10"
    using over[THEN conjunct2, THEN conjunct1, rule_format, of "[(17, 2), (17 / 2, 1)]" 1] by simp
  ultimately show ?thesis unfolding Let_def t_def[symmetric] by simp
qed

end
