(* ===== verification/PageAsks.thy ===== *)
theory PageAsks
  imports HomeScreen
begin

text \<open>
  \<^verbatim>\<open>site/boot.mjs\<close>, the smaller asks and the start of the page: the batch of prompts (\<open>promptsAsk\<close>), the touch a
  passkey needs (the ceremony gate), the copy button, and what the capabilities probe finds on screen when
  it answers; with the calls of \<^verbatim>\<open>site/app.mjs\<close> that only pass through \<open>api()\<close>.
\<close>

subsection \<open>A batch of prompts\<close>

record prompt_field =
  prompt_text :: jstr
  masked :: bool
  typed :: jstr

definition prompt_fields :: "(jstr \<times> bool) list option \<Rightarrow> prompt_field list" where
  "prompt_fields prompts =
     map (\<lambda>(t, echo). \<lparr>prompt_text = t, masked = (\<not> echo), typed = []\<rparr>)
       (case prompts of None \<Rightarrow> [] | Some ps \<Rightarrow> ps)"

text \<open>What the user does: fills a field, presses a button, or presses Enter with the cancel button focused or
  with something else focused.\<close>

datatype prompt_event = Fill nat jstr | PressAnswer | PressCancel | PressEnter bool

text \<open>The fields after it, and what it passes to \<open>done\<close>.\<close>

fun promptsAsk :: "prompt_field list \<Rightarrow> prompt_event \<Rightarrow> prompt_field list \<times> jstr list option option" where
  "promptsAsk fs (Fill i v) = ((if i < length fs then fs[i := (fs ! i)\<lparr>typed := v\<rparr>] else fs), None)"
| "promptsAsk fs PressAnswer = (fs, Some (Some (map typed fs)))"
| "promptsAsk fs PressCancel = (fs, Some None)"
| "promptsAsk fs (PressEnter on_cancel) = (fs, if on_cancel then None else Some (Some (map typed fs)))"

fun fill_all :: "prompt_field list \<Rightarrow> (nat \<times> jstr) list \<Rightarrow> prompt_field list" where
  "fill_all fs [] = fs"
| "fill_all fs ((i, v) # es) = fill_all (fst (promptsAsk fs (Fill i v))) es"

text \<open>The last text put into field \<open>i\<close>.\<close>

fun last_typed :: "(nat \<times> jstr) list \<Rightarrow> nat \<Rightarrow> jstr \<Rightarrow> jstr" where
  "last_typed [] i v = v"
| "last_typed ((j, w) # es) i v = last_typed es i (if i = j then w else v)"

lemma fill_all_typed:
  "length (fill_all fs es) = length fs \<and>
   (\<forall>i < length fs. typed (fill_all fs es ! i) = last_typed es i (typed (fs ! i)))"
  by (induction es arbitrary: fs) (auto simp: nth_list_update)

text \<open>However the fields are filled in, an answer has one text for each prompt, in the order of the batch, and
  each is what its own field says last.\<close>

lemma answers_match_prompts:
  assumes "snd (promptsAsk (fill_all (prompt_fields (Some ps)) es) e) = Some (Some vs)"
  shows "length vs = length ps \<and> (\<forall>i < length ps. vs ! i = last_typed es i [])"
proof -
  let ?fs = "prompt_fields (Some ps)"
  have "vs = map typed (fill_all ?fs es)" using assms by (cases e) (auto split: if_splits)
  moreover have "length ?fs = length ps" "\<And>i. i < length ps \<Longrightarrow> typed (?fs ! i) = []"
    by (simp_all add: prompt_fields_def split_def)
  ultimately show ?thesis using fill_all_typed[of ?fs es] by simp
qed

subsection \<open>The touch a passkey needs\<close>

text \<open>What the ceremony gate's promise comes to, from the answer of its sheet.\<close>

definition ceremony_gate :: "bool option \<Rightarrow> jstr + unit" where
  "ceremony_gate v = (if v = Some True then Inr () else Inl (js ''passkey sign-in declined''))"

text \<open>A ceremony goes ahead only on a press of its own sheet's button: superseded, dismissed or withdrawn
  it is declined.\<close>

lemma ceremony_needs_touch:
  assumes "late_null no_sheet es" and "(i, v) \<in> set (answers (sheet_run es))" and "ceremony_gate v = Inr ()"
  shows "Done i (Some True) \<in> set es"
  using own_answer_given[OF assms(1), of i True] assms(2,3) by (simp add: ceremony_gate_def split: if_splits)

subsection \<open>Calls that pass through\<close>

text \<open>\<open>const t = await api(); return await t.f(...)\<close>\<close>

definition through_api :: "jstr + 'api \<Rightarrow> ('api \<Rightarrow> jstr + 'r) \<Rightarrow> jstr + 'r" where
  "through_api loaded f = (case loaded of Inl e \<Rightarrow> Inl e | Inr t \<Rightarrow> f t)"

record passkey_api =
  api_enroll :: "jstr + jstr"
  api_recover :: "jstr + jstr"
  api_adopt :: "jstr \<Rightarrow> jstr + jstr"
  api_forget :: "jstr + unit"

definition enrollPasskey :: "jstr + passkey_api \<Rightarrow> jstr + jstr" where
  "enrollPasskey t = through_api t api_enroll"

definition recoverPasskey :: "jstr + passkey_api \<Rightarrow> jstr + jstr" where
  "recoverPasskey t = through_api t api_recover"

definition adoptPasskey :: "jstr + passkey_api \<Rightarrow> jstr \<Rightarrow> jstr + jstr" where
  "adoptPasskey t line = through_api t (\<lambda>a. api_adopt a line)"

definition forgetPasskey :: "jstr + passkey_api \<Rightarrow> jstr + unit" where
  "forgetPasskey t = through_api t api_forget"

text \<open>A press on the passkey card: what goes to the component, the status while it does, and the card after.\<close>

definition forget_line :: "jstr + jstr \<Rightarrow> jstr + unit" where
  "forget_line r = (case r of Inl e \<Rightarrow> Inl e | Inr _ \<Rightarrow> Inr ())"

definition verb_call :: "jstr + passkey_api \<Rightarrow> card_verb \<Rightarrow> jstr + unit" where
  "verb_call t verb =
     (case verb of
        Enrol \<Rightarrow> forget_line (enrollPasskey t)
      | Adopt s \<Rightarrow> forget_line (adoptPasskey t (trim s))
      | Recover \<Rightarrow> forget_line (recoverPasskey t)
      | Forget \<Rightarrow> forgetPasskey t)"

definition card_verb_run ::
  "caps option \<Rightarrow> jstr + passkey_api \<Rightarrow> card_verb \<Rightarrow> jstr + jstr option \<Rightarrow> passkey_view \<Rightarrow> passkey_view" where
  "card_verb_run cs t verb identity v =
     (case card_press verb v of
        (False, w) \<Rightarrow> w
      | (True, w) \<Rightarrow> card_answer cs verb (verb_call t verb) identity w)"

text \<open>A component that does not load is what the card says, and nothing on it changes.\<close>

lemma verb_without_component:
  "card (card_verb_run cs (Inl e) verb identity v) = card v \<and>
   (fst (card_press verb v) \<longrightarrow>
      card_status (card_verb_run cs (Inl e) verb identity v) = verb_name verb @ js '' failed: '' @ e)"
  by (cases verb) (auto simp: card_verb_run_def card_press_def card_answer_def verb_call_def forget_line_def
      enrollPasskey_def adoptPasskey_def recoverPasskey_def forgetPasskey_def through_api_def)

subsection \<open>Copying\<close>

text \<open>The label of a copy button: a press sets it when the clipboard answers, and each press has a timer that
  sets it back.\<close>

datatype copy_event = ClipboardAnswers bool | CopyTimer

fun copyBtn :: "jstr \<Rightarrow> copy_event \<Rightarrow> jstr" where
  "copyBtn l (ClipboardAnswers ok) = (if ok then js ''copied'' else js ''copy failed'')"
| "copyBtn l CopyTimer = js ''copy''"

definition helpToggle :: "bool \<Rightarrow> bool" where
  "helpToggle hid \<longleftrightarrow> \<not> hid"

subsection \<open>The start of the page\<close>

text \<open>The screen last shown (it keeps its class when the overlay is hidden), what the probe has answered, and
  the capabilities the screen and the open connect sheet were built from.\<close>

record page_start =
  known :: "caps option"
  screen_on :: "page_screen option"
  screen_built :: "caps option"
  form_built :: "caps option option"
  start_notice :: jstr

datatype start_event = ShowsScreen page_screen | OpensForm | ClosesForm | CapsAnswer "jstr + caps"

fun start_step :: "page_start \<Rightarrow> start_event \<Rightarrow> page_start" where
  "start_step s (ShowsScreen p) = s\<lparr>screen_on := Some p, screen_built := known s\<rparr>"
| "start_step s OpensForm = s\<lparr>form_built := Some (known s)\<rparr>"
| "start_step s ClosesForm = s\<lparr>form_built := None\<rparr>"
| "start_step s (CapsAnswer r) =
     (case r of
        Inl e \<Rightarrow> s\<lparr>start_notice := js ''could not load the client component: '' @ e\<rparr>
      | Inr c \<Rightarrow>
          (let s1 = s\<lparr>known := Some c\<rparr>
           in if screen_on s1 = Some Prefs \<or> screen_on s1 = Some Connection then s1\<lparr>screen_built := known s1\<rparr> else s1))"

text \<open>Home first; a link in the address opens its form at once.\<close>

definition nothing_shown :: page_start where
  "nothing_shown = \<lparr>known = None, screen_on = None, screen_built = None, form_built = None, start_notice = []\<rparr>"

definition boot_start :: "bool \<Rightarrow> page_start" where
  "boot_start has_fragment =
     (let s = start_step nothing_shown (ShowsScreen Home) in if has_fragment then start_step s OpensForm else s)"

definition built_now :: "page_start \<Rightarrow> bool" where
  "built_now s \<longleftrightarrow> (screen_on s = Some Prefs \<or> screen_on s = Some Connection \<longrightarrow> screen_built s = known s)"

lemma built_now_step [page_inv]: "built_now s \<Longrightarrow> built_now (start_step s e)"
  by (cases e) (auto simp: built_now_def Let_def split: sum.split)

interpretation starting: started_machine start_step built_now "boot_start frag"
  by unfold_locales (simp_all add: built_now_step, simp add: built_now_def boot_start_def nothing_shown_def Let_def)

text \<open>A settings screen offers what the loaded component can do from the moment the page knows it. The connect
  sheet does not: opened before the probe answers, as a link in the address opens it, it goes on offering
  methods that the component does not have.\<close>

lemma settings_offer_what_is_known:
  "screen_on (foldl start_step (boot_start frag) es) \<in> {Some Prefs, Some Connection} \<Longrightarrow>
     methodSelect (screen_built (foldl start_step (boot_start frag) es)) =
     methodSelect (known (foldl start_step (boot_start frag) es))"
  using starting.ok_reached[of frag es] by (auto simp: built_now_def)

lemma fragment_form_stays_as_built:
  assumes "\<not> can_passkey c"
  shows "let s = foldl start_step (boot_start True) [CapsAnswer (Inr c)] in
    known s = Some c \<and> form_built s = Some None \<and>
    js ''passkey'' \<in> set (methodSelect None) \<and> js ''passkey'' \<notin> set (methodSelect (Some c))"
  using assms by (simp add: boot_start_def nothing_shown_def methodSelect_def METHODS_def Let_def)

end
