(* ===== verification/Spec2Isabelle.thy ===== *)
theory Spec2Isabelle
  imports
    Sessions AuthorizedKeys Connstring Token History BufferStore Links EscWatch TransferIo Identity
    Qr PageChrome Connect Asks ConnectForm Dial Recovery TransferRecords Passkey Mobile TouchSelect
    ClientLoad Scrollback Trust ServiceWorker Screens HomeScreen TermSetup TransferView InstallScript
    Golden TouchMetrics PageAsks
begin

text \<open>
  A verification library for the browser side of wosh, a web SSH client: the ES modules under
  \<^verbatim>\<open>src/site/\<close>. The page dials a listener from a connection string, shows the host key to the user,
  authenticates through an SSH client that is a WebAssembly component, pumps the session's output into a
  terminal emulator, and keeps connections, host-key pins, scrollback, keys, passkeys and interrupted
  downloads in the browser's storage.

  \<^bold>\<open>The parts and how they meet.\<close> The shell (\<^verbatim>\<open>boot.mjs\<close>) owns the screens, the one sheet every question rides
  on, and the storage; it calls \<open>onConnect\<close> and hands it a ui contract. The engine (\<^verbatim>\<open>app.mjs\<close>) implements
  \<open>connect\<close>, the output pump, painting and the scrollback, and calls the component through one gate; it asks the
  shell back through the ui contract and by window events. Around them stand the service worker, the stores
  (\<^verbatim>\<open>buffer-store\<close>, \<^verbatim>\<open>identity-store\<close>, \<^verbatim>\<open>pairing-store\<close>, \<^verbatim>\<open>passkey-store\<close>), the files panel with its worker
  (\<^verbatim>\<open>transfer-ui\<close>, \<^verbatim>\<open>transfer-io\<close>, \<^verbatim>\<open>transfer-worker\<close>) and the mobile layer (\<^verbatim>\<open>mobile\<close>, \<^verbatim>\<open>touch-select\<close>).

  \<^bold>\<open>How code becomes definitions.\<close> A function keeps its name. A module's mutable variables are a record, an
  operation is a function on it, and a function with awaits is a machine whose states are its awaits: what the
  await comes back with (an answer, an error, a timer, a user's press) is an event, so every order in which the
  browser may deliver them is a run. JavaScript strings are lists of UTF-16 units (Prelude), 32-bit operations
  are on \<open>32 word\<close>, \<open>null\<close> and \<open>undefined\<close> are \<open>None\<close>, and what a call throws is \<open>Inl\<close> or \<open>None\<close>.

  \<^bold>\<open>The theories.\<close>
  \<^item> Foundations. Prelude: strings, white space, splitting, and the locale \<open>machine\<close> of event systems with an
    invariant. Codec: \<open>atob\<close>, \<open>btoa\<close>, UTF-8 and percent decoding as their standards give them. Regex: the
    backtracking matcher behind the page's patterns. Idb: IndexedDB stores and the locale \<open>honest_store\<close>.
    WebStorage: \<open>localStorage\<close>, JSON, the preferences and pins, and the locale \<open>slot\<close> of one stored value.
  \<^item> \<^verbatim>\<open>sessions.mjs\<close>: Sessions (presets, \<open>matchCommand\<close>, the listing parsers).
    \<^verbatim>\<open>authorized-keys.mjs\<close>: AuthorizedKeys (\<open>installCommand\<close>, \<open>cleanComment\<close>, the answer of the probe) and
    InstallScript (the script as a syntax tree with the string as its text, and what it does to an account whose
    system may refuse any step, with what each command says on stderr, which the page receives too). Golden: the checks of \<^verbatim>\<open>host-test/sessions-parse.mjs\<close> and
    \<^verbatim>\<open>host-test/install-command.mjs\<close>, evaluated on both.
  \<^item> \<^verbatim>\<open>boot.mjs\<close>: Connstring (\<open>connstringFrom\<close>, \<open>endpointIdOf\<close>, \<open>connstringDetails\<close>, \<open>encodeConnstring\<close>), Token
    (\<open>decodeToken\<close>), History (cards), Asks (the sheet, two-step buttons, \<open>hostKeyAsk\<close>, \<open>confirmHostKey\<close>
    in its two parts, the pin read when asking and written when answered, with other tabs and \<open>removePin\<close> in
    between), ConnectForm
    (\<open>connectSheet\<close>, \<open>renderConnection\<close>), Dial (\<open>doConnect\<close>, \<open>autoReconnect\<close>, the ends of a session, and every other
    writer of the stored connections: the ui contract during a dial, settings, other tabs), Recovery
    (re-pair, missing command, resume countdown, session sheet), Screens (settings, identity cards, pins, bar),
    HomeScreen (\<open>renderHome\<close>), PageAsks (\<open>promptsAsk\<close>, the ceremony gate, the passkey card's verbs, the start of
    the page).
  \<^item> \<^verbatim>\<open>app.mjs\<close>: CallGate (\<open>serializeSession\<close>, \<open>enterPatiently\<close>), Screen (\<open>paint\<close>, \<open>flush\<close>, \<open>saveScrollback\<close>,
    \<open>restoreScrollback\<close>, \<open>claimTerminal\<close>), Connect (\<open>connect\<close> up to the running session), Pump (the pump,
    \<open>sessionEnded\<close>, \<open>detach\<close>, the input wiring), TermSetup (the addons, the clipboard, \<open>sleep\<close> and \<open>wake\<close>),
    ClientLoad (\<open>api\<close>, with \<open>loadClient\<close> of \<^verbatim>\<open>polyengine-entry.ts\<close>, and the discard of \<open>sessionEnded\<close>).
  \<^item> Stores: BufferStore, Identity (\<^verbatim>\<open>identity-store.ts\<close> and \<^verbatim>\<open>pairing-store.ts\<close>), Passkey.
  \<^item> Files: TransferFmt (paths, names, sizes), TransferWorker, TransferIo, TransferUi (the panel's state and
    operations), TransferRuns and TransferRecords (what holds on its runs), TransferView (\<open>render\<close>, and
    the crumbs on screen, which are redrawn only when a listing answers).
  \<^item> Small modules: Links, EscWatch, Qr, PageChrome (\<^verbatim>\<open>lifecycle.mjs\<close>, \<^verbatim>\<open>overlay.mjs\<close>, \<^verbatim>\<open>separator.mjs\<close>), Mobile,
    TouchSelect and TouchMetrics (the selection mirror: what it says, and where it lies), ServiceWorker (\<^verbatim>\<open>sw.js\<close>
    between the browser's HTTP cache and the pages: an install under way, a waiting worker, the active one).
  \<^item> Compositions: Trust (a whole dial: \<open>connect\<close> with the page's ui contract, the pins and other tabs writing
    them) and Scrollback (any number of tabs: prefetch, terminal, saves, database, wipe).

  \<^bold>\<open>What the lemmas show.\<close> Trust: no credential leaves before a key is pinned or accepted (Trust, Asks), one
  ask and one dial at a time (Asks, Dial), and a card is new only for a session reached (Dial, History). Output: nothing is
  shed on the way to the terminal, a session ends once, a dump only ever comes back to its own host (Screen,
  Pump, Scrollback). Component: one call inside at a time, knocking ends by its deadline and the
  lateness of the timers, a failed load is tried again (CallGate, ClientLoad). Files: staged bytes survive, a resumed stream is whole, a finished file
  is handed over once, a running download is on record (TransferWorker, TransferIo, TransferRuns,
  TransferRecords). Data: what is written reads back (Connstring, Token, Sessions, Passkey), what a remote
  party sends cannot leave its bounds (AuthorizedKeys, Links, TransferFmt). Keys: an install adds one line once
  and a failed one leaves every line that was there (InstallScript). Touch: the mirror refines the buffer and a
  copy joins wrapped lines (TouchSelect), its rows lie over the terminal's and its characters over their cells, wide
  glyphs drifting by what they are wide (TouchMetrics), modifiers are one-shot (Mobile).

  \<^bold>\<open>Bounds and fuel.\<close> No model runs on fuel: loops are structural or come with a measure (\<open>split_ws\<close> and
  \<open>squash\<close> by length, \<open>utf8_dec\<close> and \<open>decode_uri\<close> by the input left, \<open>enter_loop\<close> by the time to its deadline, \<open>excess\<close> by the value,
  \<open>forward_loop\<close> by the distance left, \<open>reveal_up\<close> and \<open>copy_loop\<close> by the rows left), and the regular-expression
  matcher's star consumes at each turn. Loops that last as long as a session are event systems.

  \<^bold>\<open>Not modelled.\<close> The WebAssembly component, the relay and the listener (Rust and Go, not JavaScript of the
  page): their calls are events, and what the page relies on is a hypothesis. The linker, WebCrypto, WebAuthn
  ceremonies, the camera's decoders, \<open>new URL\<close> and the terminal emulator: parameters or event sources. Layout,
  styles, fonts and help texts; the icon generator; the browser-driven tests under \<^verbatim>\<open>host-test/\<close>, which drive a
  real browser and hold no logic of the page. Of the machine a key is installed on, only what the script can
  touch is modelled: one directory and one file, their modes and the file's bytes.
\<close>

end
